(* ===== verification/Go_Prelude.thy ===== *)
theory Go_Prelude
  imports Complex_Main "HOL-Library.Word" "HOL-Library.Char_ord"
begin

unbundle bit_operations_syntax

text \<open>
  What the load balancer uses of the Go language and its standard library: fixed-width
  integers (as \<^typ>\<open>int\<close> with the wrap-around written out), instants and durations of
  package \<open>time\<close>, the string functions of \<open>strings\<close> and \<open>strconv\<close>, and
  \<open>net.SplitHostPort\<close>. Go strings are byte sequences, so they are \<^typ>\<open>string\<close>.
  The theory also holds the generic lemmas and the named collections the components share.
\<close>

named_theorems go_arith \<open>facts about Go's fixed-width arithmetic\<close>
named_theorems frame \<open>what an operation leaves unchanged\<close>

section \<open>Fixed-width integers\<close>

text \<open>\<open>int64\<close> and \<open>int32\<close> arithmetic wraps around in two's complement.\<close>

definition wrap64 :: "int \<Rightarrow> int" where
  "wrap64 i = signed_take_bit 63 i"

definition wrap32 :: "int \<Rightarrow> int" where
  "wrap32 i = signed_take_bit 31 i"

definition in_int64 :: "int \<Rightarrow> bool" where
  "in_int64 i \<longleftrightarrow> - (2 ^ 63) \<le> i \<and> i < 2 ^ 63"

definition in_int32 :: "int \<Rightarrow> bool" where
  "in_int32 i \<longleftrightarrow> - (2 ^ 31) \<le> i \<and> i < 2 ^ 31"

lemma wrap64_id [go_arith]: "in_int64 i \<Longrightarrow> wrap64 i = i"
  unfolding wrap64_def in_int64_def by (rule signed_take_bit_int_eq_self) auto

lemma wrap32_id [go_arith]: "in_int32 i \<Longrightarrow> wrap32 i = i"
  unfolding wrap32_def in_int32_def by (rule signed_take_bit_int_eq_self) auto

lemma in_int64_wrap64 [simp]: "in_int64 (wrap64 i)"
  using signed_take_bit_int_greater_eq_minus_exp [of 63 i]
    signed_take_bit_int_less_exp [of 63 i]
  by (simp add: in_int64_def wrap64_def)

lemma in_int32_wrap32 [simp]: "in_int32 (wrap32 i)"
  using signed_take_bit_int_greater_eq_minus_exp [of 31 i]
    signed_take_bit_int_less_exp [of 31 i]
  by (simp add: in_int32_def wrap32_def)

lemma wrap64_add: "wrap64 (wrap64 a + b) = wrap64 (a + b)"
proof -
  have "take_bit 64 (wrap64 a + b) = take_bit 64 (take_bit 64 (wrap64 a) + b)"
    by (simp add: take_bit_eq_mod mod_add_left_eq)
  also have "\<dots> = take_bit 64 (take_bit 64 a + b)" by (simp add: wrap64_def take_bit_signed_take_bit)
  also have "\<dots> = take_bit 64 (a + b)" by (simp add: take_bit_eq_mod mod_add_left_eq)
  finally have "take_bit 64 (wrap64 a + b) = take_bit 64 (a + b)" .
  then show ?thesis unfolding wrap64_def
    by (subst signed_take_bit_eq_iff_take_bit_eq) (simp add: wrap64_def)
qed

lemma wrap64_inc_dec [simp]: "wrap64 (wrap64 (i + 1) - 1) = wrap64 i"
proof -
  have "take_bit 64 (wrap64 (i + 1) - 1) = take_bit 64 (take_bit 64 (wrap64 (i + 1)) - 1)"
    by (simp add: take_bit_eq_mod mod_diff_left_eq)
  also have "\<dots> = take_bit 64 (take_bit 64 (i + 1) - 1)"
    by (simp add: wrap64_def take_bit_signed_take_bit)
  also have "\<dots> = take_bit 64 i"
    by (simp add: take_bit_eq_mod mod_diff_left_eq)
  finally have *: "take_bit 64 (wrap64 (i + 1) - 1) = take_bit 64 i" .
  have "signed_take_bit 63 (wrap64 (i + 1) - 1) = signed_take_bit 63 i"
    by (subst signed_take_bit_eq_iff_take_bit_eq) (simp add: *)
  then show ?thesis by (simp add: wrap64_def)
qed

section \<open>Instants and durations\<close>

text \<open>
  An instant (\<open>time.Time\<close>) is its distance in nanoseconds from a fixed origin and a
  duration (\<open>time.Duration\<close>) is an \<open>int64\<close> number of nanoseconds.
  \<open>time.Since(t)\<close> is \<open>now.Sub(t)\<close>, which saturates at the ends of \<open>int64\<close>.
\<close>

type_synonym instant = int
type_synonym duration = int

definition time_since :: "instant \<Rightarrow> instant \<Rightarrow> duration" where
  "time_since now t = max (- (2 ^ 63)) (min (2 ^ 63 - 1) (now - t))"

abbreviation second :: duration where
  "second \<equiv> 1000000000"

lemma time_since_less_iff [go_arith]:
  "in_int64 c \<Longrightarrow> time_since now t < c \<longleftrightarrow> c \<noteq> - (2 ^ 63) \<and> now - t < c"
  by (auto simp: time_since_def in_int64_def)

lemma time_since_mono: "now \<le> now' \<Longrightarrow> time_since now t \<le> time_since now' t"
  by (auto simp: time_since_def)

section \<open>Strings\<close>

text \<open>\<open>strings.IndexByte\<close> and \<open>LastIndexByte\<close>, with \<open>None\<close> for the \<open>-1\<close>.\<close>

fun index_byte :: "string \<Rightarrow> char \<Rightarrow> nat option" where
  "index_byte [] c = None"
| "index_byte (x # xs) c = (if x = c then Some 0 else map_option Suc (index_byte xs c))"

definition last_index_byte :: "string \<Rightarrow> char \<Rightarrow> nat option" where
  "last_index_byte s c = map_option (\<lambda>i. length s - 1 - i) (index_byte (rev s) c)"

definition has_prefix :: "string \<Rightarrow> string \<Rightarrow> bool" where
  "has_prefix s p \<longleftrightarrow> take (length p) s = p"

fun str_contains :: "string \<Rightarrow> string \<Rightarrow> bool" where
  "str_contains [] p = (p = [])"
| "str_contains (x # xs) p = (has_prefix (x # xs) p \<or> str_contains xs p)"

lemma index_byte_None_iff [simp]: "index_byte s c = None \<longleftrightarrow> c \<notin> set s"
  by (induction s) auto

lemma index_byte_SomeD:
  "index_byte s c = Some i \<Longrightarrow> i < length s \<and> s ! i = c \<and> c \<notin> set (take i s)"
  by (induction s arbitrary: i) (auto split: if_splits)

lemma index_byte_append: "c \<notin> set xs \<Longrightarrow> index_byte (xs @ c # ys) c = Some (length xs)"
  by (induction xs) auto

lemma last_index_byte_append: "c \<notin> set ys \<Longrightarrow> last_index_byte (xs @ c # ys) c = Some (length xs)"
  by (simp add: last_index_byte_def index_byte_append)

lemma last_index_byte_None_iff [simp]: "last_index_byte s c = None \<longleftrightarrow> c \<notin> set s"
  by (simp add: last_index_byte_def)

lemma has_prefix_append [simp]: "has_prefix (p @ s) p"
  by (simp add: has_prefix_def)

lemma str_contains_iff: "str_contains s p \<longleftrightarrow> (\<exists>a b. s = a @ p @ b)"
proof (induction s)
  case Nil
  show ?case by simp
next
  case (Cons x xs)
  show ?case
  proof
    assume "str_contains (x # xs) p"
    then consider "has_prefix (x # xs) p" | "str_contains xs p" by auto
    then show "\<exists>a b. x # xs = a @ p @ b"
    proof cases
      case 1
      then have "x # xs = [] @ p @ drop (length p) (x # xs)"
        by (metis append_Nil append_take_drop_id has_prefix_def)
      then show ?thesis by blast
    next
      case 2
      with Cons.IH obtain a b where "xs = a @ p @ b" by blast
      then have "x # xs = (x # a) @ p @ b" by simp
      then show ?thesis by blast
    qed
  next
    assume "\<exists>a b. x # xs = a @ p @ b"
    then obtain a b where ab: "x # xs = a @ p @ b" by blast
    show "str_contains (x # xs) p"
    proof (cases a)
      case Nil
      with ab have "x # xs = p @ b" by simp
      then show ?thesis by (metis has_prefix_append str_contains.simps(2))
    next
      case (Cons a0 as)
      with ab have "xs = as @ p @ b" by simp
      with Cons.IH show ?thesis by auto
    qed
  qed
qed

subsection \<open>\<open>strconv.Itoa\<close> on the natural numbers\<close>

definition digit_char :: "nat \<Rightarrow> char" where
  "digit_char d = char_of (48 + d)"

fun itoa :: "nat \<Rightarrow> string" where
  "itoa n = (if n < 10 then [digit_char n] else itoa (n div 10) @ [digit_char (n mod 10)])"

declare itoa.simps [simp del]

definition is_digit :: "char \<Rightarrow> bool" where
  "is_digit c \<longleftrightarrow> CHR ''0'' \<le> c \<and> c \<le> CHR ''9''"

definition is_alpha :: "char \<Rightarrow> bool" where
  "is_alpha c \<longleftrightarrow> (CHR ''a'' \<le> c \<and> c \<le> CHR ''z'') \<or> (CHR ''A'' \<le> c \<and> c \<le> CHR ''Z'')"

definition digit_value :: "char \<Rightarrow> nat" where
  "digit_value c = of_char c - 48"

text \<open>
  \<open>strconv.ParseUint(s, 10, 16)\<close>: the empty string and any byte that is not a decimal
  digit are syntax errors, a value past 65535 is a range error; the first problem from the
  left is the one reported.
\<close>

datatype num_error = ErrSyntax | ErrRange

fun parse_uint16_loop :: "nat \<Rightarrow> string \<Rightarrow> num_error + nat" where
  "parse_uint16_loop n [] = Inr n"
| "parse_uint16_loop n (c # cs) =
     (if \<not> is_digit c then Inl ErrSyntax
      else let n1 = n * 10 + digit_value c
           in if n1 > 65535 then Inl ErrRange else parse_uint16_loop n1 cs)"

definition parse_uint16 :: "string \<Rightarrow> num_error + nat" where
  "parse_uint16 s = (if s = [] then Inl ErrSyntax else parse_uint16_loop 0 s)"

lemma parse_uint16_loop_bound: "parse_uint16_loop n s = Inr k \<Longrightarrow> n \<le> 65535 \<Longrightarrow> k \<le> 65535"
  by (induction n s rule: parse_uint16_loop.induct) (auto simp: Let_def split: if_splits)

lemma parse_uint16_bound: "parse_uint16 s = Inr k \<Longrightarrow> k \<le> 65535"
  by (auto simp: parse_uint16_def split: if_splits dest: parse_uint16_loop_bound)

lemma parse_uint16_loop_digits: "parse_uint16_loop n s = Inr k \<Longrightarrow> \<forall>c \<in> set s. is_digit c"
  by (induction n s rule: parse_uint16_loop.induct) (auto simp: Let_def split: if_splits)

subsection \<open>\<open>net.SplitHostPort\<close>\<close>

datatype addr_error = MissingPort | TooManyColons | MissingRBracket | UnexpectedLBracket
  | UnexpectedRBracket

text \<open>
  The two bracket checks that end the function look at the input from \<open>j\<close> and \<open>k\<close>
  on, the positions before which a bracket has been accounted for.
\<close>

definition split_host_port_end ::
  "string \<Rightarrow> nat \<Rightarrow> string \<Rightarrow> nat \<Rightarrow> nat \<Rightarrow> addr_error + string \<times> string" where
  "split_host_port_end s i host j k =
     (if CHR ''['' \<in> set (drop j s) then Inl UnexpectedLBracket
      else if CHR '']'' \<in> set (drop k s) then Inl UnexpectedRBracket
      else Inr (host, drop (i + 1) s))"

definition split_host_port :: "string \<Rightarrow> addr_error + string \<times> string" where
  "split_host_port s =
     (case last_index_byte s (CHR '':'') of
        None \<Rightarrow> Inl MissingPort
      | Some i \<Rightarrow>
          if has_prefix s ''['' then
            (case index_byte s (CHR '']'') of
               None \<Rightarrow> Inl MissingRBracket
             | Some e \<Rightarrow>
                 if e + 1 = length s then Inl MissingPort
                 else if e + 1 = i then
                   split_host_port_end s i (take (e - 1) (drop 1 s)) 1 (e + 1)
                 else if s ! (e + 1) = CHR '':'' then Inl TooManyColons
                 else Inl MissingPort)
          else if CHR '':'' \<in> set (take i s) then Inl TooManyColons
          else split_host_port_end s i (take i s) 0 0)"

lemma split_host_port_plain:
  assumes "set h \<inter> {CHR '':'', CHR ''['', CHR '']''} = {}"
    and "set p \<inter> {CHR '':'', CHR ''['', CHR '']''} = {}"
  shows "split_host_port (h @ CHR '':'' # p) = Inr (h, p)"
proof -
  have "last_index_byte (h @ CHR '':'' # p) (CHR '':'') = Some (length h)"
    using assms(2) by (intro last_index_byte_append) auto
  moreover have "\<not> has_prefix (h @ CHR '':'' # p) ''[''"
    using assms(1) by (cases h) (auto simp: has_prefix_def)
  ultimately show ?thesis
    using assms by (auto simp: split_host_port_def split_host_port_end_def)
qed

section \<open>Lists and folds\<close>

lemma find_Some_iff_nth:
  "find P xs = Some x \<Longrightarrow> x \<in> set xs \<and> P x"
  by (auto simp: find_Some_iff)

lemma find_exists: "x \<in> set xs \<Longrightarrow> P x \<Longrightarrow> \<exists>y. find P xs = Some y"
  by (induction xs) auto

lemma distinct_map_filter: "distinct (map f xs) \<Longrightarrow> distinct (map f (filter P xs))"
  by (induction xs) auto

end
