(* ===== verification/Float64.thy ===== *)
theory Float64
  imports Go_Prelude "HOL-Library.Log_Nat"
begin

text \<open>
  The \<open>float64\<close> arithmetic the program uses, in the two places where it uses it: the
  EWMA latency and the bounded-loads capacity. A finite \<open>float64\<close> is a rational, and
  every operation is the exact rational operation followed by \<open>f64\<close>, which rounds to
  the nearest number of 53 significant bits, ties to even (IEEE 754, the mode Go uses).
  Overflow and subnormal numbers are outside the model: the values rounded here are 0 or lie
  between \<open>2 ^ (- 60)\<close> and \<open>2 ^ 130\<close>.
\<close>

section \<open>Binary exponents\<close>

definition ilog2 :: "rat \<Rightarrow> int" where
  "ilog2 x = (let (n, d) = quotient_of x; k = bitlen n - bitlen d
              in if 2 powi k \<le> x then k else k - 1)"

lemma powi2_pos [simp]: "0 < (2::rat) powi e"
  by (simp add: zero_less_power_int)

lemma powi2_Suc: "(2::rat) powi (e + 1) = 2 * 2 powi e"
  by (simp add: power_int_add)

lemma powi2_le_iff [simp]: "(2::rat) powi a \<le> 2 powi b \<longleftrightarrow> a \<le> b"
  by (meson linorder_not_le one_less_numeral_iff order_less_imp_le power_int_increasing
      power_int_strict_increasing semiring_norm(76))

lemma powi2_less_iff [simp]: "(2::rat) powi a < 2 powi b \<longleftrightarrow> a < b"
  by (simp add: linorder_not_le [symmetric])

lemma bitlen_powi:
  assumes "0 < n"
  shows "2 powi (bitlen n - 1) \<le> (of_int n :: rat)" "(of_int n :: rat) < 2 powi bitlen n"
proof -
  have b: "2 ^ nat (bitlen n - 1) \<le> n" "n < 2 ^ nat (bitlen n)"
    using bitlen_bounds [OF assms] by auto
  have pos: "0 < bitlen n"
  proof (rule ccontr)
    assume "\<not> 0 < bitlen n"
    then have "n < 1" using b(2) by simp
    with assms show False by simp
  qed
  have "(2::rat) ^ nat (bitlen n - 1) = of_int (2 ^ nat (bitlen n - 1))" by simp
  also have "\<dots> \<le> of_int n" using b(1) by (simp only: of_int_le_iff)
  finally show "2 powi (bitlen n - 1) \<le> (of_int n :: rat)"
    using pos by (simp add: power_int_def)
  have "(of_int n :: rat) < of_int (2 ^ nat (bitlen n))" using b(2) by (simp only: of_int_less_iff)
  then show "(of_int n :: rat) < 2 powi bitlen n"
    using pos by (simp add: power_int_def)
qed

lemma ilog2_bounds:
  assumes "0 < x"
  shows "2 powi ilog2 x \<le> x" "x < 2 powi (ilog2 x + 1)"
proof -
  obtain n d where q: "quotient_of x = (n, d)" by (cases "quotient_of x") auto
  have d: "0 < d" and x: "x = of_int n / of_int d"
    using quotient_of_denom_pos [OF q] quotient_of_div [OF q] by auto
  have n: "0 < n" using assms d x by (simp add: zero_less_divide_iff)
  define k where "k = bitlen n - bitlen d"
  have lo: "(2::rat) powi (k - 1) < x"
  proof -
    have "(2::rat) powi (k - 1) * of_int d < 2 powi (k - 1) * 2 powi bitlen d"
      using bitlen_powi(2) [OF d] by simp
    also have "\<dots> = 2 powi (bitlen n - 1)"
      by (simp add: k_def flip: power_int_add)
    also have "\<dots> \<le> of_int n" by (rule bitlen_powi(1) [OF n])
    finally show ?thesis using d by (simp add: x less_divide_eq)
  qed
  have hi: "x < 2 powi (k + 1)"
  proof -
    have "of_int n < (2::rat) powi bitlen n" by (rule bitlen_powi(2) [OF n])
    also have "\<dots> = 2 powi (k + 1) * 2 powi (bitlen d - 1)"
      by (simp add: k_def flip: power_int_add)
    also have "\<dots> \<le> 2 powi (k + 1) * of_int d"
      using bitlen_powi(1) [OF d] by simp
    finally show ?thesis using d by (simp add: x divide_less_eq)
  qed
  have e: "ilog2 x = (if 2 powi k \<le> x then k else k - 1)"
    by (simp add: ilog2_def q k_def)
  show "2 powi ilog2 x \<le> x" using lo by (auto simp: e)
  show "x < 2 powi (ilog2 x + 1)" using hi by (auto simp: e)
qed

lemma ilog2_eqI: "2 powi e \<le> x \<Longrightarrow> x < 2 powi (e + 1) \<Longrightarrow> ilog2 x = e"
proof -
  assume a: "2 powi e \<le> x" "x < 2 powi (e + 1)"
  then have "0 < x" by (meson less_le_trans powi2_pos)
  note b = ilog2_bounds [OF this]
  have "e < ilog2 x + 1" "ilog2 x < e + 1"
    using a b by (meson le_less_trans powi2_less_iff)+
  then show ?thesis by simp
qed

lemma ilog2_mono: "0 < x \<Longrightarrow> x \<le> y \<Longrightarrow> ilog2 x \<le> ilog2 y"
proof -
  assume a: "0 < x" "x \<le> y"
  then have "2 powi ilog2 x < (2::rat) powi (ilog2 y + 1)"
    using ilog2_bounds(1) [of x] ilog2_bounds(2) [of y] by linarith
  then show ?thesis by simp
qed

section \<open>Rounding to an integer, ties to even\<close>

definition rne :: "rat \<Rightarrow> int" where
  "rne x = (let f = \<lfloor>x\<rfloor>; r = x - of_int f
            in if r < 1 / 2 \<or> (r = 1 / 2 \<and> even f) then f else f + 1)"

lemma rne_of_int [simp]: "rne (of_int n) = n"
  by (simp add: rne_def)

lemma rne_bounds: "\<lfloor>x\<rfloor> \<le> rne x" "rne x \<le> \<lfloor>x\<rfloor> + 1"
  by (auto simp: rne_def Let_def)

lemma rne_error: "\<bar>of_int (rne x) - x\<bar> \<le> 1 / 2"
proof -
  have "of_int \<lfloor>x\<rfloor> \<le> x" "x < of_int \<lfloor>x\<rfloor> + 1" by linarith+
  then show ?thesis by (auto simp: rne_def Let_def abs_if; linarith)
qed

lemma rne_mono:
  assumes "x \<le> y"
  shows "rne x \<le> rne y"
proof (cases "\<lfloor>x\<rfloor> = \<lfloor>y\<rfloor>")
  case True
  then show ?thesis using assms by (auto simp: rne_def Let_def)
next
  case False
  then have "\<lfloor>x\<rfloor> + 1 \<le> \<lfloor>y\<rfloor>" using floor_mono [OF assms] by simp
  then show ?thesis using rne_bounds [of x] rne_bounds [of y] by linarith
qed

lemma rne_ge_of_int: "of_int n \<le> x \<Longrightarrow> n \<le> rne x"
  using rne_mono [of "of_int n" x] by simp

lemma rne_le_of_int: "x \<le> of_int n \<Longrightarrow> rne x \<le> n"
  using rne_mono [of x "of_int n"] by simp

section \<open>Rounding to \<open>float64\<close>\<close>

definition f64 :: "rat \<Rightarrow> rat" where
  "f64 x = (if x = 0 then 0
            else let e = ilog2 \<bar>x\<bar> - 52 in of_int (rne (x / 2 powi e)) * 2 powi e)"

lemma f64_0 [simp]: "f64 0 = 0"
  by (simp add: f64_def)

lemma scaled_bounds:
  assumes "0 < x"
  defines "e \<equiv> ilog2 x - 52"
  shows "of_int (2 ^ 52) \<le> x / 2 powi e" "x / 2 powi e < of_int (2 ^ 53)"
proof -
  have "(2::rat) ^ 52 * 2 powi e = 2 powi (52 + e)" "(2::rat) ^ 53 * 2 powi e = 2 powi (53 + e)"
    by (simp_all add: power_int_add)
  then show "of_int (2 ^ 52) \<le> x / 2 powi e" "x / 2 powi e < of_int (2 ^ 53)"
    using ilog2_bounds [OF assms(1)] by (simp_all add: e_def le_divide_eq divide_less_eq add.commute)
qed

lemma rne_scaled_bounds:
  assumes "0 < x"
  defines "m \<equiv> rne (x / 2 powi (ilog2 x - 52))"
  shows "2 ^ 52 \<le> m" "m \<le> 2 ^ 53"
  using scaled_bounds [OF assms(1)] unfolding m_def
  by (auto intro!: rne_ge_of_int rne_le_of_int)

lemma f64_pos_eq: "0 < x \<Longrightarrow> f64 x = of_int (rne (x / 2 powi (ilog2 x - 52))) * 2 powi (ilog2 x - 52)"
  by (simp add: f64_def Let_def)

lemma f64_binade:
  assumes "0 < x"
  shows "2 powi ilog2 x \<le> f64 x" "f64 x \<le> 2 powi (ilog2 x + 1)"
proof -
  define e where "e = ilog2 x - 52"
  define m where "m = rne (x / 2 powi e)"
  have m: "2 ^ 52 \<le> m" "m \<le> 2 ^ 53"
    using rne_scaled_bounds [OF assms] by (simp_all add: m_def e_def)
  have fx: "f64 x = of_int m * 2 powi e"
    using assms by (simp add: f64_pos_eq m_def e_def)
  have "of_int (2 ^ 52) \<le> (of_int m :: rat)" "(of_int m :: rat) \<le> of_int (2 ^ 53)"
    using m by (simp_all only: of_int_le_iff)
  then have "2 ^ 52 * 2 powi e \<le> f64 x" "f64 x \<le> 2 ^ 53 * 2 powi e"
    by (simp_all add: fx)
  moreover have "(2::rat) ^ 52 * 2 powi e = 2 powi ilog2 x" "(2::rat) ^ 53 * 2 powi e = 2 powi (ilog2 x + 1)"
    by (simp_all add: e_def power_int_diff power_int_add)
  ultimately show "2 powi ilog2 x \<le> f64 x" "f64 x \<le> 2 powi (ilog2 x + 1)" by simp_all
qed

lemma f64_pos: "0 < x \<Longrightarrow> 0 < f64 x"
  using f64_binade(1) [of x] powi2_pos [of "ilog2 x"] by linarith

lemma f64_nonneg: "0 \<le> x \<Longrightarrow> 0 \<le> f64 x"
  using f64_pos [of x] by (cases "x = 0") auto

lemma f64_mono:
  assumes "0 \<le> x" "x \<le> y"
  shows "f64 x \<le> f64 y"
proof (cases "x = 0")
  case True
  then show ?thesis using assms by (simp add: f64_nonneg)
next
  case False
  then have x: "0 < x" and y: "0 < y" using assms by auto
  show ?thesis
  proof (cases "ilog2 x = ilog2 y")
    case True
    have "rne (x / 2 powi (ilog2 y - 52)) \<le> rne (y / 2 powi (ilog2 y - 52))"
      using assms by (intro rne_mono divide_right_mono) auto
    then show ?thesis using x y True by (simp add: f64_pos_eq)
  next
    case False
    then have "ilog2 x + 1 \<le> ilog2 y" using ilog2_mono [OF x assms(2)] by simp
    then have "(2::rat) powi (ilog2 x + 1) \<le> 2 powi ilog2 y" by simp
    then show ?thesis using f64_binade [OF x] f64_binade [OF y] by linarith
  qed
qed

text \<open>Numbers of at most 53 bits are rounded to themselves.\<close>

lemma f64_exact:
  assumes "x = of_int m * 2 powi e" "0 \<le> m" "m \<le> 2 ^ 53"
  shows "f64 x = x"
proof (cases "m = 0")
  case True
  then show ?thesis using assms by simp
next
  case False
  then have m: "0 < m" using assms by simp
  have x: "0 < x" using m by (simp add: assms(1))
  define E where "E = ilog2 x - 52"
  have "\<exists>k. x / 2 powi E = of_int k"
  proof (cases "E \<le> e")
    case True
    have "x / 2 powi E = of_int m * 2 powi (e - E)"
      by (simp add: assms(1) power_int_diff)
    also have "\<dots> = of_int (m * 2 ^ nat (e - E))" using True by (simp add: power_int_def)
    finally show ?thesis by blast
  next
    case False
    have "(2::rat) powi (E + 52) \<le> x" using ilog2_bounds(1) [OF x] by (simp add: E_def)
    also have "x \<le> of_int (2 ^ 53) * 2 powi e"
      unfolding assms(1) using assms(3) by (intro mult_right_mono) (simp_all only: of_int_le_iff, simp)
    also have "\<dots> = 2 powi (e + 53)" by (simp add: power_int_add)
    finally have "E + 52 \<le> e + 53" by simp
    with False have E: "E = e + 1" by simp
    have "of_int (2 ^ 52) \<le> x / 2 powi E" using scaled_bounds(1) [OF x] by (simp add: E_def)
    then have "2 ^ 53 \<le> (of_int m :: rat)"
      by (simp add: assms(1) E power_int_add field_simps)
    then have "of_int (2 ^ 53) \<le> (of_int m :: rat)" by simp
    then have "2 ^ 53 \<le> m" by (simp only: of_int_le_iff)
    with assms(3) have "m = 2 ^ 53" by simp
    then have "x / 2 powi E = of_int (2 ^ 52)"
      by (simp add: assms(1) E power_int_add)
    then show ?thesis by blast
  qed
  then obtain k where k: "x / 2 powi E = of_int k" by blast
  have "f64 x = of_int (rne (x / 2 powi E)) * 2 powi E"
    using x by (simp add: f64_pos_eq E_def)
  also have "\<dots> = of_int k * 2 powi E" by (simp only: k rne_of_int)
  also have "\<dots> = x" by (simp flip: k)
  finally show ?thesis .
qed

lemma f64_of_int: "0 \<le> n \<Longrightarrow> n \<le> 2 ^ 53 \<Longrightarrow> f64 (of_int n) = of_int n"
  by (rule f64_exact [where m = n and e = 0]) auto

lemma f64_idem:
  assumes "0 \<le> x"
  shows "f64 (f64 x) = f64 x"
proof (cases "x = 0")
  case False
  then have x: "0 < x" using assms by simp
  show ?thesis
    by (rule f64_exact [OF f64_pos_eq [OF x]]) (use rne_scaled_bounds [OF x] in auto)
qed simp

lemma f64_error:
  assumes "0 \<le> x"
  shows "\<bar>f64 x - x\<bar> \<le> x / 2 ^ 53"
proof (cases "x = 0")
  case False
  then have x: "0 < x" using assms by simp
  define e where "e = ilog2 x - 52"
  have "f64 x - x = (of_int (rne (x / 2 powi e)) - x / 2 powi e) * 2 powi e"
    using x by (simp add: f64_pos_eq e_def left_diff_distrib)
  then have "\<bar>f64 x - x\<bar> = \<bar>of_int (rne (x / 2 powi e)) - x / 2 powi e\<bar> * 2 powi e"
    by (simp add: abs_mult)
  also have "\<dots> \<le> 1 / 2 * 2 powi e"
    by (intro mult_right_mono rne_error) simp
  also have "\<dots> \<le> x / 2 ^ 53"
  proof -
    have "2 ^ 52 * 2 powi e \<le> x" using scaled_bounds(1) [OF x] by (simp add: e_def le_divide_eq)
    then show ?thesis by simp
  qed
  finally show ?thesis .
qed simp

section \<open>Conversions\<close>

text \<open>
  \<open>float64(n)\<close>, \<open>math.Ceil\<close>, and \<open>int64(x)\<close>, which truncates; out of the
  range of \<open>int64\<close> the result is what amd64's conversion instruction gives.
\<close>

definition f64_of_int64 :: "int \<Rightarrow> rat" where
  "f64_of_int64 n = f64 (of_int n)"

definition f64_ceil :: "rat \<Rightarrow> rat" where
  "f64_ceil x = of_int \<lceil>x\<rceil>"

definition f64_to_int64 :: "rat \<Rightarrow> int" where
  "f64_to_int64 x =
     (let n = (if x < 0 then \<lceil>x\<rceil> else \<lfloor>x\<rfloor>) in if in_int64 n then n else - (2 ^ 63))"

lemma f64_of_int64_exact: "0 \<le> n \<Longrightarrow> n \<le> 2 ^ 53 \<Longrightarrow> f64_of_int64 n = of_int n"
  by (simp add: f64_of_int64_def f64_of_int)

lemma f64_of_int64_nonneg: "0 \<le> n \<Longrightarrow> 0 \<le> f64_of_int64 n"
  by (simp add: f64_of_int64_def f64_nonneg)

lemma f64_to_int64_floor: "0 \<le> x \<Longrightarrow> x < 2 ^ 63 \<Longrightarrow> f64_to_int64 x = \<lfloor>x\<rfloor>"
proof -
  assume a: "0 \<le> x" "x < 2 ^ 63"
  then have "\<lfloor>x\<rfloor> < 2 ^ 63" "0 \<le> \<lfloor>x\<rfloor>" by (simp_all add: floor_less_iff)
  then have "in_int64 \<lfloor>x\<rfloor>" by (simp add: in_int64_def)
  then show ?thesis using a by (simp add: f64_to_int64_def)
qed

end
