(* ===== verification/Logger.thy ===== *)
theory Logger
  imports Go_Prelude
begin

text \<open>
  The structured-log vocabulary of \<open>internal/logger/vocab.go\<close>: the closed sets of
  event and reason names, with the string each constant stands for, and the log lines the
  other components emit. A line keeps its level, its message and its attributes in the order
  the code passes them; the text of an \<open>error\<close> attribute and of a duration is not
  modelled (\<open>VErr\<close>, \<open>VDuration\<close>).
\<close>

datatype event = EventHealthEjected | EventHealthReinstated | EventCircuitOpened
  | EventCircuitClosed | EventCircuitHalfOpened | EventConfigReloaded
  | EventConfigReloadFailed | EventBackendDrained

fun event_name :: "event \<Rightarrow> string" where
  "event_name EventHealthEjected = ''health_ejected''"
| "event_name EventHealthReinstated = ''health_reinstated''"
| "event_name EventCircuitOpened = ''circuit_opened''"
| "event_name EventCircuitClosed = ''circuit_closed''"
| "event_name EventCircuitHalfOpened = ''circuit_half_opened''"
| "event_name EventConfigReloaded = ''config_reloaded''"
| "event_name EventConfigReloadFailed = ''config_reload_failed''"
| "event_name EventBackendDrained = ''backend_drained''"

datatype reason = ReasonProbeFailures | ReasonProbeRecovered | ReasonInitialProbe
  | ReasonOutlierWindow | ReasonConsecutiveFailures | ReasonTrialSuccess
  | ReasonTrialFailure | ReasonCooldownElapsed | ReasonParseError | ReasonValidationError
  | ReasonNonBackendChange | ReasonApplyError | ReasonWindowExpired | ReasonIdle
  | ReasonClientCanceled | ReasonBackendDiedMidResponse

fun reason_name :: "reason \<Rightarrow> string" where
  "reason_name ReasonProbeFailures = ''probe_failures''"
| "reason_name ReasonProbeRecovered = ''probe_recovered''"
| "reason_name ReasonInitialProbe = ''initial_probe''"
| "reason_name ReasonOutlierWindow = ''outlier_window''"
| "reason_name ReasonConsecutiveFailures = ''consecutive_failures''"
| "reason_name ReasonTrialSuccess = ''trial_success''"
| "reason_name ReasonTrialFailure = ''trial_failure''"
| "reason_name ReasonCooldownElapsed = ''cooldown_elapsed''"
| "reason_name ReasonParseError = ''parse_error''"
| "reason_name ReasonValidationError = ''validation_error''"
| "reason_name ReasonNonBackendChange = ''non_backend_change''"
| "reason_name ReasonApplyError = ''apply_error''"
| "reason_name ReasonWindowExpired = ''window_expired''"
| "reason_name ReasonIdle = ''idle''"
| "reason_name ReasonClientCanceled = ''client_canceled''"
| "reason_name ReasonBackendDiedMidResponse = ''backend_died_mid_response''"

lemma event_name_inj [simp]: "event_name a = event_name b \<longleftrightarrow> a = b"
  by (cases a; cases b) simp_all

lemma reason_name_inj [simp]: "reason_name a = reason_name b \<longleftrightarrow> a = b"
  by (cases a; cases b) simp_all

section \<open>Log lines\<close>

datatype log_level = LevelInfo | LevelWarn | LevelError

datatype log_value = VStr string | VInt int | VStrs "string list" | VErr | VDuration

record log_line =
  log_level :: log_level
  log_msg :: string
  log_attrs :: "(string \<times> log_value) list"

text \<open>A line's \<open>event\<close> and \<open>reason\<close> attribute, as a constant's string.\<close>

definition log_attr :: "string \<Rightarrow> log_line \<Rightarrow> log_value option" where
  "log_attr k l = map_of (log_attrs l) k"

definition transition_line ::
  "log_level \<Rightarrow> string \<Rightarrow> string \<Rightarrow> event \<Rightarrow> reason \<Rightarrow> log_line" where
  "transition_line lv msg b ev rs =
     \<lparr>log_level = lv, log_msg = msg,
      log_attrs = [(''backend'', VStr b), (''event'', VStr (event_name ev)),
                   (''reason'', VStr (reason_name rs))]\<rparr>"

lemma log_attr_transition_line [simp]:
  "log_attr ''backend'' (transition_line lv msg b ev rs) = Some (VStr b)"
  "log_attr ''event'' (transition_line lv msg b ev rs) = Some (VStr (event_name ev))"
  "log_attr ''reason'' (transition_line lv msg b ev rs) = Some (VStr (reason_name rs))"
  by (simp_all add: log_attr_def transition_line_def)

end
