(* ===== verification/Metrics.thy ===== *)
theory Metrics
  imports Go_Prelude
begin

text \<open>
  The metrics collector of \<open>internal/metrics/metrics.go\<close>. The Prometheus client library
  is not part of the repository, so the collector's state is the sequence of calls it has
  issued to its instruments (oldest first) and each method appends the calls its body makes.
  What those calls mean for a scrape is documented behaviour of the library, stated once as
  \<open>gauge_vec_doc\<close> about a parameter that reads a series from a call sequence.
  A gauge value is a \<open>float64\<close> in the library; the program only writes small integers,
  so values are \<^typ>\<open>int\<close>. The instruments' help texts and the histogram's bucket
  boundaries are not modelled.
\<close>

section \<open>Label vocabularies\<close>

text \<open>\<open>CircuitState\<close> is a string type; the closed set is the list \<open>circuitStates\<close>.\<close>

definition CircuitStateClosed :: string where "CircuitStateClosed = ''closed''"
definition CircuitStateOpen :: string where "CircuitStateOpen = ''open''"
definition CircuitStateHalfOpen :: string where "CircuitStateHalfOpen = ''half_open''"

definition circuitStates :: "string list" where
  "circuitStates = [CircuitStateClosed, CircuitStateOpen, CircuitStateHalfOpen]"

lemmas circuit_state_names [simp] =
  CircuitStateClosed_def CircuitStateOpen_def CircuitStateHalfOpen_def

fun valid_loop :: "string list \<Rightarrow> string \<Rightarrow> bool" where
  "valid_loop [] s = False"
| "valid_loop (known # ks) s = (if s = known then True else valid_loop ks s)"

definition circuit_state_valid :: "string \<Rightarrow> bool" where
  "circuit_state_valid s = valid_loop circuitStates s"

lemma circuit_state_valid_iff: "circuit_state_valid s \<longleftrightarrow> s \<in> set circuitStates"
  by (simp add: circuit_state_valid_def circuitStates_def)

datatype ClientProtocol = ClientProtocolHTTP11 | ClientProtocolH2 | ClientProtocolH2C

fun protocol_string :: "ClientProtocol \<Rightarrow> string" where
  "protocol_string ClientProtocolHTTP11 = ''http/1.1''"
| "protocol_string ClientProtocolH2 = ''h2''"
| "protocol_string ClientProtocolH2C = ''h2c''"

text \<open>\<open>strconv.Itoa(status/100) + "xx"\<close>; an HTTP status is never negative.\<close>

definition statusClass :: "nat \<Rightarrow> string" where
  "statusClass status = itoa (status div 100) @ ''xx''"

lemma statusClass_simps [simp]:
  "statusClass 200 = ''2xx''" "statusClass 503 = ''5xx''" "statusClass 502 = ''5xx''"
  "statusClass 499 = ''4xx''"
  by code_simp+

section \<open>The collector\<close>

datatype metric = lb_requests_total | lb_request_duration_seconds | lb_backend_healthy
  | lb_circuit_state | lb_active_requests | lb_health_probe_total | lb_algorithm_info

datatype prom_call =
    GaugeSet metric "string list" int
  | GaugeInc metric "string list"
  | GaugeDec metric "string list"
  | DeleteSeries metric "string list"
  | CounterInc metric "string list"
  | HistObserve metric "string list" duration

type_synonym collector = "prom_call list"

definition NewCollector :: collector where
  "NewCollector = []"

definition ObserveRequest ::
  "string \<Rightarrow> string \<Rightarrow> string \<Rightarrow> ClientProtocol \<Rightarrow> duration \<Rightarrow> collector \<Rightarrow> collector" where
  "ObserveRequest backend method status protocol d c =
     c @ [CounterInc lb_requests_total [backend, method, status, protocol_string protocol],
          HistObserve lb_request_duration_seconds [backend, method, status] d]"

definition SetBackendHealthy :: "string \<Rightarrow> bool \<Rightarrow> collector \<Rightarrow> collector" where
  "SetBackendHealthy backend ok c =
     c @ [GaugeSet lb_backend_healthy [backend] (if ok then 1 else 0)]"

definition DeleteBackendHealthy :: "string \<Rightarrow> collector \<Rightarrow> collector" where
  "DeleteBackendHealthy backend c = c @ [DeleteSeries lb_backend_healthy [backend]]"

definition DeleteCircuitState :: "string \<Rightarrow> collector \<Rightarrow> collector" where
  "DeleteCircuitState backend c =
     c @ map (\<lambda>s. DeleteSeries lb_circuit_state [backend, s]) circuitStates"

definition SetCircuitState :: "string \<Rightarrow> string \<Rightarrow> collector \<Rightarrow> collector" where
  "SetCircuitState backend state c =
     (if \<not> circuit_state_valid state then c
      else c @ map (\<lambda>s. GaugeSet lb_circuit_state [backend, s] (if s = state then 1 else 0))
                 circuitStates)"

definition IncActiveRequests :: "string \<Rightarrow> collector \<Rightarrow> collector" where
  "IncActiveRequests backend c = c @ [GaugeInc lb_active_requests [backend]]"

definition DecActiveRequests :: "string \<Rightarrow> collector \<Rightarrow> collector" where
  "DecActiveRequests backend c = c @ [GaugeDec lb_active_requests [backend]]"

definition SetActiveRequests :: "string \<Rightarrow> int \<Rightarrow> collector \<Rightarrow> collector" where
  "SetActiveRequests backend n c = c @ [GaugeSet lb_active_requests [backend] n]"

definition DeleteActiveRequests :: "string \<Rightarrow> collector \<Rightarrow> collector" where
  "DeleteActiveRequests backend c = c @ [DeleteSeries lb_active_requests [backend]]"

definition RecordProbe :: "string \<Rightarrow> nat \<Rightarrow> collector \<Rightarrow> collector" where
  "RecordProbe endpoint statusCode c =
     c @ [CounterInc lb_health_probe_total [endpoint, statusClass statusCode]]"

definition SetAlgorithm :: "string \<Rightarrow> string \<Rightarrow> collector \<Rightarrow> collector" where
  "SetAlgorithm previous current c =
     (let c1 = c @ [GaugeSet lb_algorithm_info [current] 1]
      in if previous \<noteq> '''' \<and> previous \<noteq> current
         then c1 @ [DeleteSeries lb_algorithm_info [previous]] else c1)"

lemmas collector_defs =
  ObserveRequest_def SetBackendHealthy_def DeleteBackendHealthy_def DeleteCircuitState_def
  SetCircuitState_def IncActiveRequests_def DecActiveRequests_def SetActiveRequests_def
  DeleteActiveRequests_def RecordProbe_def SetAlgorithm_def

section \<open>Reading a series back\<close>

text \<open>
  The documented behaviour of a Prometheus vector of gauges, about a function that reads the
  value of one series after a sequence of calls: a series does not exist until it is first
  written; \<open>Set\<close>, \<open>Inc\<close> and \<open>Dec\<close> on a label set create it at 0 and write it;
  \<open>DeleteLabelValues\<close> removes it; no call touches another series.
\<close>

type_synonym series_reader = "collector \<Rightarrow> metric \<Rightarrow> string list \<Rightarrow> int option"

fun gauge_effect :: "prom_call \<Rightarrow> metric \<Rightarrow> string list \<Rightarrow> int option \<Rightarrow> int option" where
  "gauge_effect (GaugeSet m l v) m' l' old = (if m = m' \<and> l = l' then Some v else old)"
| "gauge_effect (GaugeInc m l) m' l' old =
     (if m = m' \<and> l = l' then Some (case old of None \<Rightarrow> 1 | Some v \<Rightarrow> v + 1) else old)"
| "gauge_effect (GaugeDec m l) m' l' old =
     (if m = m' \<and> l = l' then Some (case old of None \<Rightarrow> - 1 | Some v \<Rightarrow> v - 1) else old)"
| "gauge_effect (DeleteSeries m l) m' l' old = (if m = m' \<and> l = l' then None else old)"
| "gauge_effect (CounterInc m l) m' l' old = old"
| "gauge_effect (HistObserve m l d) m' l' old = old"

definition gauge_vec_doc :: "series_reader \<Rightarrow> bool" where
  "gauge_vec_doc rd \<longleftrightarrow>
     (\<forall>m l. rd [] m l = None) \<and>
     (\<forall>cs c m l. rd (cs @ [c]) m l = gauge_effect c m l (rd cs m l))"

lemma gauge_vec_docD:
  "gauge_vec_doc rd \<Longrightarrow> rd (cs @ [c]) m l = gauge_effect c m l (rd cs m l)"
  by (simp add: gauge_vec_doc_def)

lemma gauge_vec_doc_append:
  "gauge_vec_doc rd \<Longrightarrow> rd (cs @ ds) m l = fold (\<lambda>c. gauge_effect c m l) ds (rd cs m l)"
proof (induction ds rule: rev_induct)
  case (snoc d ds)
  then show ?case using gauge_vec_docD [of rd "cs @ ds" d] by simp
qed simp

text \<open>A reader with that behaviour, used to show that the hypothesis can hold.\<close>

definition gauge_read :: series_reader where
  "gauge_read cs m l = fold (\<lambda>c. gauge_effect c m l) cs None"

lemma gauge_vec_doc_gauge_read: "gauge_vec_doc gauge_read"
  by (simp add: gauge_vec_doc_def gauge_read_def)

section \<open>What the methods promise\<close>

lemma fold_set_series:
  "fold (\<lambda>c. gauge_effect c m l) (map (\<lambda>s. GaugeSet mt [b, s] (f s)) ss) old =
     (if m = mt \<and> (\<exists>s \<in> set ss. l = [b, s]) then Some (f (l ! 1)) else old)"
  by (induction ss arbitrary: old) auto

lemma fold_delete_series:
  "fold (\<lambda>c. gauge_effect c m l) (map (\<lambda>s. DeleteSeries mt [b, s]) ss) old =
     (if m = mt \<and> (\<exists>s \<in> set ss. l = [b, s]) then None else old)"
  by (induction ss arbitrary: old) auto

lemma SetCircuitState_read:
  assumes "gauge_vec_doc rd" and "circuit_state_valid state"
  shows "rd (SetCircuitState b state c) m l =
    (if m = lb_circuit_state \<and> (\<exists>s \<in> set circuitStates. l = [b, s])
     then Some (if l ! 1 = state then 1 else 0) else rd c m l)"
  using assms(2)
  by (simp only: SetCircuitState_def gauge_vec_doc_append [OF assms(1)] fold_set_series
      not_not if_False simp_thms)

lemma DeleteCircuitState_read:
  assumes "gauge_vec_doc rd"
  shows "rd (DeleteCircuitState b c) m l =
    (if m = lb_circuit_state \<and> (\<exists>s \<in> set circuitStates. l = [b, s])
     then None else rd c m l)"
  by (simp only: DeleteCircuitState_def gauge_vec_doc_append [OF assms] fold_delete_series)

text \<open>
  \<open>SetCircuitState\<close> keeps the gauge a label enum: after a call with a known state,
  a scrape sees that state's series of the backend at 1 and the other two at 0, whatever
  was written before, and no series of another metric or another backend changes.
\<close>

theorem SetCircuitState_enum:
  assumes "gauge_vec_doc rd" and "circuit_state_valid state"
  shows "(\<forall>s \<in> set circuitStates.
            rd (SetCircuitState b state c) lb_circuit_state [b, s] =
              Some (if s = state then 1 else 0))
       \<and> (\<forall>m l. (m \<noteq> lb_circuit_state \<or> (\<nexists>s. l = [b, s])) \<longrightarrow>
            rd (SetCircuitState b state c) m l = rd c m l)"
  by (auto simp: SetCircuitState_read [OF assms])

theorem SetCircuitState_enum_witness:
  "gauge_read (SetCircuitState ''a'' ''open'' []) lb_circuit_state [''a'', ''open''] = Some 1"
proof -
  have v: "circuit_state_valid ''open''" by (simp add: circuit_state_valid_iff circuitStates_def)
  show ?thesis
    using SetCircuitState_enum [OF gauge_vec_doc_gauge_read v, of "''a''" "[]"]
    by (simp add: circuitStates_def)
qed

text \<open>An unknown state is ignored.\<close>

lemma SetCircuitState_unknown: "\<not> circuit_state_valid s \<Longrightarrow> SetCircuitState b s c = c"
  by (simp add: SetCircuitState_def)

lemma SetAlgorithm_reads:
  assumes "gauge_vec_doc rd"
  shows "rd (SetAlgorithm prev cur c) lb_algorithm_info [cur] = Some 1"
    and "prev \<noteq> '''' \<Longrightarrow> prev \<noteq> cur \<Longrightarrow> rd (SetAlgorithm prev cur c) lb_algorithm_info [prev] = None"
  by (simp_all add: SetAlgorithm_def Let_def gauge_vec_doc_append [OF assms])

lemma active_gauge_inc_dec:
  assumes "gauge_vec_doc rd" and "rd c lb_active_requests [b] = Some n"
  shows "rd (IncActiveRequests b c) lb_active_requests [b] = Some (n + 1)"
    and "rd (DecActiveRequests b c) lb_active_requests [b] = Some (n - 1)"
  using assms(2)
  by (simp_all add: IncActiveRequests_def DecActiveRequests_def gauge_vec_docD [OF assms(1)])

end
