(* ===== verification/Config_Load.thy ===== *)
theory Config_Load
  imports Go_Prelude
begin

text \<open>
  The configuration of \<open>internal/config/config.go\<close>: its data, \<open>Load\<close>, \<open>Parse\<close>
  and the environment expansion of backend URLs. The YAML decoder is third-party code and the
  file system and the environment are outside the program, so they are parameters
  (\<open>yaml_decode\<close>, \<open>open_file\<close>, \<open>env\<close>). A pointer field whose \<open>nil\<close>
  means ``omitted'' is an \<^typ>\<open>'a option\<close>.
\<close>

section \<open>Identifiers and defaults\<close>

definition AlgorithmRoundRobin :: string where "AlgorithmRoundRobin = ''round_robin''"
definition AlgorithmLeastConn :: string where "AlgorithmLeastConn = ''least_conn''"
definition AlgorithmConsistentHash :: string where "AlgorithmConsistentHash = ''consistent_hash''"
definition AlgorithmP2CEWMA :: string where "AlgorithmP2CEWMA = ''p2c_ewma''"

lemmas algorithm_names =
  AlgorithmRoundRobin_def AlgorithmLeastConn_def AlgorithmConsistentHash_def AlgorithmP2CEWMA_def

definition implementedAlgorithms :: "string list" where
  "implementedAlgorithms =
     [AlgorithmRoundRobin, AlgorithmLeastConn, AlgorithmConsistentHash, AlgorithmP2CEWMA]"

definition DefaultProbeInterval :: duration where "DefaultProbeInterval = 5 * second"
definition DefaultProbeTimeout :: duration where "DefaultProbeTimeout = 2 * second"
definition DefaultCircuitCooldown :: duration where "DefaultCircuitCooldown = 30 * second"
definition DefaultMetricsListen :: string where "DefaultMetricsListen = '':9090''"
definition DefaultHealthEndpointListen :: string where "DefaultHealthEndpointListen = '':8081''"
definition DefaultDrainWindow :: duration where "DefaultDrainWindow = 30 * second"
definition DefaultReadTimeout :: duration where "DefaultReadTimeout = 60 * second"
definition DefaultIdleTimeout :: duration where "DefaultIdleTimeout = 90 * second"
definition DefaultDialTimeout :: duration where "DefaultDialTimeout = 5 * second"
definition DefaultResponseHeaderTimeout :: duration where
  "DefaultResponseHeaderTimeout = 30 * second"
definition DefaultMaxIdleConnsPerHost :: int where "DefaultMaxIdleConnsPerHost = 100"
definition DefaultIdleConnTimeout :: duration where "DefaultIdleConnTimeout = 90 * second"
definition DefaultForceHTTP2 :: bool where "DefaultForceHTTP2 = True"

lemmas default_defs =
  DefaultProbeInterval_def DefaultProbeTimeout_def DefaultCircuitCooldown_def
  DefaultMetricsListen_def DefaultHealthEndpointListen_def DefaultDrainWindow_def
  DefaultReadTimeout_def DefaultIdleTimeout_def DefaultDialTimeout_def
  DefaultResponseHeaderTimeout_def DefaultMaxIdleConnsPerHost_def DefaultIdleConnTimeout_def
  DefaultForceHTTP2_def

section \<open>The configuration\<close>

record TLSConfig =
  CertFile :: string
  KeyFile :: string

record HealthConfig =
  ProbeInterval :: "duration option"
  ProbeTimeout :: "duration option"

record CircuitConfig =
  Cooldown :: "duration option"

record MetricsConfig =
  MetricsListen :: "string option"

record HealthEndpointConfig =
  EndpointListen :: "string option"

record ServerConfig =
  ReadTimeout :: "duration option"
  IdleTimeout :: "duration option"

record TransportConfig =
  ForceHTTP2 :: "bool option"
  TLSSkipVerify :: bool
  DialTimeout :: "duration option"
  ResponseHeaderTimeout :: "duration option"
  MaxIdleConnsPerHost :: "int option"
  IdleConnTimeout :: "duration option"

record ReloadConfig =
  DrainWindow :: "duration option"

record BackendConfig =
  CfgName :: string
  CfgURL :: string

record Config =
  Listen :: string
  TLS :: "TLSConfig option"
  H2C :: bool
  Algorithm :: string
  Health :: HealthConfig
  Circuit :: CircuitConfig
  Metrics :: MetricsConfig
  HealthEndpoint :: HealthEndpointConfig
  Reload :: ReloadConfig
  Server :: ServerConfig
  Transport :: TransportConfig
  Backends :: "BackendConfig list"

section \<open>Environment references in backend URLs\<close>

datatype expand_error =
    UnterminatedRef string
  | MalformedRef string string
  | UnsetVariable string string

text \<open>\<open>^[A-Za-z_][A-Za-z0-9_]*$\<close>\<close>

definition envVarName :: "string \<Rightarrow> bool" where
  "envVarName s \<longleftrightarrow>
     (case s of [] \<Rightarrow> False
      | c # cs \<Rightarrow> (is_alpha c \<or> c = CHR ''_'') \<and>
                  list_all (\<lambda>d. is_alpha d \<or> is_digit d \<or> d = CHR ''_'') cs)"

text \<open>
  The byte loop of \<open>expandEnv\<close> on what is left of the input; \<open>out\<close> is the string
  builder's content.
\<close>

function expandEnv_loop ::
  "(string \<Rightarrow> string option) \<Rightarrow> string \<Rightarrow> string \<Rightarrow> string \<Rightarrow> expand_error + string" where
  "expandEnv_loop env nm [] out = Inr out"
| "expandEnv_loop env nm (c # cs) out =
     (if c = CHR ''$'' \<and> cs \<noteq> [] \<and> hd cs = CHR ''{'' then
        (let rest = tl cs in
         case index_byte rest (CHR ''}'') of
           None \<Rightarrow> Inl (UnterminatedRef nm)
         | Some e \<Rightarrow>
             (let v = take e rest in
              if \<not> envVarName v then Inl (MalformedRef nm v)
              else (case env v of
                      None \<Rightarrow> Inl (UnsetVariable nm v)
                    | Some value \<Rightarrow>
                        if value = '''' then Inl (UnsetVariable nm v)
                        else expandEnv_loop env nm (drop (e + 1) rest) (out @ value))))
      else expandEnv_loop env nm cs (out @ [c]))"
  by pat_completeness auto
termination
  by (relation "measure (\<lambda>(env, nm, s, out). length s)") auto

definition expandEnv ::
  "(string \<Rightarrow> string option) \<Rightarrow> string \<Rightarrow> string \<Rightarrow> expand_error + string" where
  "expandEnv env backendName raw =
     (if \<not> str_contains raw ''${'' then Inr raw else expandEnv_loop env backendName raw '''')"

fun expandBackends ::
  "(string \<Rightarrow> string option) \<Rightarrow> BackendConfig list \<Rightarrow> expand_error + BackendConfig list" where
  "expandBackends env [] = Inr []"
| "expandBackends env (b # bs) =
     (case expandEnv env (CfgName b) (CfgURL b) of
        Inl e \<Rightarrow> Inl e
      | Inr expanded \<Rightarrow>
          (case expandBackends env bs of
             Inl e \<Rightarrow> Inl e
           | Inr bs' \<Rightarrow> Inr (b\<lparr>CfgURL := expanded\<rparr> # bs')))"

definition expandBackendURLs :: "(string \<Rightarrow> string option) \<Rightarrow> Config \<Rightarrow> expand_error + Config" where
  "expandBackendURLs env cfg =
     (case expandBackends env (Backends cfg) of
        Inl e \<Rightarrow> Inl e
      | Inr bs \<Rightarrow> Inr (cfg\<lparr>Backends := bs\<rparr>))"

section \<open>\<open>Load\<close> and \<open>Parse\<close>\<close>

datatype 'y load_error =
    OpenFailed string
  | LoadYAML string 'y
  | LoadExpand string expand_error
  | ParseYAML string 'y
  | ParseExpand string expand_error

text \<open>\<open>decode\<close>: strict YAML decoding, then the expansion; the two kinds of failure.\<close>

definition decode ::
  "('r \<Rightarrow> 'y + Config) \<Rightarrow> (string \<Rightarrow> string option) \<Rightarrow> 'r \<Rightarrow> ('y + expand_error) + Config" where
  "decode yaml_decode env r =
     (case yaml_decode r of
        Inl e \<Rightarrow> Inl (Inl e)
      | Inr cfg \<Rightarrow>
          (case expandBackendURLs env cfg of
             Inl e \<Rightarrow> Inl (Inr e)
           | Inr cfg' \<Rightarrow> Inr cfg'))"

definition Load ::
  "('r \<Rightarrow> 'y + Config) \<Rightarrow> (string \<Rightarrow> string option) \<Rightarrow> (string \<Rightarrow> 'r option) \<Rightarrow> string
     \<Rightarrow> 'y load_error + Config" where
  "Load yaml_decode env open_file path =
     (case open_file path of
        None \<Rightarrow> Inl (OpenFailed path)
      | Some f \<Rightarrow>
          (case decode yaml_decode env f of
             Inl (Inl e) \<Rightarrow> Inl (LoadYAML path e)
           | Inl (Inr e) \<Rightarrow> Inl (LoadExpand path e)
           | Inr cfg \<Rightarrow> Inr cfg))"

definition Parse ::
  "('r \<Rightarrow> 'y + Config) \<Rightarrow> (string \<Rightarrow> string option) \<Rightarrow> 'r \<Rightarrow> string
     \<Rightarrow> 'y load_error + Config" where
  "Parse yaml_decode env r source =
     (case decode yaml_decode env r of
        Inl (Inl e) \<Rightarrow> Inl (ParseYAML source e)
      | Inl (Inr e) \<Rightarrow> Inl (ParseExpand source e)
      | Inr cfg \<Rightarrow> Inr cfg)"

section \<open>The expansion against a specification\<close>

text \<open>
  A URL with references is a sequence of literal bytes and references; \<open>render\<close> is its
  text in the file and \<open>subst_refs\<close> what the expansion is meant to make of it.
\<close>

datatype url_part = Lit string | Ref string

fun render :: "url_part list \<Rightarrow> string" where
  "render [] = ''''"
| "render (Lit s # ps) = s @ render ps"
| "render (Ref v # ps) = ''${'' @ v @ ''}'' @ render ps"

fun subst_refs :: "(string \<Rightarrow> string option) \<Rightarrow> url_part list \<Rightarrow> string" where
  "subst_refs env [] = ''''"
| "subst_refs env (Lit s # ps) = s @ subst_refs env ps"
| "subst_refs env (Ref v # ps) = the (env v) @ subst_refs env ps"

fun part_ok :: "(string \<Rightarrow> string option) \<Rightarrow> url_part \<Rightarrow> bool" where
  "part_ok env (Lit s) \<longleftrightarrow> \<not> str_contains s ''${'' \<and> (s = [] \<or> last s \<noteq> CHR ''$'')"
| "part_ok env (Ref v) \<longleftrightarrow> envVarName v \<and> (case env v of None \<Rightarrow> False | Some x \<Rightarrow> x \<noteq> '''')"

lemma envVarName_no_brace: "envVarName v \<Longrightarrow> CHR ''}'' \<notin> set v"
proof -
  assume a: "envVarName v"
  have b: "\<not> is_alpha (CHR ''}'')" "\<not> is_digit (CHR ''}'')"
    by code_simp+
  show ?thesis using a b by (cases v) (auto simp: envVarName_def list_all_iff)
qed

lemma expandEnv_loop_literal:
  assumes "\<not> str_contains s ''${''" and "s = [] \<or> last s \<noteq> CHR ''$''"
  shows "expandEnv_loop env nm (s @ t) out = expandEnv_loop env nm t (out @ s)"
  using assms
proof (induction s arbitrary: out)
  case (Cons c s)
  have "\<not> (c = CHR ''$'' \<and> s @ t \<noteq> [] \<and> hd (s @ t) = CHR ''{'')"
  proof
    assume a: "c = CHR ''$'' \<and> s @ t \<noteq> [] \<and> hd (s @ t) = CHR ''{''"
    with Cons.prems(2) have "s \<noteq> []" by auto
    with a obtain s' where "s = CHR ''{'' # s'" by (cases s) auto
    with a Cons.prems(1) show False by (simp add: has_prefix_def)
  qed
  then have "expandEnv_loop env nm ((c # s) @ t) out = expandEnv_loop env nm (s @ t) (out @ [c])"
    by (simp only: append_Cons expandEnv_loop.simps(2) if_False)
  moreover have "expandEnv_loop env nm (s @ t) (out @ [c]) = expandEnv_loop env nm t ((out @ [c]) @ s)"
    using Cons.prems by (intro Cons.IH) auto
  ultimately show ?case by simp
qed simp

lemma expandEnv_loop_ref:
  assumes "envVarName v" and "env v = Some x" and "x \<noteq> ''''"
  shows "expandEnv_loop env nm (''${'' @ v @ ''}'' @ t) out = expandEnv_loop env nm t (out @ x)"
proof -
  have "index_byte (v @ CHR ''}'' # t) (CHR ''}'') = Some (length v)"
    by (rule index_byte_append [OF envVarName_no_brace [OF assms(1)]])
  then show ?thesis using assms by (simp add: Let_def)
qed

lemma expandEnv_loop_render:
  assumes "\<forall>p \<in> set ps. part_ok env p"
  shows "expandEnv_loop env nm (render ps) out = Inr (out @ subst_refs env ps)"
  using assms
proof (induction ps arbitrary: out)
  case Nil
  show ?case by simp
next
  case (Cons p ps)
  then have IH: "\<And>out. expandEnv_loop env nm (render ps) out = Inr (out @ subst_refs env ps)"
    by simp
  show ?case
  proof (cases p)
    case (Lit s)
    with Cons.prems IH show ?thesis by (simp add: expandEnv_loop_literal)
  next
    case (Ref v)
    with Cons.prems obtain x where x: "envVarName v" "env v = Some x" "x \<noteq> ''''"
      by (auto split: option.splits)
    have "render (p # ps) = ''${'' @ v @ ''}'' @ render ps" by (simp add: Ref)
    then have "expandEnv_loop env nm (render (p # ps)) out = expandEnv_loop env nm (render ps) (out @ x)"
      by (simp only: expandEnv_loop_ref [of v env x, OF x])
    with IH Ref x show ?thesis by simp
  qed
qed

lemma render_no_ref:
  assumes "\<forall>p \<in> set ps. part_ok env p" and "\<not> str_contains (render ps) ''${''"
  shows "render ps = subst_refs env ps"
  using assms
proof (induction ps)
  case (Cons p ps)
  have ps: "\<not> str_contains (render ps) ''${''"
  proof
    assume "str_contains (render ps) ''${''"
    then obtain a b where "render ps = a @ ''${'' @ b" by (auto simp: str_contains_iff)
    then have "\<exists>a' b'. render (p # ps) = a' @ ''${'' @ b'"
      by (cases p) (metis append.assoc render.simps(2), metis append.assoc render.simps(3))
    with Cons.prems(2) show False by (simp add: str_contains_iff)
  qed
  have "\<exists>s. p = Lit s"
  proof (cases p)
    case (Ref v)
    then have "render (p # ps) = [] @ ''${'' @ (v @ ''}'' @ render ps)" by simp
    with Cons.prems(2) show ?thesis by (metis str_contains_iff)
  qed simp
  with Cons ps show ?case by auto
qed simp



text \<open>
  The expansion never reports an expanded value: an error names the backend and the
  reference's own text only, which is a piece of the input.
\<close>

fun expand_error_text :: "expand_error \<Rightarrow> string" where
  "expand_error_text (UnterminatedRef nm) = ''''"
| "expand_error_text (MalformedRef nm v) = v"
| "expand_error_text (UnsetVariable nm v) = v"

lemma expandEnv_loop_error:
  "expandEnv_loop env nm s out = Inl e \<Longrightarrow>
     (\<exists>a b. s = a @ expand_error_text e @ b) \<and>
     e \<in> {UnterminatedRef nm} \<union> range (MalformedRef nm) \<union> range (UnsetVariable nm)"
proof (induction env nm s out rule: expandEnv_loop.induct)
  case (1 env nm out)
  then show ?case by simp
next
  case (2 env nm c cs out)
  show ?case
  proof (cases "c = CHR ''$'' \<and> cs \<noteq> [] \<and> hd cs = CHR ''{''")
    case False
    then have "expandEnv_loop env nm cs (out @ [c]) = Inl e" using "2.prems" by auto
    with "2.IH"(2) False show ?thesis by (metis append_Cons)
  next
    case True
    then obtain rest where cs: "cs = CHR ''{'' # rest" by (cases cs) auto
    show ?thesis
    proof (cases "index_byte rest (CHR ''}'')")
      case None
      with True cs "2.prems" have "e = UnterminatedRef nm" by (simp add: Let_def)
      then show ?thesis by auto
    next
      case (Some k)
      have split: "c # cs = [c, CHR ''{''] @ take k rest @ drop k rest" by (simp add: cs)
      show ?thesis
      proof (cases "e = MalformedRef nm (take k rest) \<or> e = UnsetVariable nm (take k rest)")
        case err: True
        with split show ?thesis
          by (metis (no_types, lifting) Un_iff expand_error_text.simps(2,3) rangeI)
      next
        case False
        with True cs Some "2.prems" obtain val where
          v: "envVarName (take k rest)" "env (take k rest) = Some val" "val \<noteq> ''''"
            "expandEnv_loop env nm (drop (k + 1) rest) (out @ val) = Inl e"
          by (auto simp: Let_def split: if_splits option.splits)
        have "(\<exists>a b. drop (k + 1) rest = a @ expand_error_text e @ b) \<and>
            e \<in> {UnterminatedRef nm} \<union> range (MalformedRef nm) \<union> range (UnsetVariable nm)"
          using "2.IH"(1) [of "tl cs" k "take k rest" val] True Some v by (simp add: cs)
        moreover have "c # cs = ([c, CHR ''{''] @ take (k + 1) rest) @ drop (k + 1) rest"
          by (simp add: cs)
        ultimately show ?thesis by (metis append.assoc)
      qed
    qed
  qed
qed

end
