(* ===== verification/Config_Validate.thy ===== *)
theory Config_Validate
  imports Config_Load
begin

text \<open>
  \<open>Config.Validate\<close> of \<open>internal/config/config.go\<close>. The method mutates its receiver
  (it writes the defaults) and returns an error, so it is a function from a configuration to
  an optional error and the configuration it leaves behind, also when it fails half-way.
  \<open>url.Parse\<close> is a parameter \<open>parse\<close>: what it accepts differs between releases of the
  standard library, and the code only asks for an error and four fields of the result.
\<close>

record url =
  Scheme :: string
  Host :: string
  RawQuery :: string
  Fragment :: string

datatype config_error =
    ListenEmpty
  | InvalidHostPort string string addr_error
  | InvalidPort string string num_error
  | H2CAndTLS
  | TLSCertFileEmpty
  | TLSKeyFileEmpty
  | NoBackends
  | BackendNameEmpty
  | BackendNameInvalid string
  | URLScheme string
  | URLInvalid string
  | URLNoHost string
  | URLQuery string
  | URLFragment string
  | DuplicateName string
  | UnsupportedAlgorithm string
  | FieldEmpty string
  | NotPositive string int

section \<open>The single checks\<close>

definition validateHostPort :: "string \<Rightarrow> string \<Rightarrow> config_error option" where
  "validateHostPort field addr =
     (case split_host_port addr of
        Inl e \<Rightarrow> Some (InvalidHostPort field addr e)
      | Inr (_, port) \<Rightarrow>
          (case parse_uint16 port of
             Inl e \<Rightarrow> Some (InvalidPort field addr e)
           | Inr _ \<Rightarrow> None))"

definition validateListen :: "string \<Rightarrow> config_error option" where
  "validateListen listen = validateHostPort ''listen'' listen"

definition backendNameChar :: "char \<Rightarrow> bool" where
  "backendNameChar c \<longleftrightarrow> is_alpha c \<or> is_digit c \<or> c = CHR ''_'' \<or> c = CHR ''-''"

definition backendNamePattern :: "string \<Rightarrow> bool" where
  "backendNamePattern s \<longleftrightarrow> s \<noteq> [] \<and> list_all backendNameChar s"

definition validateBackendName :: "string \<Rightarrow> config_error option" where
  "validateBackendName name =
     (if name = '''' then Some BackendNameEmpty
      else if \<not> backendNamePattern name then Some (BackendNameInvalid name)
      else None)"

definition validateBackendURL ::
  "(string \<Rightarrow> url option) \<Rightarrow> string \<Rightarrow> string \<Rightarrow> config_error option" where
  "validateBackendURL parse name raw =
     (if \<not> has_prefix raw ''http://'' \<and> \<not> has_prefix raw ''https://'' then Some (URLScheme name)
      else case parse raw of
        None \<Rightarrow> Some (URLInvalid name)
      | Some u \<Rightarrow>
          if Host u = '''' then Some (URLNoHost name)
          else if RawQuery u \<noteq> '''' then Some (URLQuery name)
          else if Fragment u \<noteq> '''' then Some (URLFragment name)
          else None)"

definition normalizeListen ::
  "string \<Rightarrow> string option \<Rightarrow> string \<Rightarrow> config_error option \<times> string option" where
  "normalizeListen field val def =
     (case val of
        None \<Rightarrow> (None, Some def)
      | Some v \<Rightarrow> if v = '''' then (Some (FieldEmpty field), val)
                  else (validateHostPort field v, val))"

definition normalizeDuration ::
  "string \<Rightarrow> duration option \<Rightarrow> duration \<Rightarrow> config_error option \<times> duration option" where
  "normalizeDuration field val def =
     (case val of
        None \<Rightarrow> (None, Some def)
      | Some v \<Rightarrow> if v \<le> 0 then (Some (NotPositive field v), val) else (None, val))"

definition normalizePositiveInt ::
  "string \<Rightarrow> int option \<Rightarrow> int \<Rightarrow> config_error option \<times> int option" where
  "normalizePositiveInt field val def =
     (case val of
        None \<Rightarrow> (None, Some def)
      | Some v \<Rightarrow> if v \<le> 0 then (Some (NotPositive field v), val) else (None, val))"

section \<open>The two loops over the backends\<close>

fun validateBackends ::
  "(string \<Rightarrow> url option) \<Rightarrow> BackendConfig list \<Rightarrow> config_error option" where
  "validateBackends parse [] = None"
| "validateBackends parse (b # bs) =
     (case validateBackendName (CfgName b) of
        Some e \<Rightarrow> Some e
      | None \<Rightarrow>
          (case validateBackendURL parse (CfgName b) (CfgURL b) of
             Some e \<Rightarrow> Some e
           | None \<Rightarrow> validateBackends parse bs))"

fun duplicateName :: "string set \<Rightarrow> BackendConfig list \<Rightarrow> config_error option" where
  "duplicateName seen [] = None"
| "duplicateName seen (b # bs) =
     (if CfgName b \<in> seen then Some (DuplicateName (CfgName b))
      else duplicateName (insert (CfgName b) seen) bs)"

section \<open>\<open>Validate\<close>\<close>

text \<open>
  A step checks or writes the configuration; the steps run in order until one returns an
  error. \<open>check\<close> is a step that only looks, \<open>on_field\<close> one that passes a pointer to
  one field to a \<open>normalize\<close> function.
\<close>

type_synonym step = "Config \<Rightarrow> config_error option \<times> Config"

fun run_steps :: "step list \<Rightarrow> step" where
  "run_steps [] c = (None, c)"
| "run_steps (f # fs) c =
     (case f c of (Some e, c') \<Rightarrow> (Some e, c') | (None, c') \<Rightarrow> run_steps fs c')"

definition check :: "(Config \<Rightarrow> config_error option) \<Rightarrow> step" where
  "check f c = (f c, c)"

definition on_field ::
  "(Config \<Rightarrow> 'a) \<Rightarrow> ('a \<Rightarrow> Config \<Rightarrow> Config) \<Rightarrow> ('a \<Rightarrow> config_error option \<times> 'a) \<Rightarrow> step" where
  "on_field get put f c = (let (e, v) = f (get c) in (e, put v c))"

definition validate_tls :: "Config \<Rightarrow> config_error option" where
  "validate_tls c =
     (case TLS c of
        None \<Rightarrow> None
      | Some t \<Rightarrow>
          if H2C c then Some H2CAndTLS
          else if CertFile t = '''' then Some TLSCertFileEmpty
          else if KeyFile t = '''' then Some TLSKeyFileEmpty
          else None)"

definition normalizeAndValidateDefaults :: step where
  "normalizeAndValidateDefaults = run_steps
    [on_field (\<lambda>c. ForceHTTP2 (Transport c))
       (\<lambda>v c. c\<lparr>Transport := (Transport c)\<lparr>ForceHTTP2 := v\<rparr>\<rparr>)
       (\<lambda>v. (None, case v of None \<Rightarrow> Some DefaultForceHTTP2 | Some b \<Rightarrow> Some b)),
     on_field (\<lambda>c. ProbeInterval (Health c))
       (\<lambda>v c. c\<lparr>Health := (Health c)\<lparr>ProbeInterval := v\<rparr>\<rparr>)
       (\<lambda>v. normalizeDuration ''health probe_interval'' v DefaultProbeInterval),
     on_field (\<lambda>c. ProbeTimeout (Health c))
       (\<lambda>v c. c\<lparr>Health := (Health c)\<lparr>ProbeTimeout := v\<rparr>\<rparr>)
       (\<lambda>v. normalizeDuration ''health probe_timeout'' v DefaultProbeTimeout),
     on_field (\<lambda>c. Cooldown (Circuit c))
       (\<lambda>v c. c\<lparr>Circuit := (Circuit c)\<lparr>Cooldown := v\<rparr>\<rparr>)
       (\<lambda>v. normalizeDuration ''circuit cooldown'' v DefaultCircuitCooldown),
     on_field (\<lambda>c. DrainWindow (Reload c))
       (\<lambda>v c. c\<lparr>Reload := (Reload c)\<lparr>DrainWindow := v\<rparr>\<rparr>)
       (\<lambda>v. normalizeDuration ''reload drain_window'' v DefaultDrainWindow),
     on_field (\<lambda>c. ReadTimeout (Server c))
       (\<lambda>v c. c\<lparr>Server := (Server c)\<lparr>ReadTimeout := v\<rparr>\<rparr>)
       (\<lambda>v. normalizeDuration ''server read_timeout'' v DefaultReadTimeout),
     on_field (\<lambda>c. IdleTimeout (Server c))
       (\<lambda>v c. c\<lparr>Server := (Server c)\<lparr>IdleTimeout := v\<rparr>\<rparr>)
       (\<lambda>v. normalizeDuration ''server idle_timeout'' v DefaultIdleTimeout),
     on_field (\<lambda>c. DialTimeout (Transport c))
       (\<lambda>v c. c\<lparr>Transport := (Transport c)\<lparr>DialTimeout := v\<rparr>\<rparr>)
       (\<lambda>v. normalizeDuration ''transport dial_timeout'' v DefaultDialTimeout),
     on_field (\<lambda>c. ResponseHeaderTimeout (Transport c))
       (\<lambda>v c. c\<lparr>Transport := (Transport c)\<lparr>ResponseHeaderTimeout := v\<rparr>\<rparr>)
       (\<lambda>v. normalizeDuration ''transport response_header_timeout'' v
              DefaultResponseHeaderTimeout),
     on_field (\<lambda>c. IdleConnTimeout (Transport c))
       (\<lambda>v c. c\<lparr>Transport := (Transport c)\<lparr>IdleConnTimeout := v\<rparr>\<rparr>)
       (\<lambda>v. normalizeDuration ''transport idle_conn_timeout'' v DefaultIdleConnTimeout),
     on_field (\<lambda>c. MaxIdleConnsPerHost (Transport c))
       (\<lambda>v c. c\<lparr>Transport := (Transport c)\<lparr>MaxIdleConnsPerHost := v\<rparr>\<rparr>)
       (\<lambda>v. normalizePositiveInt ''transport max_idle_conns_per_host'' v
              DefaultMaxIdleConnsPerHost)]"

definition Validate :: "(string \<Rightarrow> url option) \<Rightarrow> step" where
  "Validate parse = run_steps
    [\<lambda>c. (None, if Algorithm c = '''' then c\<lparr>Algorithm := AlgorithmRoundRobin\<rparr> else c),
     check (\<lambda>c. if Listen c = '''' then Some ListenEmpty else None),
     check (\<lambda>c. validateListen (Listen c)),
     check validate_tls,
     check (\<lambda>c. if length (Backends c) = 0 then Some NoBackends else None),
     check (\<lambda>c. validateBackends parse (Backends c)),
     check (\<lambda>c. duplicateName {} (Backends c)),
     check (\<lambda>c. if Algorithm c \<notin> set implementedAlgorithms
                then Some (UnsupportedAlgorithm (Algorithm c)) else None),
     normalizeAndValidateDefaults,
     on_field (\<lambda>c. MetricsListen (Metrics c))
       (\<lambda>v c. c\<lparr>Metrics := (Metrics c)\<lparr>MetricsListen := v\<rparr>\<rparr>)
       (\<lambda>v. normalizeListen ''metrics listen'' v DefaultMetricsListen),
     on_field (\<lambda>c. EndpointListen (HealthEndpoint c))
       (\<lambda>v c. c\<lparr>HealthEndpoint := (HealthEndpoint c)\<lparr>EndpointListen := v\<rparr>\<rparr>)
       (\<lambda>v. normalizeListen ''health_endpoint listen'' v DefaultHealthEndpointListen)]"

section \<open>The specification\<close>

text \<open>\<open>resolve\<close> is the configuration with every default filled in.\<close>

definition or_default :: "'a \<Rightarrow> 'a option \<Rightarrow> 'a option" where
  "or_default d v = (case v of None \<Rightarrow> Some d | Some x \<Rightarrow> Some x)"

definition resolve :: "Config \<Rightarrow> Config" where
  "resolve c =
     \<lparr>Listen = Listen c, TLS = TLS c, H2C = H2C c,
      Algorithm = (if Algorithm c = '''' then AlgorithmRoundRobin else Algorithm c),
      Health = \<lparr>ProbeInterval = or_default DefaultProbeInterval (ProbeInterval (Health c)),
                ProbeTimeout = or_default DefaultProbeTimeout (ProbeTimeout (Health c))\<rparr>,
      Circuit = \<lparr>Cooldown = or_default DefaultCircuitCooldown (Cooldown (Circuit c))\<rparr>,
      Metrics = \<lparr>MetricsListen = or_default DefaultMetricsListen (MetricsListen (Metrics c))\<rparr>,
      HealthEndpoint =
        \<lparr>EndpointListen = or_default DefaultHealthEndpointListen (EndpointListen (HealthEndpoint c))\<rparr>,
      Reload = \<lparr>DrainWindow = or_default DefaultDrainWindow (DrainWindow (Reload c))\<rparr>,
      Server = \<lparr>ReadTimeout = or_default DefaultReadTimeout (ReadTimeout (Server c)),
                IdleTimeout = or_default DefaultIdleTimeout (IdleTimeout (Server c))\<rparr>,
      Transport = \<lparr>ForceHTTP2 = or_default DefaultForceHTTP2 (ForceHTTP2 (Transport c)),
                   TLSSkipVerify = TLSSkipVerify (Transport c),
                   DialTimeout = or_default DefaultDialTimeout (DialTimeout (Transport c)),
                   ResponseHeaderTimeout =
                     or_default DefaultResponseHeaderTimeout (ResponseHeaderTimeout (Transport c)),
                   MaxIdleConnsPerHost =
                     or_default DefaultMaxIdleConnsPerHost (MaxIdleConnsPerHost (Transport c)),
                   IdleConnTimeout =
                     or_default DefaultIdleConnTimeout (IdleConnTimeout (Transport c))\<rparr>,
      Backends = Backends c\<rparr>"

definition positive_if_set :: "int option \<Rightarrow> bool" where
  "positive_if_set v \<longleftrightarrow> (case v of None \<Rightarrow> True | Some x \<Rightarrow> 0 < x)"

definition hostport_ok :: "string \<Rightarrow> bool" where
  "hostport_ok a \<longleftrightarrow> (case split_host_port a of Inl e \<Rightarrow> False | Inr (h, p) \<Rightarrow> \<not> isl (parse_uint16 p))"

definition listen_if_set :: "string option \<Rightarrow> bool" where
  "listen_if_set v \<longleftrightarrow> (case v of None \<Rightarrow> True | Some a \<Rightarrow> hostport_ok a)"

definition url_ok :: "(string \<Rightarrow> url option) \<Rightarrow> string \<Rightarrow> bool" where
  "url_ok parse raw \<longleftrightarrow> (has_prefix raw ''http://'' \<or> has_prefix raw ''https://'') \<and>
     (case parse raw of None \<Rightarrow> False
      | Some u \<Rightarrow> Host u \<noteq> '''' \<and> RawQuery u = '''' \<and> Fragment u = '''')"

definition durations_ok :: "Config \<Rightarrow> bool" where
  "durations_ok c \<longleftrightarrow>
     positive_if_set (ProbeInterval (Health c)) \<and> positive_if_set (ProbeTimeout (Health c)) \<and>
     positive_if_set (Cooldown (Circuit c)) \<and> positive_if_set (DrainWindow (Reload c)) \<and>
     positive_if_set (ReadTimeout (Server c)) \<and> positive_if_set (IdleTimeout (Server c)) \<and>
     positive_if_set (DialTimeout (Transport c)) \<and>
     positive_if_set (ResponseHeaderTimeout (Transport c)) \<and>
     positive_if_set (IdleConnTimeout (Transport c)) \<and>
     positive_if_set (MaxIdleConnsPerHost (Transport c))"

definition config_ok :: "(string \<Rightarrow> url option) \<Rightarrow> Config \<Rightarrow> bool" where
  "config_ok parse c \<longleftrightarrow>
     hostport_ok (Listen c) \<and>
     (case TLS c of None \<Rightarrow> True
      | Some t \<Rightarrow> \<not> H2C c \<and> CertFile t \<noteq> '''' \<and> KeyFile t \<noteq> '''') \<and>
     Backends c \<noteq> [] \<and>
     (\<forall>b \<in> set (Backends c). backendNamePattern (CfgName b) \<and> url_ok parse (CfgURL b)) \<and>
     distinct (map CfgName (Backends c)) \<and>
     (Algorithm c = '''' \<or> Algorithm c \<in> set implementedAlgorithms) \<and>
     durations_ok c \<and>
     listen_if_set (MetricsListen (Metrics c)) \<and>
     listen_if_set (EndpointListen (HealthEndpoint c))"

section \<open>The steps against the specification\<close>

declare run_steps.simps(2) [simp del]

lemma case_error_None_iff:
  "(case x of None \<Rightarrow> y | Some e \<Rightarrow> Some e) = None \<longleftrightarrow> x = None \<and> y = None"
  by (cases x) auto

lemma run_steps_None_iff [simp]:
  "fst (run_steps (f # fs) c) = None \<longleftrightarrow> fst (f c) = None \<and> fst (run_steps fs (snd (f c))) = None"
  by (auto simp: run_steps.simps(2) split: prod.splits option.splits)

lemma snd_run_steps:
  "fst (f c) = None \<Longrightarrow> snd (run_steps (f # fs) c) = snd (run_steps fs (snd (f c)))"
  by (auto simp: run_steps.simps(2) split: prod.splits option.splits)

lemma check_simps [simp]: "fst (check f c) = f c" "snd (check f c) = c"
  by (simp_all add: check_def)

lemma on_field_simps [simp]:
  "fst (on_field get put f c) = fst (f (get c))"
  "snd (on_field get put f c) = put (snd (f (get c))) c"
  by (simp_all add: on_field_def split: prod.splits)

lemma normalizeDuration_simps [simp]:
  "fst (normalizeDuration f v d) = None \<longleftrightarrow> positive_if_set v"
  "snd (normalizeDuration f v d) = or_default d v"
  by (auto simp: normalizeDuration_def positive_if_set_def or_default_def split: option.splits)

lemma normalizePositiveInt_simps [simp]:
  "fst (normalizePositiveInt f v d) = None \<longleftrightarrow> positive_if_set v"
  "snd (normalizePositiveInt f v d) = or_default d v"
  by (auto simp: normalizePositiveInt_def positive_if_set_def or_default_def split: option.splits)

lemma validateHostPort_None_iff [simp]: "validateHostPort f a = None \<longleftrightarrow> hostport_ok a"
  by (auto simp: validateHostPort_def hostport_ok_def split: sum.splits)

lemma not_hostport_ok_Nil [simp]: "\<not> hostport_ok ''''"
  by (simp add: hostport_ok_def split_host_port_def last_index_byte_def)

lemma normalizeListen_simps [simp]:
  "fst (normalizeListen f v d) = None \<longleftrightarrow> listen_if_set v"
  "snd (normalizeListen f v d) = or_default d v"
  by (auto simp: normalizeListen_def listen_if_set_def or_default_def split: option.splits)

lemma validateBackendName_None_iff [simp]:
  "validateBackendName n = None \<longleftrightarrow> backendNamePattern n"
  by (auto simp: validateBackendName_def backendNamePattern_def)

lemma validateBackendURL_None_iff [simp]:
  "validateBackendURL parse n raw = None \<longleftrightarrow> url_ok parse raw"
  by (auto simp: validateBackendURL_def url_ok_def split: option.splits)

lemma validateBackends_None_iff [simp]:
  "validateBackends parse bs = None \<longleftrightarrow>
     (\<forall>b \<in> set bs. backendNamePattern (CfgName b) \<and> url_ok parse (CfgURL b))"
  by (induction bs) (auto simp: case_error_None_iff)

lemma duplicateName_None_iff [simp]:
  "duplicateName seen bs = None \<longleftrightarrow>
     distinct (map CfgName bs) \<and> set (map CfgName bs) \<inter> seen = {}"
  by (induction bs arbitrary: seen) auto

lemma normalizeAndValidateDefaults_None_iff [simp]:
  "fst (normalizeAndValidateDefaults c) = None \<longleftrightarrow> durations_ok c"
  by (simp add: normalizeAndValidateDefaults_def durations_ok_def)

lemma snd_normalizeAndValidateDefaults:
  assumes "durations_ok c"
  shows "snd (normalizeAndValidateDefaults c) =
    (resolve c)\<lparr>Algorithm := Algorithm c, Metrics := Metrics c, HealthEndpoint := HealthEndpoint c\<rparr>"
  using assms
  by (simp add: normalizeAndValidateDefaults_def durations_ok_def snd_run_steps resolve_def
      or_default_def)

lemma durations_ok_Algorithm [simp]:
  "durations_ok (c\<lparr>Algorithm := a\<rparr>) = durations_ok c"
  by (simp add: durations_ok_def)

lemma resolve_Algorithm:
  "resolve (c\<lparr>Algorithm := a\<rparr>) =
     (resolve c)\<lparr>Algorithm := if a = [] then AlgorithmRoundRobin else a\<rparr>"
  by (simp add: resolve_def)

lemma fst_Validate: "fst (Validate parse c) = None \<longleftrightarrow> config_ok parse c"
proof -
  define c1 where "c1 = (if Algorithm c = [] then c\<lparr>Algorithm := AlgorithmRoundRobin\<rparr> else c)"
  have c1: "Listen c1 = Listen c" "TLS c1 = TLS c" "H2C c1 = H2C c" "Backends c1 = Backends c"
    "Metrics c1 = Metrics c" "HealthEndpoint c1 = HealthEndpoint c"
    "durations_ok c1 = durations_ok c" "validate_tls c1 = validate_tls c"
    by (simp_all add: c1_def validate_tls_def cong: option.case_cong)
  have alg: "Algorithm c1 \<in> set implementedAlgorithms \<longleftrightarrow>
      Algorithm c = [] \<or> Algorithm c \<in> set implementedAlgorithms"
    by (simp add: c1_def implementedAlgorithms_def algorithm_names)
  have tls: "validate_tls c = None \<longleftrightarrow> (case TLS c of None \<Rightarrow> True
      | Some t \<Rightarrow> \<not> H2C c \<and> CertFile t \<noteq> [] \<and> KeyFile t \<noteq> [])"
    by (simp add: validate_tls_def split: option.splits)
  show ?thesis
    unfolding Validate_def config_ok_def
    by (auto simp: c1 c1_def [symmetric] alg tls validateListen_def snd_normalizeAndValidateDefaults
        split: if_splits)
qed

lemma snd_Validate:
  assumes "config_ok parse c"
  shows "snd (Validate parse c) = resolve c"
proof -
  define c1 where "c1 = (if Algorithm c = [] then c\<lparr>Algorithm := AlgorithmRoundRobin\<rparr> else c)"
  have ok: "fst (Validate parse c) = None" using assms by (simp add: fst_Validate)
  have d: "durations_ok c1" using assms by (simp add: config_ok_def c1_def)
  have "snd (Validate parse c) =
      (snd (normalizeAndValidateDefaults c1))
        \<lparr>Metrics := \<lparr>MetricsListen = or_default DefaultMetricsListen (MetricsListen (Metrics c))\<rparr>,
         HealthEndpoint := \<lparr>EndpointListen =
           or_default DefaultHealthEndpointListen (EndpointListen (HealthEndpoint c))\<rparr>\<rparr>"
    using ok unfolding Validate_def
    by (simp add: snd_run_steps c1_def [symmetric] snd_normalizeAndValidateDefaults [OF d])
       (simp add: c1_def)
  also have "\<dots> = resolve c"
    by (simp add: snd_normalizeAndValidateDefaults [OF d])
       (simp add: resolve_def c1_def)
  finally show ?thesis .
qed

lemma or_default_idem [simp]:
  "or_default d (or_default d v) = or_default d v" "or_default d v \<noteq> None"
  by (auto simp: or_default_def split: option.splits)

lemma resolve_resolve: "resolve (resolve c) = resolve c"
  by (auto simp: resolve_def AlgorithmRoundRobin_def)

lemma positive_or_default [simp]:
  "0 < d \<Longrightarrow> positive_if_set (or_default d v) = positive_if_set v"
  by (auto simp: positive_if_set_def or_default_def split: option.splits)

lemma listen_or_default [simp]:
  "hostport_ok d \<Longrightarrow> listen_if_set (or_default d v) = listen_if_set v"
  by (auto simp: listen_if_set_def or_default_def split: option.splits)

lemma default_listens_ok [simp]:
  "hostport_ok DefaultMetricsListen" "hostport_ok DefaultHealthEndpointListen"
  by (simp_all add: hostport_ok_def default_defs split_host_port_def last_index_byte_def
      has_prefix_def split_host_port_end_def parse_uint16_def is_digit_def digit_value_def
      less_eq_char_def)

lemma default_durations_pos [simp]:
  "0 < DefaultProbeInterval" "0 < DefaultProbeTimeout" "0 < DefaultCircuitCooldown"
  "0 < DefaultDrainWindow" "0 < DefaultReadTimeout" "0 < DefaultIdleTimeout"
  "0 < DefaultDialTimeout" "0 < DefaultResponseHeaderTimeout" "0 < DefaultMaxIdleConnsPerHost"
  "0 < DefaultIdleConnTimeout"
  by (simp_all add: default_defs)

lemma resolve_sections [simp]:
  "Listen (resolve c) = Listen c" "TLS (resolve c) = TLS c" "H2C (resolve c) = H2C c"
  "Backends (resolve c) = Backends c"
  "Algorithm (resolve c) = (if Algorithm c = [] then AlgorithmRoundRobin else Algorithm c)"
  "MetricsListen (Metrics (resolve c)) = or_default DefaultMetricsListen (MetricsListen (Metrics c))"
  "EndpointListen (HealthEndpoint (resolve c)) =
     or_default DefaultHealthEndpointListen (EndpointListen (HealthEndpoint c))"
  by (simp_all add: resolve_def)

lemma durations_ok_resolve [simp]: "durations_ok (resolve c) = durations_ok c"
  by (simp add: durations_ok_def resolve_def)

lemma config_ok_resolve: "config_ok parse c \<Longrightarrow> config_ok parse (resolve c)"
  by (auto simp: config_ok_def implementedAlgorithms_def split: option.splits)

text \<open>
  C29. \<open>Validate\<close> accepts exactly the configurations its comment describes, and on
  acceptance leaves the configuration with every omitted field set to its default and every
  other field as the operator wrote it; anything else is an error.
\<close>

theorem Validate_spec:
  "if config_ok parse c then Validate parse c = (None, resolve c)
   else fst (Validate parse c) \<noteq> None"
  using fst_Validate [of parse c] snd_Validate [of parse c] by (auto simp: prod_eq_iff)

text \<open>
  Validation is idempotent: a configuration that has passed once passes again and is not
  changed, so a consumer may validate what it is handed.
\<close>

theorem Validate_idempotent:
  assumes "Validate parse c = (None, c')"
  shows "Validate parse c' = (None, c')"
proof -
  have ok: "config_ok parse c" using assms fst_Validate [of parse c] by simp
  then have c': "c' = resolve c" using assms snd_Validate [OF ok] by simp
  have "config_ok parse (resolve c)" using ok by (rule config_ok_resolve)
  then have "Validate parse (resolve c) = (None, resolve (resolve c))"
    using fst_Validate [of parse "resolve c"] snd_Validate [of parse "resolve c"]
    by (simp add: prod_eq_iff)
  then show ?thesis by (simp add: c' resolve_resolve)
qed

definition sample_parse :: "string \<Rightarrow> url option" where
  "sample_parse s = Some \<lparr>Scheme = ''http'', Host = ''h'', RawQuery = '''', Fragment = ''''\<rparr>"

definition sample_config :: Config where
  "sample_config =
     \<lparr>Listen = '':8080'', TLS = None, H2C = False, Algorithm = '''',
      Health = \<lparr>ProbeInterval = None, ProbeTimeout = Some 1\<rparr>,
      Circuit = \<lparr>Cooldown = None\<rparr>, Metrics = \<lparr>MetricsListen = None\<rparr>,
      HealthEndpoint = \<lparr>EndpointListen = None\<rparr>, Reload = \<lparr>DrainWindow = None\<rparr>,
      Server = \<lparr>ReadTimeout = None, IdleTimeout = None\<rparr>,
      Transport = \<lparr>ForceHTTP2 = None, TLSSkipVerify = False, DialTimeout = None,
                   ResponseHeaderTimeout = None, MaxIdleConnsPerHost = None,
                   IdleConnTimeout = None\<rparr>,
      Backends = [\<lparr>CfgName = ''a'', CfgURL = ''http://h''\<rparr>]\<rparr>"

lemma Validate_sample: "Validate sample_parse sample_config = (None, resolve sample_config)"
proof -
  have "config_ok sample_parse sample_config"
    by (simp add: config_ok_def sample_config_def sample_parse_def url_ok_def hostport_ok_def
      split_host_port_def last_index_byte_def has_prefix_def split_host_port_end_def
      parse_uint16_def is_digit_def digit_value_def less_eq_char_def backendNamePattern_def
      backendNameChar_def is_alpha_def durations_ok_def positive_if_set_def listen_if_set_def)
  then show ?thesis
    using fst_Validate [of sample_parse sample_config] snd_Validate [of sample_parse sample_config]
    by (simp add: prod_eq_iff)
qed

theorem Validate_idempotent_witness:
  "Validate sample_parse (resolve sample_config) = (None, resolve sample_config)"
  by (rule Validate_idempotent [OF Validate_sample])

section \<open>Resolved configurations\<close>

text \<open>What \<open>Validate\<close> guarantees its consumers: no pointer they read is \<open>nil\<close>.\<close>

definition resolved :: "Config \<Rightarrow> bool" where
  "resolved c \<longleftrightarrow>
     ProbeInterval (Health c) \<noteq> None \<and> ProbeTimeout (Health c) \<noteq> None \<and>
     Cooldown (Circuit c) \<noteq> None \<and> MetricsListen (Metrics c) \<noteq> None \<and>
     EndpointListen (HealthEndpoint c) \<noteq> None \<and> DrainWindow (Reload c) \<noteq> None \<and>
     ReadTimeout (Server c) \<noteq> None \<and> IdleTimeout (Server c) \<noteq> None \<and>
     ForceHTTP2 (Transport c) \<noteq> None \<and> DialTimeout (Transport c) \<noteq> None \<and>
     ResponseHeaderTimeout (Transport c) \<noteq> None \<and>
     MaxIdleConnsPerHost (Transport c) \<noteq> None \<and> IdleConnTimeout (Transport c) \<noteq> None"

lemma resolved_resolve [simp]: "resolved (resolve c)"
  by (simp add: resolved_def resolve_def)

lemma Validate_resolved: "Validate parse c = (None, c') \<Longrightarrow> resolved c' \<and> config_ok parse c'"
  using fst_Validate [of parse c] snd_Validate [of parse c]
  by (auto simp: config_ok_resolve)

end
