(* ===== verification/Config_Diff.thy ===== *)
theory Config_Diff
  imports Config_Validate
begin

text \<open>
  The comparison a reload is decided on, \<open>internal/config/diff.go\<close>. Reading through a
  \<open>nil\<close> pointer panics in Go, so \<open>NonBackendChanges\<close> returns \<open>None\<close> for a
  panic; the theorem shows that validated configurations never reach it.
\<close>

record BackendDiff =
  Added :: "BackendConfig list"
  Removed :: "BackendConfig list"
  Unchanged :: "BackendConfig list"

definition BackendIdentity :: "BackendConfig \<Rightarrow> string" where
  "BackendIdentity b = CfgName b @ [CHR 0x00] @ CfgURL b"

definition backendIdentities :: "BackendConfig list \<Rightarrow> string set" where
  "backendIdentities cfgs = set (map BackendIdentity cfgs)"

fun diff_new_loop :: "string set \<Rightarrow> BackendConfig list \<Rightarrow> BackendDiff \<Rightarrow> BackendDiff" where
  "diff_new_loop old [] d = d"
| "diff_new_loop old (b # bs) d =
     diff_new_loop old bs
       (if BackendIdentity b \<in> old then d\<lparr>Unchanged := Unchanged d @ [b]\<rparr>
        else d\<lparr>Added := Added d @ [b]\<rparr>)"

fun diff_old_loop :: "string set \<Rightarrow> BackendConfig list \<Rightarrow> BackendDiff \<Rightarrow> BackendDiff" where
  "diff_old_loop new [] d = d"
| "diff_old_loop new (b # bs) d =
     diff_old_loop new bs
       (if BackendIdentity b \<in> new then d else d\<lparr>Removed := Removed d @ [b]\<rparr>)"

definition DiffBackends :: "Config \<Rightarrow> Config \<Rightarrow> BackendDiff" where
  "DiffBackends oldCfg newCfg =
     (let oldIdentities = backendIdentities (Backends oldCfg);
          newIdentities = backendIdentities (Backends newCfg);
          d0 = \<lparr>Added = [], Removed = [], Unchanged = []\<rparr>
      in diff_old_loop newIdentities (Backends oldCfg)
           (diff_new_loop oldIdentities (Backends newCfg) d0))"

definition tlsConfigEqual :: "TLSConfig option \<Rightarrow> TLSConfig option \<Rightarrow> bool" where
  "tlsConfigEqual a b =
     (case (a, b) of
        (Some x, Some y) \<Rightarrow> CertFile x = CertFile y \<and> KeyFile x = KeyFile y
      | (None, None) \<Rightarrow> True
      | _ \<Rightarrow> False)"

text \<open>\<open>*p != *q\<close>, and the short-circuit \<open>||\<close> on conditions that may panic.\<close>

definition ptr_neq :: "'a option \<Rightarrow> 'a option \<Rightarrow> bool option" where
  "ptr_neq p q = (case (p, q) of (Some x, Some y) \<Rightarrow> Some (x \<noteq> y) | _ \<Rightarrow> None)"

definition or_panic :: "bool option \<Rightarrow> bool option \<Rightarrow> bool option" where
  "or_panic p q = (case p of None \<Rightarrow> None | Some True \<Rightarrow> Some True | Some False \<Rightarrow> q)"

fun collect_changes :: "(string \<times> bool option) list \<Rightarrow> string list option" where
  "collect_changes [] = Some []"
| "collect_changes ((n, t) # r) =
     (case t of
        None \<Rightarrow> None
      | Some differs \<Rightarrow> map_option (\<lambda>ns. if differs then n # ns else ns) (collect_changes r))"

definition NonBackendChanges :: "Config \<Rightarrow> Config \<Rightarrow> string list option" where
  "NonBackendChanges oldCfg newCfg = collect_changes
    [(''listen'', Some (Listen oldCfg \<noteq> Listen newCfg)),
     (''tls'', Some (\<not> tlsConfigEqual (TLS oldCfg) (TLS newCfg))),
     (''h2c'', Some (H2C oldCfg \<noteq> H2C newCfg)),
     (''health'',
        or_panic (ptr_neq (ProbeInterval (Health oldCfg)) (ProbeInterval (Health newCfg)))
                 (ptr_neq (ProbeTimeout (Health oldCfg)) (ProbeTimeout (Health newCfg)))),
     (''circuit'', ptr_neq (Cooldown (Circuit oldCfg)) (Cooldown (Circuit newCfg))),
     (''metrics'', ptr_neq (MetricsListen (Metrics oldCfg)) (MetricsListen (Metrics newCfg))),
     (''health_endpoint'',
        ptr_neq (EndpointListen (HealthEndpoint oldCfg)) (EndpointListen (HealthEndpoint newCfg))),
     (''reload'', ptr_neq (DrainWindow (Reload oldCfg)) (DrainWindow (Reload newCfg))),
     (''server'',
        or_panic (ptr_neq (ReadTimeout (Server oldCfg)) (ReadTimeout (Server newCfg)))
                 (ptr_neq (IdleTimeout (Server oldCfg)) (IdleTimeout (Server newCfg)))),
     (''transport'',
        or_panic (ptr_neq (ForceHTTP2 (Transport oldCfg)) (ForceHTTP2 (Transport newCfg)))
       (or_panic (Some (TLSSkipVerify (Transport oldCfg) \<noteq> TLSSkipVerify (Transport newCfg)))
       (or_panic (ptr_neq (DialTimeout (Transport oldCfg)) (DialTimeout (Transport newCfg)))
       (or_panic (ptr_neq (ResponseHeaderTimeout (Transport oldCfg))
                          (ResponseHeaderTimeout (Transport newCfg)))
       (or_panic (ptr_neq (MaxIdleConnsPerHost (Transport oldCfg))
                          (MaxIdleConnsPerHost (Transport newCfg)))
                 (ptr_neq (IdleConnTimeout (Transport oldCfg))
                          (IdleConnTimeout (Transport newCfg))))))))]"

section \<open>Backend identity\<close>

text \<open>The NUL separator keeps the pair apart as long as no name contains one.\<close>

lemma BackendIdentity_inj:
  assumes "CHR 0x00 \<notin> set (CfgName a)" and "CHR 0x00 \<notin> set (CfgName b)"
  shows "BackendIdentity a = BackendIdentity b \<longleftrightarrow> a = b"
proof
  assume e: "BackendIdentity a = BackendIdentity b"
  have i: "index_byte (BackendIdentity a) (CHR 0x00) = Some (length (CfgName a))"
    "index_byte (BackendIdentity b) (CHR 0x00) = Some (length (CfgName b))"
    using assms by (simp_all add: BackendIdentity_def index_byte_append)
  with e have "length (CfgName a) = length (CfgName b)" by simp
  with e have "CfgName a = CfgName b" "CfgURL a = CfgURL b" by (simp_all add: BackendIdentity_def)
  then show "a = b" by simp
qed simp

definition nul_free :: "Config \<Rightarrow> bool" where
  "nul_free c \<longleftrightarrow> (\<forall>b \<in> set (Backends c). CHR 0x00 \<notin> set (CfgName b))"

lemma backendNamePattern_nul_free: "backendNamePattern s \<Longrightarrow> CHR 0x00 \<notin> set s"
proof -
  have "\<not> backendNameChar (CHR 0x00)" by code_simp
  then show "backendNamePattern s \<Longrightarrow> CHR 0x00 \<notin> set s"
    by (auto simp: backendNamePattern_def list_all_iff)
qed

lemma config_ok_nul_free: "config_ok parse c \<Longrightarrow> nul_free c"
  by (auto simp: config_ok_def nul_free_def dest: backendNamePattern_nul_free)

lemma in_backendIdentities_iff:
  assumes "nul_free c" and "CHR 0x00 \<notin> set (CfgName b)"
  shows "BackendIdentity b \<in> backendIdentities (Backends c) \<longleftrightarrow> b \<in> set (Backends c)"
  using assms BackendIdentity_inj
  by (auto simp: backendIdentities_def nul_free_def image_iff)

section \<open>The diff\<close>

lemma diff_new_loop_eq:
  "diff_new_loop old bs d =
     d\<lparr>Unchanged := Unchanged d @ filter (\<lambda>b. BackendIdentity b \<in> old) bs,
       Added := Added d @ filter (\<lambda>b. BackendIdentity b \<notin> old) bs\<rparr>"
  by (induction bs arbitrary: d) simp_all

lemma diff_old_loop_eq:
  "diff_old_loop new bs d =
     d\<lparr>Removed := Removed d @ filter (\<lambda>b. BackendIdentity b \<notin> new) bs\<rparr>"
  by (induction bs arbitrary: d) simp_all

lemma DiffBackends_eq:
  "DiffBackends oldCfg newCfg =
     \<lparr>Added = filter (\<lambda>b. BackendIdentity b \<notin> backendIdentities (Backends oldCfg)) (Backends newCfg),
      Removed = filter (\<lambda>b. BackendIdentity b \<notin> backendIdentities (Backends newCfg)) (Backends oldCfg),
      Unchanged = filter (\<lambda>b. BackendIdentity b \<in> backendIdentities (Backends oldCfg)) (Backends newCfg)\<rparr>"
  by (simp add: DiffBackends_def diff_new_loop_eq diff_old_loop_eq Let_def)

lemma DiffBackends_filters:
  assumes "nul_free oldCfg" and "nul_free newCfg"
  shows "DiffBackends oldCfg newCfg =
    \<lparr>Added = filter (\<lambda>b. b \<notin> set (Backends oldCfg)) (Backends newCfg),
     Removed = filter (\<lambda>b. b \<notin> set (Backends newCfg)) (Backends oldCfg),
     Unchanged = filter (\<lambda>b. b \<in> set (Backends oldCfg)) (Backends newCfg)\<rparr>"
  using assms unfolding DiffBackends_eq
  by (auto intro!: filter_cong simp: in_backendIdentities_iff nul_free_def)

text \<open>
  The diff is exact: for validated configurations a backend is unchanged when the same
  (name, URL) pair is in both files, added when only the new file has it and removed when only
  the old one has it; added and unchanged keep the new file's order, removed the old file's.
\<close>

theorem DiffBackends_exact:
  assumes "config_ok parse oldCfg" and "config_ok parse newCfg"
  shows "DiffBackends oldCfg newCfg =
    \<lparr>Added = filter (\<lambda>b. b \<notin> set (Backends oldCfg)) (Backends newCfg),
     Removed = filter (\<lambda>b. b \<notin> set (Backends newCfg)) (Backends oldCfg),
     Unchanged = filter (\<lambda>b. b \<in> set (Backends oldCfg)) (Backends newCfg)\<rparr>"
  by (rule DiffBackends_filters) (use assms in \<open>auto dest: config_ok_nul_free\<close>)

lemma config_ok_sample: "config_ok sample_parse sample_config"
  using Validate_sample fst_Validate [of sample_parse sample_config] by simp

theorem DiffBackends_exact_witness:
  "Unchanged (DiffBackends sample_config sample_config) = Backends sample_config"
  using DiffBackends_exact [OF config_ok_sample config_ok_sample] by simp

section \<open>The non-backend fields\<close>

lemma tlsConfigEqual_iff [simp]: "tlsConfigEqual a b \<longleftrightarrow> a = b"
  by (cases a; cases b) (auto simp: tlsConfigEqual_def)

lemma or_panic_Some [simp]: "or_panic (Some p) (Some q) = Some (p \<or> q)"
  by (simp add: or_panic_def split: bool.splits)

lemma ptr_neq_non_nil: "x \<noteq> None \<Longrightarrow> y \<noteq> None \<Longrightarrow> ptr_neq x y = Some (x \<noteq> y)"
  by (auto simp: ptr_neq_def)

lemma collect_changes_filter:
  "collect_changes (map (\<lambda>(n, d). (n, Some d)) xs) = Some (map fst (filter snd xs))"
  by (induction xs) auto

lemma map_fst_filter_snd: "map fst (filter snd (map (\<lambda>n. (n, f n)) ns)) = filter f ns"
  by (induction ns) auto

definition non_backend_fields :: "string list" where
  "non_backend_fields = [''listen'', ''tls'', ''h2c'', ''health'', ''circuit'', ''metrics'',
     ''health_endpoint'', ''reload'', ''server'', ''transport'']"

text \<open>The parts of the configuration a reload must not change.\<close>

definition field_differs :: "Config \<Rightarrow> Config \<Rightarrow> string \<Rightarrow> bool" where
  "field_differs a b f \<longleftrightarrow>
     (f = ''listen'' \<and> Listen a \<noteq> Listen b) \<or> (f = ''tls'' \<and> TLS a \<noteq> TLS b) \<or>
     (f = ''h2c'' \<and> H2C a \<noteq> H2C b) \<or> (f = ''health'' \<and> Health a \<noteq> Health b) \<or>
     (f = ''circuit'' \<and> Circuit a \<noteq> Circuit b) \<or> (f = ''metrics'' \<and> Metrics a \<noteq> Metrics b) \<or>
     (f = ''health_endpoint'' \<and> HealthEndpoint a \<noteq> HealthEndpoint b) \<or>
     (f = ''reload'' \<and> Reload a \<noteq> Reload b) \<or> (f = ''server'' \<and> Server a \<noteq> Server b) \<or>
     (f = ''transport'' \<and> Transport a \<noteq> Transport b)"

lemma NonBackendChanges_eq:
  assumes "resolved a" and "resolved b"
  shows "NonBackendChanges a b = Some (filter (field_differs a b) non_backend_fields)"
proof -

  have H: "Health a \<noteq> Health b \<longleftrightarrow> ProbeInterval (Health a) \<noteq> ProbeInterval (Health b) \<or>
      ProbeTimeout (Health a) \<noteq> ProbeTimeout (Health b)"
    by (auto intro: HealthConfig.equality)
  have C: "Circuit a \<noteq> Circuit b \<longleftrightarrow> Cooldown (Circuit a) \<noteq> Cooldown (Circuit b)"
    by (auto intro: CircuitConfig.equality)
  have M: "Metrics a \<noteq> Metrics b \<longleftrightarrow> MetricsListen (Metrics a) \<noteq> MetricsListen (Metrics b)"
    by (auto intro: MetricsConfig.equality)
  have E: "HealthEndpoint a \<noteq> HealthEndpoint b \<longleftrightarrow>
      EndpointListen (HealthEndpoint a) \<noteq> EndpointListen (HealthEndpoint b)"
    by (auto intro: HealthEndpointConfig.equality)
  have R: "Reload a \<noteq> Reload b \<longleftrightarrow> DrainWindow (Reload a) \<noteq> DrainWindow (Reload b)"
    by (auto intro: ReloadConfig.equality)
  have S: "Server a \<noteq> Server b \<longleftrightarrow> ReadTimeout (Server a) \<noteq> ReadTimeout (Server b) \<or>
      IdleTimeout (Server a) \<noteq> IdleTimeout (Server b)"
    by (auto intro: ServerConfig.equality)
  have T: "Transport a \<noteq> Transport b \<longleftrightarrow> ForceHTTP2 (Transport a) \<noteq> ForceHTTP2 (Transport b) \<or>
      TLSSkipVerify (Transport a) \<noteq> TLSSkipVerify (Transport b) \<or>
      DialTimeout (Transport a) \<noteq> DialTimeout (Transport b) \<or>
      ResponseHeaderTimeout (Transport a) \<noteq> ResponseHeaderTimeout (Transport b) \<or>
      MaxIdleConnsPerHost (Transport a) \<noteq> MaxIdleConnsPerHost (Transport b) \<or>
      IdleConnTimeout (Transport a) \<noteq> IdleConnTimeout (Transport b)"
    by (auto intro: TransportConfig.equality)
  note r = assms [unfolded resolved_def]
  let ?fields = "[(''listen'', Listen a \<noteq> Listen b), (''tls'', TLS a \<noteq> TLS b), (''h2c'', H2C a \<noteq> H2C b),
         (''health'', Health a \<noteq> Health b), (''circuit'', Circuit a \<noteq> Circuit b),
         (''metrics'', Metrics a \<noteq> Metrics b),
         (''health_endpoint'', HealthEndpoint a \<noteq> HealthEndpoint b),
         (''reload'', Reload a \<noteq> Reload b), (''server'', Server a \<noteq> Server b),
         (''transport'', Transport a \<noteq> Transport b)]"
  have "NonBackendChanges a b = collect_changes (map (\<lambda>(n, d). (n, Some d)) ?fields)"
    unfolding NonBackendChanges_def H C M E R S T
    using r
    by (simp only: list.map prod.case ptr_neq_non_nil or_panic_Some tlsConfigEqual_iff
        not_False_eq_True de_Morgan_conj)
  also have "?fields = map (\<lambda>n. (n, field_differs a b n)) non_backend_fields"
    by (simp add: field_differs_def non_backend_fields_def)
  finally show ?thesis by (simp only: collect_changes_filter map_fst_filter_snd)
qed

lemma same_but_backends_iff:
  "a\<lparr>Backends := [], Algorithm := []\<rparr> = b\<lparr>Backends := [], Algorithm := []\<rparr> \<longleftrightarrow>
     filter (field_differs a b) non_backend_fields = []"
  by (cases a; cases b) (auto simp: field_differs_def non_backend_fields_def)

text \<open>
  For two resolved configurations \<open>NonBackendChanges\<close> does not panic, names each
  changed section once in the documented order, and is empty exactly when the configurations
  agree on everything but the backends and the algorithm, which is when a reload is allowed.
\<close>

theorem NonBackendChanges_spec:
  assumes "resolved a" and "resolved b"
  shows "NonBackendChanges a b = Some (filter (field_differs a b) non_backend_fields) \<and>
    (NonBackendChanges a b = Some [] \<longleftrightarrow>
      a\<lparr>Backends := [], Algorithm := ''''\<rparr> = b\<lparr>Backends := [], Algorithm := ''''\<rparr>)"
  by (simp add: NonBackendChanges_eq [OF assms] same_but_backends_iff)

theorem NonBackendChanges_spec_witness:
  "NonBackendChanges (resolve sample_config) (resolve (sample_config\<lparr>H2C := True\<rparr>)) = Some [''h2c'']"
proof -
  have r: "resolved (resolve sample_config)" "resolved (resolve (sample_config\<lparr>H2C := True\<rparr>))"
    by simp_all
  show ?thesis
    using NonBackendChanges_spec [OF r]
    by (simp add: field_differs_def non_backend_fields_def resolve_def sample_config_def)
qed

end
