(* ===== verification/CAS_Loop.thy ===== *)
theory CAS_Loop
  imports Go_Prelude
begin

text \<open>
  The lock-free update loop that every compound method of a backend is written as
  (\<open>internal/backend/backend.go\<close>): load the cell, decide from the value whether to return
  or to replace it, and start again when the \<open>CompareAndSwap\<close> loses. A loop is given by
  its body. The theory runs bodies with no contention (\<open>run_once\<close>) and, for the
  concurrency results, as the threads of a small-step system over one shared cell.
\<close>

section \<open>Loop bodies\<close>

text \<open>
  \<open>Done r\<close>: return without writing. \<open>TryCAS v r\<close>: try to replace the loaded
  value by \<open>v\<close>; return \<open>r\<close> when that succeeds, retry from the load otherwise.
\<close>

datatype ('v, 'r) attempt = Done 'r | TryCAS 'v 'r

definition run_once :: "('v \<Rightarrow> ('v, 'r) attempt) \<Rightarrow> 'v \<Rightarrow> 'v \<times> 'r" where
  "run_once body v = (case body v of Done r \<Rightarrow> (v, r) | TryCAS v' r \<Rightarrow> (v', r))"

lemma run_once_simps [simp]:
  "body v = Done r \<Longrightarrow> run_once body v = (v, r)"
  "body v = TryCAS v' r \<Longrightarrow> run_once body v = (v', r)"
  by (simp_all add: run_once_def)

section \<open>Threads on one cell\<close>

text \<open>
  The cell's successive values are \<open>versions\<close>, the current one last, and its stamp is
  their number less one. A thread is idle, at the top of an operation's loop (with the stamp at
  the call), or has loaded a value (with that value's stamp). The system remembers the
  operations whose \<open>CompareAndSwap\<close> won, in order (\<open>writes\<close>), and all that have
  returned (\<open>returns\<close>: operation, clock reading, stamp at the call, stamp of the value it
  was decided on, result).
\<close>

datatype ('op, 'v) cas_pc = Idle | Top 'op nat | Loaded 'op nat nat 'v

record ('op, 'v, 'r) cas_sys =
  versions :: "'v list"
  pc :: "nat \<Rightarrow> ('op, 'v) cas_pc"
  writes :: "('op \<times> instant \<times> 'r) list"
  returns :: "('op \<times> instant \<times> nat \<times> nat \<times> 'r) list"

definition stamp :: "('op, 'v, 'r) cas_sys \<Rightarrow> nat" where
  "stamp \<sigma> = length (versions \<sigma>) - 1"

definition current :: "('op, 'v, 'r) cas_sys \<Rightarrow> 'v" where
  "current \<sigma> = last (versions \<sigma>)"

definition cas_init :: "'v \<Rightarrow> ('op, 'v, 'r) cas_sys" where
  "cas_init v = \<lparr>versions = [v], pc = (\<lambda>t. Idle), writes = [], returns = []\<rparr>"

text \<open>
  \<open>body op now v\<close> is the loop body of \<open>op\<close> when the clock it reads shows
  \<open>now\<close>; \<open>matches\<close> decides whether a \<open>CompareAndSwap\<close> with the loaded
  (stamp, value) succeeds against the current one. Each step is one atomic action of one
  thread; the clock may show anything.
\<close>

inductive cas_step ::
  "('op \<Rightarrow> instant \<Rightarrow> 'v \<Rightarrow> ('v, 'r) attempt) \<Rightarrow> (nat \<times> 'v \<Rightarrow> nat \<times> 'v \<Rightarrow> bool)
     \<Rightarrow> ('op, 'v, 'r) cas_sys \<Rightarrow> ('op, 'v, 'r) cas_sys \<Rightarrow> bool"
  for body matches where
  Call: "pc \<sigma> t = Idle \<Longrightarrow>
    cas_step body matches \<sigma> (\<sigma>\<lparr>pc := (pc \<sigma>)(t := Top op (stamp \<sigma>))\<rparr>)"
| Load: "pc \<sigma> t = Top op c \<Longrightarrow>
    cas_step body matches \<sigma> (\<sigma>\<lparr>pc := (pc \<sigma>)(t := Loaded op c (stamp \<sigma>) (current \<sigma>))\<rparr>)"
| Return: "pc \<sigma> t = Loaded op c s v \<Longrightarrow> body op now v = Done r \<Longrightarrow>
    cas_step body matches \<sigma>
      (\<sigma>\<lparr>pc := (pc \<sigma>)(t := Idle), returns := returns \<sigma> @ [(op, now, c, s, r)]\<rparr>)"
| Swap: "pc \<sigma> t = Loaded op c s v \<Longrightarrow> body op now v = TryCAS v' r \<Longrightarrow>
    matches (s, v) (stamp \<sigma>, current \<sigma>) \<Longrightarrow>
    cas_step body matches \<sigma>
      (\<sigma>\<lparr>pc := (pc \<sigma>)(t := Idle), versions := versions \<sigma> @ [v'],
         writes := writes \<sigma> @ [(op, now, r)],
         returns := returns \<sigma> @ [(op, now, c, stamp \<sigma>, r)]\<rparr>)"
| Retry: "pc \<sigma> t = Loaded op c s v \<Longrightarrow> body op now v = TryCAS v' r \<Longrightarrow>
    \<not> matches (s, v) (stamp \<sigma>, current \<sigma>) \<Longrightarrow>
    cas_step body matches \<sigma> (\<sigma>\<lparr>pc := (pc \<sigma>)(t := Top op c)\<rparr>)"

text \<open>
  The threads with an operation under way, and the atomic actions each still needs at most: one to
  finish when its \<open>CompareAndSwap\<close> would win, two from the top of the loop, three when it is
  bound to lose. A winner can spoil the load of every other busy thread.
\<close>

definition busy :: "('op, 'v, 'r) cas_sys \<Rightarrow> nat set" where
  "busy \<sigma> = {t. pc \<sigma> t \<noteq> Idle}"

definition remaining :: "(nat \<times> 'v \<Rightarrow> nat \<times> 'v \<Rightarrow> bool) \<Rightarrow> ('op, 'v, 'r) cas_sys \<Rightarrow> nat \<Rightarrow> nat" where
  "remaining matches \<sigma> t =
     (case pc \<sigma> t of Idle \<Rightarrow> 0 | Top op c \<Rightarrow> 2
      | Loaded op c s v \<Rightarrow> if matches (s, v) (stamp \<sigma>, current \<sigma>) then 1 else 3)"

definition work :: "(nat \<times> 'v \<Rightarrow> nat \<times> 'v \<Rightarrow> bool) \<Rightarrow> ('op, 'v, 'r) cas_sys \<Rightarrow> nat" where
  "work matches \<sigma> = sum (remaining matches \<sigma>) (busy \<sigma>) + card (busy \<sigma>) * (card (busy \<sigma>) - 1)"

text \<open>A step of an operation under way: no new call.\<close>

definition inner_step where
  "inner_step body matches \<sigma> \<sigma>' \<longleftrightarrow> cas_step body matches \<sigma> \<sigma>' \<and> busy \<sigma>' \<subseteq> busy \<sigma>"

definition cas_reachable where
  "cas_reachable body matches v = {\<sigma>. (cas_step body matches)\<^sup>*\<^sup>* (cas_init v) \<sigma>}"

text \<open>
  A history is linearizable with the stamps as linearization points: the \<open>i\<close>-th winning
  operation takes version \<open>i\<close> to version \<open>i + 1\<close> as its body run once does, and
  every operation that has returned was decided, between its call and its return, on a version
  for which its body run once gives its result, changing nothing or being that version's winner.
\<close>

definition linearized ::
  "('op \<Rightarrow> instant \<Rightarrow> 'v \<Rightarrow> ('v, 'r) attempt) \<Rightarrow> ('op, 'v, 'r) cas_sys \<Rightarrow> bool" where
  "linearized body \<sigma> \<longleftrightarrow>
     length (versions \<sigma>) = length (writes \<sigma>) + 1 \<and>
     (\<forall>i < length (writes \<sigma>). \<forall>op now r. writes \<sigma> ! i = (op, now, r) \<longrightarrow>
        body op now (versions \<sigma> ! i) = TryCAS (versions \<sigma> ! (i + 1)) r) \<and>
     (\<forall>op now c s r. (op, now, c, s, r) \<in> set (returns \<sigma>) \<longrightarrow>
        c \<le> s \<and> s < length (versions \<sigma>) \<and>
        (body op now (versions \<sigma> ! s) = Done r \<or>
         s < length (writes \<sigma>) \<and> writes \<sigma> ! s = (op, now, r)))"

definition threads_ok :: "('op, 'v, 'r) cas_sys \<Rightarrow> bool" where
  "threads_ok \<sigma> \<longleftrightarrow>
     (\<forall>t. case pc \<sigma> t of
            Idle \<Rightarrow> True
          | Top op c \<Rightarrow> c < length (versions \<sigma>)
          | Loaded op c s v \<Rightarrow> c \<le> s \<and> s < length (versions \<sigma>) \<and> versions \<sigma> ! s = v)"

lemma linearized_shape:
  assumes "linearized body \<sigma>"
  shows "length (versions \<sigma>) = length (writes \<sigma>) + 1" "stamp \<sigma> = length (writes \<sigma>)"
    "current \<sigma> = versions \<sigma> ! length (writes \<sigma>)"
proof -
  show l: "length (versions \<sigma>) = length (writes \<sigma>) + 1"
    using assms by (simp add: linearized_def)
  then have "versions \<sigma> \<noteq> []" by auto
  then show "stamp \<sigma> = length (writes \<sigma>)" "current \<sigma> = versions \<sigma> ! length (writes \<sigma>)"
    using l by (simp_all add: stamp_def current_def last_conv_nth)
qed

lemma threads_okD:
  "threads_ok \<sigma> \<Longrightarrow> pc \<sigma> t = Loaded op c s v \<Longrightarrow>
     c \<le> s \<and> s < length (versions \<sigma>) \<and> versions \<sigma> ! s = v"
  "threads_ok \<sigma> \<Longrightarrow> pc \<sigma> t = Top op c \<Longrightarrow> c < length (versions \<sigma>)"
  by (auto simp: threads_ok_def split: cas_pc.splits dest: spec [where x = t])

lemma linearized_swap:
  assumes "linearized body \<sigma>" and "body op now (current \<sigma>) = TryCAS v' r" and "c \<le> stamp \<sigma>"
  shows "linearized body (\<sigma>\<lparr>pc := p, versions := versions \<sigma> @ [v'],
           writes := writes \<sigma> @ [(op, now, r)],
           returns := returns \<sigma> @ [(op, now, c, stamp \<sigma>, r)]\<rparr>)"
proof -
  note sh = linearized_shape [OF assms(1)]
  have old: "c \<le> s \<and> s < length (versions \<sigma> @ [v']) \<and>
        (body op now ((versions \<sigma> @ [v']) ! s) = Done r \<or>
         s < length (writes \<sigma> @ [w]) \<and> (writes \<sigma> @ [w]) ! s = (op, now, r))"
    if "(op, now, c, s, r) \<in> set (returns \<sigma>)" for op now c s r w
  proof -
    have "c \<le> s" "s < length (versions \<sigma>)"
      "body op now (versions \<sigma> ! s) = Done r \<or> s < length (writes \<sigma>) \<and> writes \<sigma> ! s = (op, now, r)"
      using that assms(1) unfolding linearized_def by blast+
    then show ?thesis by (auto simp: nth_append)
  qed
  have w: "\<And>i. i < length (writes \<sigma>) \<Longrightarrow> writes \<sigma> ! i = (op', now', r') \<Longrightarrow>
      body op' now' (versions \<sigma> ! i) = TryCAS (versions \<sigma> ! (i + 1)) r'" for op' now' r'
    using assms(1) unfolding linearized_def by blast
  show ?thesis
    unfolding linearized_def
    using old w assms(2,3) sh by (auto simp: nth_append less_Suc_eq)
qed

text \<open>One operation run by itself from start to end.\<close>

definition solo ::
  "('op \<Rightarrow> instant \<Rightarrow> 'v \<Rightarrow> ('v, 'r) attempt) \<Rightarrow> ('op, 'v, 'r) cas_sys \<Rightarrow> 'op \<times> instant
     \<Rightarrow> ('op, 'v, 'r) cas_sys" where
  "solo body \<sigma> x =
     (case body (fst x) (snd x) (current \<sigma>) of
        Done r \<Rightarrow> \<sigma>\<lparr>returns := returns \<sigma> @ [(fst x, snd x, stamp \<sigma>, stamp \<sigma>, r)]\<rparr>
      | TryCAS v' r \<Rightarrow>
          \<sigma>\<lparr>versions := versions \<sigma> @ [v'], writes := writes \<sigma> @ [(fst x, snd x, r)],
            returns := returns \<sigma> @ [(fst x, snd x, stamp \<sigma>, stamp \<sigma>, r)]\<rparr>)"

text \<open>Replaying the winners in order gives the current value.\<close>

definition replay ::
  "('op \<Rightarrow> instant \<Rightarrow> 'v \<Rightarrow> ('v, 'r) attempt) \<Rightarrow> ('op \<times> instant \<times> 'r) list \<Rightarrow> 'v \<Rightarrow> 'v" where
  "replay body ws v = fold (\<lambda>(op, now, r) v. fst (run_once (body op now) v)) ws v"

lemma linearized_replay:
  assumes "linearized body \<sigma>"
  shows "current \<sigma> = replay body (writes \<sigma>) (versions \<sigma> ! 0)"
proof -
  have "replay body (take n (writes \<sigma>)) (versions \<sigma> ! 0) = versions \<sigma> ! n"
    if "n \<le> length (writes \<sigma>)" for n
    using that
  proof (induction n)
    case (Suc n)
    obtain op now r where w: "writes \<sigma> ! n = (op, now, r)" by (cases "writes \<sigma> ! n") auto
    have "body op now (versions \<sigma> ! n) = TryCAS (versions \<sigma> ! (n + 1)) r"
      using assms Suc.prems w unfolding linearized_def by auto
    with Suc w show ?case by (simp add: replay_def take_Suc_conv_app_nth)
  qed (simp add: replay_def)
  from this [of "length (writes \<sigma>)"] show ?thesis by (simp add: linearized_shape [OF assms])
qed

text \<open>
  The contract of \<open>CompareAndSwap\<close>: it may only succeed when the current value is the one
  that was loaded, and it does succeed when nothing has been written since. A pointer cell
  compares addresses, which name one written snapshot each; an integer cell compares values.
\<close>

locale cas_cell =
  fixes matches :: "nat \<times> 'v \<Rightarrow> nat \<times> 'v \<Rightarrow> bool"
  assumes matches_value: "matches (s, v) (s', v') \<Longrightarrow> (s = s' \<longrightarrow> v = v') \<Longrightarrow> v = v'"
    and matches_unchanged: "matches (s, v) (s, v)"
begin

lemma step_invariant:
  assumes "cas_step body matches \<sigma> \<sigma>'" and "linearized body \<sigma>" and "threads_ok \<sigma>"
  shows "linearized body \<sigma>' \<and> threads_ok \<sigma>'"
  using assms
proof (cases rule: cas_step.cases)
  case (Swap t op c s v now v' r)
  note sh = linearized_shape [OF assms(2)]
  have t: "c \<le> s" "s < length (versions \<sigma>)" "versions \<sigma> ! s = v"
    using threads_okD(1) [OF assms(3) Swap(2)] by auto
  have "v = current \<sigma>"
    by (rule matches_value [OF Swap(4)]) (use t sh in auto)
  then have "linearized body \<sigma>'"
    unfolding Swap(1) using Swap(3) t sh by (intro linearized_swap [OF assms(2)]) auto
  moreover have "threads_ok \<sigma>'"
    using assms(3) unfolding Swap(1) threads_ok_def
    by (auto simp: nth_append less_SucI split: cas_pc.splits)
  ultimately show ?thesis by blast
next
  case (Call t op)
  have "0 < length (versions \<sigma>)" using assms(2) by (simp add: linearized_def)
  then show ?thesis using assms(2,3) unfolding Call(1)
    by (auto simp: linearized_def threads_ok_def stamp_def split: cas_pc.splits)
next
  case (Load t op c)
  note sh = linearized_shape [OF assms(2)]
  have "c < length (versions \<sigma>)" by (rule threads_okD(2) [OF assms(3) Load(2)])
  then show ?thesis using assms(2,3) sh unfolding Load(1)
    by (auto simp: linearized_def threads_ok_def split: cas_pc.splits)
next
  case (Return t op c s v now r)
  have "c \<le> s \<and> s < length (versions \<sigma>) \<and> versions \<sigma> ! s = v"
    by (rule threads_okD(1) [OF assms(3) Return(2)])
  then show ?thesis using assms(2,3) Return(3) unfolding Return(1)
    by (auto simp: linearized_def threads_ok_def split: cas_pc.splits)
next
  case (Retry t op c s v now v' r)
  have "c \<le> s \<and> s < length (versions \<sigma>)"
    using threads_okD(1) [OF assms(3) Retry(2)] by auto
  then show ?thesis using assms(2,3) unfolding Retry(1)
    by (auto simp: linearized_def threads_ok_def split: cas_pc.splits)
qed

lemma reachable_invariant:
  assumes "\<sigma> \<in> cas_reachable body matches v"
  shows "linearized body \<sigma> \<and> threads_ok \<sigma> \<and> versions \<sigma> ! 0 = v"
proof -
  have "(cas_step body matches)\<^sup>*\<^sup>* (cas_init v) \<sigma>" using assms by (simp add: cas_reachable_def)
  then show ?thesis
  proof (induction rule: rtranclp_induct)
    case base
    show ?case by (simp add: cas_init_def linearized_def threads_ok_def)
  next
    case (step \<sigma> \<sigma>')
    have ne: "versions \<sigma> \<noteq> []" using step.IH by (auto simp: linearized_def)
    have "versions \<sigma>' ! 0 = v"
      using step.hyps(2)
      by (cases rule: cas_step.cases) (use ne step.IH in \<open>auto simp: nth_append\<close>)
    with step show ?case using step_invariant by blast
  qed
qed

text \<open>If no operation returns without writing, the winners are exactly the returned ones.\<close>

lemma writers_return:
  assumes "\<sigma> \<in> cas_reachable body matches v" and "\<And>op now v. \<exists>v' r. body op now v = TryCAS v' r"
  shows "map (\<lambda>(op, now, c, s, r). (op, now, r)) (returns \<sigma>) = writes \<sigma>"
proof -
  have "(cas_step body matches)\<^sup>*\<^sup>* (cas_init v) \<sigma>" using assms(1) by (simp add: cas_reachable_def)
  then show ?thesis
  proof (induction rule: rtranclp_induct)
    case base
    show ?case by (simp add: cas_init_def)
  next
    case (step \<sigma> \<sigma>')
    show ?case
      using step.hyps(2)
    proof (cases rule: cas_step.cases)
      case (Return t op c s v now r)
      with assms(2) [of op now v] show ?thesis by auto
    qed (use step.IH in auto)
  qed
qed

lemma solo_reachable:
  assumes "\<sigma> \<in> cas_reachable body matches v" and "\<forall>t. pc \<sigma> t = Idle"
  shows "solo body \<sigma> (op, now) \<in> cas_reachable body matches v
       \<and> (\<forall>t. pc (solo body \<sigma> (op, now)) t = Idle)"
proof -
  define \<sigma>1 where "\<sigma>1 = \<sigma>\<lparr>pc := (pc \<sigma>)(0 := Top op (stamp \<sigma>))\<rparr>"
  define \<sigma>2 where "\<sigma>2 = \<sigma>1\<lparr>pc := (pc \<sigma>1)(0 := Loaded op (stamp \<sigma>) (stamp \<sigma>1) (current \<sigma>1))\<rparr>"
  have 1: "cas_step body matches \<sigma> \<sigma>1" unfolding \<sigma>1_def using assms(2) by (intro Call) auto
  have 2: "cas_step body matches \<sigma>1 \<sigma>2" unfolding \<sigma>2_def by (rule Load) (simp add: \<sigma>1_def)
  have c: "stamp \<sigma>1 = stamp \<sigma>" "stamp \<sigma>2 = stamp \<sigma>" "current \<sigma>1 = current \<sigma>" "current \<sigma>2 = current \<sigma>"
    by (simp_all add: \<sigma>1_def \<sigma>2_def stamp_def current_def)
  have pc2: "pc \<sigma>2 0 = Loaded op (stamp \<sigma>) (stamp \<sigma>) (current \<sigma>)" by (simp add: \<sigma>2_def c)
  have idle: "(pc \<sigma>2)(0 := Idle) = pc \<sigma>" using assms(2) by (auto simp: \<sigma>2_def \<sigma>1_def)
  have 3: "cas_step body matches \<sigma>2 (solo body \<sigma> (op, now))"
  proof (cases "body op now (current \<sigma>)")
    case (Done r)
    from Return [where body = body and matches = matches and \<sigma> = \<sigma>2, OF pc2 this] Done
    show ?thesis by (simp add: solo_def idle) (simp add: \<sigma>2_def \<sigma>1_def)
  next
    case (TryCAS v' r)
    from Swap [where body = body and matches = matches and \<sigma> = \<sigma>2, OF pc2 this] TryCAS
    show ?thesis by (simp add: solo_def idle c matches_unchanged) (simp add: \<sigma>2_def \<sigma>1_def)
  qed
  have "solo body \<sigma> (op, now) \<in> cas_reachable body matches v"
    using assms(1) 1 2 3 unfolding cas_reachable_def by simp
  then show ?thesis using assms(2) by (simp add: solo_def split: attempt.splits)
qed

lemma solo_runs: "foldl (solo body) (cas_init v) ops \<in> cas_reachable body matches v"
proof -
  have "foldl (solo body) (cas_init v) ops \<in> cas_reachable body matches v
      \<and> (\<forall>t. pc (foldl (solo body) (cas_init v) ops) t = Idle)"
  proof (induction ops rule: rev_induct)
    case Nil
    show ?case by (simp add: cas_reachable_def cas_init_def)
  next
    case (snoc x ops)
    obtain op now where "x = (op, now)" by (cases x)
    then show ?case
      using solo_reachable [OF conjunct1 conjunct2, OF snoc.IH snoc.IH, of op now] by simp
  qed
  then show ?thesis by blast
qed

text \<open>
  Without new calls every step brings the work down, so all operations under way return; none is
  ever stuck.
\<close>

lemma inner_step_work:
  assumes "inner_step body matches \<sigma> \<sigma>'" and fin: "finite (busy \<sigma>)"
  shows "work matches \<sigma>' < work matches \<sigma>"
proof -
  have st: "cas_step body matches \<sigma> \<sigma>'" and sub: "busy \<sigma>' \<subseteq> busy \<sigma>"
    using assms(1) by (auto simp: inner_step_def)
  have other: "sum (remaining matches \<sigma>') (busy \<sigma> - {t}) = sum (remaining matches \<sigma>) (busy \<sigma> - {t})"
    if "\<forall>u. u \<noteq> t \<longrightarrow> pc \<sigma>' u = pc \<sigma> u" "versions \<sigma>' = versions \<sigma>" for t
  proof -
    have "stamp \<sigma>' = stamp \<sigma>" "current \<sigma>' = current \<sigma>" using that(2) by (simp_all add: stamp_def current_def)
    then show ?thesis using that(1) by (intro sum.cong) (auto simp: remaining_def split: cas_pc.split)
  qed
  have split: "sum (remaining matches \<sigma>) (busy \<sigma>) = remaining matches \<sigma> t + sum (remaining matches \<sigma>) (busy \<sigma> - {t})"
    if "t \<in> busy \<sigma>" for t
    using fin that by (rule sum.remove)
  have stay: "work matches \<sigma>' < work matches \<sigma>"
    if "t \<in> busy \<sigma>" "busy \<sigma>' = busy \<sigma>" "\<forall>u. u \<noteq> t \<longrightarrow> pc \<sigma>' u = pc \<sigma> u" "versions \<sigma>' = versions \<sigma>"
      "remaining matches \<sigma>' t < remaining matches \<sigma> t" for t
    using that split [OF that(1)] other [OF that(3,4)] sum.remove [OF fin that(1), of "remaining matches \<sigma>'"]
    by (simp add: work_def)
  have leave: "work matches \<sigma>' < work matches \<sigma>"
    if t: "t \<in> busy \<sigma>" "busy \<sigma>' = busy \<sigma> - {t}" "0 < remaining matches \<sigma> t"
      and le: "sum (remaining matches \<sigma>') (busy \<sigma> - {t}) \<le>
        sum (remaining matches \<sigma>) (busy \<sigma> - {t}) + 2 * card (busy \<sigma> - {t})" for t
  proof -
    define n where "n = card (busy \<sigma> - {t})"
    have n: "card (busy \<sigma>) = Suc n" using card_Suc_Diff1 [OF fin t(1)] by (simp only: n_def)
    have "n * (n - 1) + 2 * n = Suc n * n" by (cases n) (simp_all add: algebra_simps)
    then show ?thesis using split [OF t(1)] le t(2,3) by (simp add: work_def n n_def [symmetric])
  qed
  show ?thesis
    using st
  proof (cases rule: cas_step.cases)
    case (Call t op)
    then have "t \<in> busy \<sigma>'" "t \<notin> busy \<sigma>" by (auto simp: busy_def)
    then show ?thesis using sub by auto
  next
    case (Load t op c)
    show ?thesis
      by (rule stay [of t]) (use Load in \<open>auto simp: busy_def remaining_def stamp_def current_def matches_unchanged\<close>)
  next
    case (Retry t op c s v now v' r)
    show ?thesis
      by (rule stay [of t]) (use Retry in \<open>auto simp: busy_def remaining_def stamp_def current_def\<close>)
  next
    case (Return t op c s v now r)
    have "sum (remaining matches \<sigma>') (busy \<sigma> - {t}) = sum (remaining matches \<sigma>) (busy \<sigma> - {t})"
      by (rule other) (use Return in auto)
    then show ?thesis by (intro leave [of t]) (use Return in \<open>auto simp: busy_def remaining_def\<close>)
  next
    case (Swap t op c s v now v' r)
    have "remaining matches \<sigma>' u \<le> remaining matches \<sigma> u + 2" if "u \<in> busy \<sigma> - {t}" for u
      using that Swap by (auto simp: busy_def remaining_def split: cas_pc.splits)
    then have "sum (remaining matches \<sigma>') (busy \<sigma> - {t}) \<le> (\<Sum>u \<in> busy \<sigma> - {t}. remaining matches \<sigma> u + 2)"
      by (rule sum_mono)
    also have "\<dots> = sum (remaining matches \<sigma>) (busy \<sigma> - {t}) + 2 * card (busy \<sigma> - {t})"
      by (simp only: sum.distrib sum_constant) simp
    finally show ?thesis by (intro leave [of t]) (use Swap in \<open>auto simp: busy_def remaining_def\<close>)
  qed
qed

lemma inner_steps_bound:
  assumes "(inner_step body matches ^^ k) \<sigma> \<sigma>'" and fin: "finite (busy \<sigma>)"
  shows "k \<le> card (busy \<sigma>) * (card (busy \<sigma>) + 2)" "finite (busy \<sigma>')"
proof -
  have "work matches \<sigma>' + k \<le> work matches \<sigma> \<and> finite (busy \<sigma>')"
    using assms(1)
  proof (induction k arbitrary: \<sigma>')
    case (Suc k)
    then obtain \<sigma>1 where 1: "(inner_step body matches ^^ k) \<sigma> \<sigma>1" "inner_step body matches \<sigma>1 \<sigma>'" by auto
    have "finite (busy \<sigma>')"
      using Suc.IH [OF 1(1)] 1(2) unfolding inner_step_def by (blast intro: finite_subset)
    then show ?case using Suc.IH [OF 1(1)] inner_step_work [OF 1(2)] by auto
  qed (use fin in simp)
  moreover have "work matches \<sigma> \<le> card (busy \<sigma>) * (card (busy \<sigma>) + 2)"
  proof -
    have "sum (remaining matches \<sigma>) (busy \<sigma>) \<le> card (busy \<sigma>) * 3"
      using sum_bounded_above [of "busy \<sigma>" "remaining matches \<sigma>" 3] by (auto simp: remaining_def split: cas_pc.splits)
    moreover have "n * 3 + n * (n - 1) = n * (n + 2)" for n :: nat by (cases n) (simp_all add: algebra_simps)
    ultimately show ?thesis unfolding work_def by (metis add_le_mono1)
  qed
  ultimately show "k \<le> card (busy \<sigma>) * (card (busy \<sigma>) + 2)" "finite (busy \<sigma>')" by simp_all
qed

lemma inner_step_exists:
  assumes "busy \<sigma> \<noteq> {}"
  shows "\<exists>\<sigma>'. inner_step body matches \<sigma> \<sigma>'"
proof -
  obtain t where t: "pc \<sigma> t \<noteq> Idle" using assms by (auto simp: busy_def)
  show ?thesis
  proof (cases "pc \<sigma> t")
    case (Top op c)
    from Load [OF this, where body = body and matches = matches] t show ?thesis
      by (intro exI) (auto simp: inner_step_def busy_def split: if_splits)
  next
    case (Loaded op c s v)
    show ?thesis
    proof (cases "body op 0 v")
      case (Done r)
      from Return [where body = body and matches = matches, OF Loaded this] t show ?thesis
        by (intro exI) (auto simp: inner_step_def busy_def split: if_splits)
    next
      case (TryCAS v' r)
      from Swap [where body = body and matches = matches, OF Loaded this]
        Retry [where body = body and matches = matches, OF Loaded this] t
      show ?thesis unfolding inner_step_def
        by (cases "matches (s, v) (stamp \<sigma>, current \<sigma>)") (fastforce simp: busy_def split: if_splits)+
    qed
  qed (use t in simp)
qed

text \<open>A lost race means that another thread has written since the load: the loop is lock-free.\<close>

lemma retry_only_after_write:
  assumes "\<sigma> \<in> cas_reachable body matches v0" and "pc \<sigma> t = Loaded op c s v"
    and "\<not> matches (s, v) (stamp \<sigma>, current \<sigma>)"
  shows "s < stamp \<sigma>"
proof (rule ccontr)
  assume "\<not> s < stamp \<sigma>"
  moreover have inv: "linearized body \<sigma>" "threads_ok \<sigma>" using reachable_invariant [OF assms(1)] by auto
  ultimately have "s = stamp \<sigma>" "v = current \<sigma>"
    using threads_okD(1) [OF inv(2) assms(2)] linearized_shape [OF inv(1)]
    by (auto simp: less_Suc_eq)
  with assms(3) matches_unchanged show False by simp
qed

end

definition same_pointer :: "nat \<times> 'v \<Rightarrow> nat \<times> 'v \<Rightarrow> bool" where
  "same_pointer a b \<longleftrightarrow> fst a = fst b"

definition same_value :: "nat \<times> 'v \<Rightarrow> nat \<times> 'v \<Rightarrow> bool" where
  "same_value a b \<longleftrightarrow> snd a = snd b"

interpretation pointer_cell: cas_cell same_pointer
  by unfold_locales (auto simp: same_pointer_def)

interpretation value_cell: cas_cell same_value
  by unfold_locales (auto simp: same_value_def)

end
