(* ===== verification/Backend.thy ===== *)
theory Backend
  imports Config_Validate Float64 CAS_Loop
begin

text \<open>
  One upstream server, \<open>internal/backend/backend.go\<close>. Every field that the Go type
  keeps in an \<open>atomic\<close> is a field of the record; a method is a function on the record.
  The retry loops around \<open>CompareAndSwap\<close> are written as their bodies (theory
  \<open>CAS_Loop\<close>); a method called with no contention is the body run once, and
  \<open>Circuit_Concurrent\<close> shows that contention changes nothing else. Instants read from the
  clock are arguments.
\<close>

section \<open>State\<close>

datatype circuitState = circuitClosed | circuitOpen | circuitHalfOpen

record circuitSnapshot =
  state :: circuitState
  failures :: int
  trial :: bool
  openedAt :: instant

text \<open>The Go zero value, and what a \<open>nil\<close> pointer is read as.\<close>

definition zeroSnapshot :: circuitSnapshot where
  "zeroSnapshot = \<lparr>state = circuitClosed, failures = 0, trial = False, openedAt = 0\<rparr>"

definition deref_snapshot :: "circuitSnapshot option \<Rightarrow> circuitSnapshot" where
  "deref_snapshot p = (case p of None \<Rightarrow> zeroSnapshot | Some s \<Rightarrow> s)"

datatype CircuitTransition = CircuitNoChange | CircuitOpened | CircuitReopened | CircuitClosed
  | CircuitHalfOpened

datatype cancel_cause = ErrDrainWindowExpired

text \<open>
  \<open>retiredCtx\<close> is \<open>None\<close> for a backend built without one; otherwise it is the
  context's cause, \<open>None\<close> while it is not cancelled.
\<close>

record backend =
  Name :: string
  URL :: url
  healthy :: bool
  active :: int
  latencyEWMA :: int
  circuit :: "circuitSnapshot option"
  removed :: bool
  retiredCtx :: "cancel_cause option option"

section \<open>Health, active connections, removal\<close>

definition IsHealthy :: "backend \<Rightarrow> bool" where
  "IsHealthy b = healthy b"

definition MarkHealthy :: "backend \<Rightarrow> backend" where
  "MarkHealthy b = b\<lparr>healthy := True\<rparr>"

definition MarkUnhealthy :: "backend \<Rightarrow> backend" where
  "MarkUnhealthy b = b\<lparr>healthy := False\<rparr>"

definition IncActive :: "backend \<Rightarrow> backend" where
  "IncActive b = b\<lparr>active := wrap64 (active b + 1)\<rparr>"

definition DecActive :: "backend \<Rightarrow> backend" where
  "DecActive b = b\<lparr>active := wrap64 (active b + (- 1))\<rparr>"

definition ActiveConns :: "backend \<Rightarrow> int" where
  "ActiveConns b = active b"

definition markRemoved :: "backend \<Rightarrow> backend" where
  "markRemoved b = b\<lparr>removed := True\<rparr>"

definition IsRemoved :: "backend \<Rightarrow> bool" where
  "IsRemoved b = removed b"

text \<open>A cancelled context keeps its first cause.\<close>

definition Retire :: "backend \<Rightarrow> backend" where
  "Retire b =
     (case retiredCtx b of
        None \<Rightarrow> b
      | Some None \<Rightarrow> b\<lparr>retiredCtx := Some (Some ErrDrainWindowExpired)\<rparr>
      | Some (Some cause) \<Rightarrow> b)"

text \<open>The cause of \<open>RetiredContext()\<close>; the background context is never cancelled.\<close>

definition RetiredContext :: "backend \<Rightarrow> cancel_cause option" where
  "RetiredContext b = (case retiredCtx b of None \<Rightarrow> None | Some c \<Rightarrow> c)"

section \<open>Latency\<close>

definition ewmaAlpha :: rat where "ewmaAlpha = 1 / 10"

text \<open>
  The constants \<open>ewmaAlpha\<close> and \<open>1-ewmaAlpha\<close> are exact until they meet a
  \<open>float64\<close> operand; each of the three operations rounds.
\<close>

definition ewma_blend :: "duration \<Rightarrow> int \<Rightarrow> int" where
  "ewma_blend d old =
     f64_to_int64 (f64 (f64 (f64 ewmaAlpha * f64_of_int64 d) +
                        f64 (f64 (1 - ewmaAlpha) * f64_of_int64 old)))"

definition RecordLatency_body :: "duration \<Rightarrow> int \<Rightarrow> (int, unit) attempt" where
  "RecordLatency_body d old =
     (let next = (if old = 0 then d else ewma_blend d old) in TryCAS next ())"

definition RecordLatency :: "duration \<Rightarrow> backend \<Rightarrow> backend" where
  "RecordLatency d b = b\<lparr>latencyEWMA := fst (run_once (RecordLatency_body d) (latencyEWMA b))\<rparr>"

definition EWMALatency :: "backend \<Rightarrow> duration" where
  "EWMALatency b = latencyEWMA b"

section \<open>The circuit\<close>

definition currentCircuit_body ::
  "duration \<Rightarrow> instant \<Rightarrow> circuitSnapshot option
     \<Rightarrow> (circuitSnapshot option, circuitSnapshot \<times> bool) attempt" where
  "currentCircuit_body cooldown now old =
     (let cur = deref_snapshot old
      in if state cur \<noteq> circuitOpen \<or> time_since now (openedAt cur) < cooldown
         then Done (cur, False)
         else let next = zeroSnapshot\<lparr>state := circuitHalfOpen\<rparr>
              in TryCAS (Some next) (next, True))"

definition CircuitAllow_body ::
  "circuitSnapshot option \<Rightarrow> (circuitSnapshot option, bool) attempt" where
  "CircuitAllow_body old =
     (let cur = deref_snapshot old
      in case state cur of
           circuitOpen \<Rightarrow> Done False
         | circuitHalfOpen \<Rightarrow>
             if trial cur then Done False
             else TryCAS (Some (cur\<lparr>trial := True\<rparr>)) True
         | circuitClosed \<Rightarrow> Done True)"

definition RearmTrial_body ::
  "circuitSnapshot option \<Rightarrow> (circuitSnapshot option, unit) attempt" where
  "RearmTrial_body old =
     (case old of
        None \<Rightarrow> Done ()
      | Some s \<Rightarrow>
          if state s \<noteq> circuitHalfOpen \<or> \<not> trial s then Done ()
          else TryCAS (Some (s\<lparr>trial := False\<rparr>)) ())"

definition CircuitSuccess_body ::
  "circuitSnapshot option \<Rightarrow> (circuitSnapshot option, CircuitTransition) attempt" where
  "CircuitSuccess_body old =
     (if old \<noteq> None \<and> state (the old) = circuitOpen then Done CircuitNoChange
      else let closedFromTrial = (old \<noteq> None \<and> state (the old) = circuitHalfOpen);
               next = zeroSnapshot\<lparr>state := circuitClosed\<rparr>
           in TryCAS (Some next) (if closedFromTrial then CircuitClosed else CircuitNoChange))"

definition CircuitFailure_body ::
  "int \<Rightarrow> instant \<Rightarrow> circuitSnapshot option
     \<Rightarrow> (circuitSnapshot option, CircuitTransition) attempt" where
  "CircuitFailure_body threshold now old =
     (let cur = deref_snapshot old
      in case state cur of
           circuitOpen \<Rightarrow> Done CircuitNoChange
         | circuitHalfOpen \<Rightarrow>
             TryCAS (Some (zeroSnapshot\<lparr>state := circuitOpen, openedAt := now\<rparr>)) CircuitReopened
         | circuitClosed \<Rightarrow>
             if failures cur + 1 \<ge> threshold
             then TryCAS (Some (zeroSnapshot\<lparr>state := circuitOpen, openedAt := now\<rparr>)) CircuitOpened
             else TryCAS (Some (cur\<lparr>failures := wrap32 (failures cur + 1)\<rparr>)) CircuitNoChange)"

text \<open>The methods with no contention: each loop's body runs once.\<close>

definition on_circuit ::
  "(circuitSnapshot option \<Rightarrow> (circuitSnapshot option, 'r) attempt) \<Rightarrow> backend \<Rightarrow> backend \<times> 'r" where
  "on_circuit body b =
     (let (c, r) = run_once body (circuit b) in (b\<lparr>circuit := c\<rparr>, r))"

definition currentCircuit ::
  "duration \<Rightarrow> instant \<Rightarrow> backend \<Rightarrow> backend \<times> circuitSnapshot \<times> bool" where
  "currentCircuit cooldown now = on_circuit (currentCircuit_body cooldown now)"

definition CircuitOpen :: "duration \<Rightarrow> instant \<Rightarrow> backend \<Rightarrow> backend \<times> bool" where
  "CircuitOpen cooldown now b =
     (let (b', cur, promoted) = currentCircuit cooldown now b in (b', state cur = circuitOpen))"

definition CircuitAllow ::
  "duration \<Rightarrow> instant \<Rightarrow> backend \<Rightarrow> backend \<times> bool \<times> CircuitTransition" where
  "CircuitAllow cooldown now b =
     (let (b1, cur, promoted) = currentCircuit cooldown now b;
          transition = (if promoted then CircuitHalfOpened else CircuitNoChange);
          (b2, allowed) = on_circuit CircuitAllow_body b1
      in (b2, allowed, transition))"

definition RearmTrial :: "backend \<Rightarrow> backend" where
  "RearmTrial b = fst (on_circuit RearmTrial_body b)"

definition CircuitSuccess :: "backend \<Rightarrow> backend \<times> CircuitTransition" where
  "CircuitSuccess = on_circuit CircuitSuccess_body"

definition CircuitFailure :: "int \<Rightarrow> instant \<Rightarrow> backend \<Rightarrow> backend \<times> CircuitTransition" where
  "CircuitFailure threshold now = on_circuit (CircuitFailure_body threshold now)"

section \<open>Frames\<close>

lemmas backend_ops =
  MarkHealthy_def MarkUnhealthy_def IncActive_def DecActive_def markRemoved_def RecordLatency_def

lemma Retire_fields [simp]:
  "Name (Retire b) = Name b" "URL (Retire b) = URL b" "healthy (Retire b) = healthy b"
  "active (Retire b) = active b" "latencyEWMA (Retire b) = latencyEWMA b"
  "circuit (Retire b) = circuit b" "removed (Retire b) = removed b"
  by (simp_all add: Retire_def split: option.splits)

lemma on_circuit_fst [simp]:
  "fst (on_circuit body b) = b\<lparr>circuit := fst (run_once body (circuit b))\<rparr>"
  by (simp add: on_circuit_def split: prod.splits)

lemma on_circuit_snd [simp]: "snd (on_circuit body b) = snd (run_once body (circuit b))"
  by (simp add: on_circuit_def split: prod.splits)

lemma CircuitOpen_eq:
  "CircuitOpen cd now b =
     (b\<lparr>circuit := fst (run_once (currentCircuit_body cd now) (circuit b))\<rparr>,
      state (fst (snd (run_once (currentCircuit_body cd now) (circuit b)))) = circuitOpen)"
  by (simp add: CircuitOpen_def currentCircuit_def on_circuit_def split: prod.splits)

lemma CircuitAllow_eq:
  "CircuitAllow cd now b =
     (let p = run_once (currentCircuit_body cd now) (circuit b); a = run_once CircuitAllow_body (fst p)
      in (b\<lparr>circuit := fst a\<rparr>, snd a,
          if snd (snd p) then CircuitHalfOpened else CircuitNoChange))"
  by (auto simp: CircuitAllow_def currentCircuit_def on_circuit_def Let_def split: prod.splits)

text \<open>The circuit methods touch nothing but the circuit.\<close>

lemma circuit_frame [frame]:
  "\<exists>c. fst (CircuitOpen cd now b) = b\<lparr>circuit := c\<rparr>"
  "\<exists>c. fst (CircuitAllow cd now b) = b\<lparr>circuit := c\<rparr>"
  "\<exists>c. RearmTrial b = b\<lparr>circuit := c\<rparr>"
  "\<exists>c. fst (CircuitSuccess b) = b\<lparr>circuit := c\<rparr>"
  "\<exists>c. fst (CircuitFailure th now b) = b\<lparr>circuit := c\<rparr>"
  by (auto simp: CircuitOpen_eq CircuitAllow_eq RearmTrial_def CircuitSuccess_def
      CircuitFailure_def Let_def split: prod.splits)

section \<open>The circuit as a three-state machine\<close>

text \<open>
  What the comments promise of a circuit, without the snapshot's redundant fields: a closed
  circuit counts consecutive failures, an open one knows since when, a half-open one whether
  its trial is out.
\<close>

datatype breaker_state = Closed nat | Open instant | HalfOpen bool

definition abs_snapshot :: "circuitSnapshot \<Rightarrow> breaker_state" where
  "abs_snapshot s =
     (case state s of circuitClosed \<Rightarrow> Closed (nat (failures s))
      | circuitOpen \<Rightarrow> Open (openedAt s) | circuitHalfOpen \<Rightarrow> HalfOpen (trial s))"

definition abs_circuit :: "circuitSnapshot option \<Rightarrow> breaker_state" where
  "abs_circuit c = abs_snapshot (deref_snapshot c)"

fun spec_promote :: "duration \<Rightarrow> instant \<Rightarrow> breaker_state \<Rightarrow> breaker_state" where
  "spec_promote cd now (Open t) = (if time_since now t < cd then Open t else HalfOpen False)"
| "spec_promote cd now s = s"

fun spec_admit :: "breaker_state \<Rightarrow> breaker_state \<times> bool" where
  "spec_admit (Closed n) = (Closed n, True)"
| "spec_admit (Open t) = (Open t, False)"
| "spec_admit (HalfOpen taken) = (HalfOpen True, \<not> taken)"

fun spec_rearm :: "breaker_state \<Rightarrow> breaker_state" where
  "spec_rearm (HalfOpen taken) = HalfOpen False"
| "spec_rearm s = s"

fun spec_success :: "breaker_state \<Rightarrow> breaker_state \<times> CircuitTransition" where
  "spec_success (Closed n) = (Closed 0, CircuitNoChange)"
| "spec_success (Open t) = (Open t, CircuitNoChange)"
| "spec_success (HalfOpen taken) = (Closed 0, CircuitClosed)"

fun spec_failure :: "nat \<Rightarrow> instant \<Rightarrow> breaker_state \<Rightarrow> breaker_state \<times> CircuitTransition" where
  "spec_failure th now (Closed n) =
     (if n + 1 \<ge> th then (Open now, CircuitOpened) else (Closed (n + 1), CircuitNoChange))"
| "spec_failure th now (Open t) = (Open t, CircuitNoChange)"
| "spec_failure th now (HalfOpen taken) = (Open now, CircuitReopened)"

text \<open>
  The snapshots the methods build: only a closed one counts, only a half-open one has a trial,
  and the count stays below the threshold (itself an \<open>int32\<close> value).
\<close>

definition circuit_wf :: "nat \<Rightarrow> circuitSnapshot option \<Rightarrow> bool" where
  "circuit_wf th c \<longleftrightarrow>
     (let s = deref_snapshot c
      in case state s of
           circuitClosed \<Rightarrow> \<not> trial s \<and> 0 \<le> failures s \<and> (failures s = 0 \<or> failures s < int th)
         | circuitOpen \<Rightarrow> \<not> trial s \<and> failures s = 0
         | circuitHalfOpen \<Rightarrow> failures s = 0)"

lemmas circuit_body_defs =
  currentCircuit_body_def CircuitAllow_body_def RearmTrial_body_def CircuitSuccess_body_def
  CircuitFailure_body_def

lemmas circuit_abs_defs =
  abs_circuit_def abs_snapshot_def circuit_wf_def deref_snapshot_def zeroSnapshot_def run_once_def

lemma circuit_wf_nil [simp]: "circuit_wf th None"
  by (simp add: circuit_abs_defs)

lemma promote_refines:
  "abs_circuit (fst (run_once (currentCircuit_body cd now) c)) = spec_promote cd now (abs_circuit c)"
  "abs_snapshot (fst (snd (run_once (currentCircuit_body cd now) c))) = spec_promote cd now (abs_circuit c)"
  "snd (snd (run_once (currentCircuit_body cd now) c)) \<longleftrightarrow>
     abs_circuit c \<noteq> spec_promote cd now (abs_circuit c)"
  by (auto simp: circuit_body_defs circuit_abs_defs Let_def split: option.splits circuitState.splits)

lemma promote_wf: "circuit_wf th c \<Longrightarrow> circuit_wf th (fst (run_once (currentCircuit_body cd now) c))"
  by (auto simp: circuit_body_defs circuit_abs_defs Let_def split: option.splits circuitState.splits)

lemma admit_refines:
  "abs_circuit (fst (run_once CircuitAllow_body c)) = fst (spec_admit (abs_circuit c))"
  "snd (run_once CircuitAllow_body c) = snd (spec_admit (abs_circuit c))"
  by (auto simp: circuit_body_defs circuit_abs_defs Let_def split: option.splits circuitState.splits)

lemma admit_wf: "circuit_wf th c \<Longrightarrow> circuit_wf th (fst (run_once CircuitAllow_body c))"
  by (auto simp: circuit_body_defs circuit_abs_defs Let_def split: option.splits circuitState.splits)

lemma rearm_refines:
  "abs_circuit (fst (run_once RearmTrial_body c)) = spec_rearm (abs_circuit c)"
  by (auto simp: circuit_body_defs circuit_abs_defs Let_def split: option.splits circuitState.splits)

lemma rearm_wf: "circuit_wf th c \<Longrightarrow> circuit_wf th (fst (run_once RearmTrial_body c))"
  by (auto simp: circuit_body_defs circuit_abs_defs Let_def split: option.splits circuitState.splits)

lemma success_refines:
  "abs_circuit (fst (run_once CircuitSuccess_body c)) = fst (spec_success (abs_circuit c))"
  "snd (run_once CircuitSuccess_body c) = snd (spec_success (abs_circuit c))"
  by (auto simp: circuit_body_defs circuit_abs_defs Let_def split: option.splits circuitState.splits)

lemma success_wf: "circuit_wf th (fst (run_once CircuitSuccess_body c))" if "circuit_wf th c"
  using that
  by (auto simp: circuit_body_defs circuit_abs_defs Let_def split: option.splits circuitState.splits)

lemma failure_refines:
  assumes "circuit_wf th c" and "0 < th" and "th < 2 ^ 31"
  shows "abs_circuit (fst (run_once (CircuitFailure_body (int th) now) c)) =
           fst (spec_failure th now (abs_circuit c))"
    and "snd (run_once (CircuitFailure_body (int th) now) c) =
           snd (spec_failure th now (abs_circuit c))"
    and "circuit_wf th (fst (run_once (CircuitFailure_body (int th) now) c))"
proof -
  have w: "wrap32 (f + 1) = f + 1" if "0 \<le> f" "f + 1 < int th" for f
    using that assms(3) by (intro wrap32_id) (simp add: in_int32_def)
  show "abs_circuit (fst (run_once (CircuitFailure_body (int th) now) c)) =
           fst (spec_failure th now (abs_circuit c))"
    "snd (run_once (CircuitFailure_body (int th) now) c) =
           snd (spec_failure th now (abs_circuit c))"
    "circuit_wf th (fst (run_once (CircuitFailure_body (int th) now) c))"
    using assms w [of 0] w [of "failures (the c)"]
    by (auto simp: circuit_body_defs circuit_abs_defs Let_def nat_add_distrib
        split: option.splits circuitState.splits)
qed

definition bstate :: "backend \<Rightarrow> breaker_state" where
  "bstate b = abs_circuit (circuit b)"

lemma bstate_circuit [simp]: "bstate (b\<lparr>circuit := c\<rparr>) = abs_circuit c"
  by (simp add: bstate_def)

lemma CircuitOpen_bstate:
  "bstate (fst (CircuitOpen cd now b)) = spec_promote cd now (bstate b)"
  "snd (CircuitOpen cd now b) \<longleftrightarrow> (\<exists>t. spec_promote cd now (bstate b) = Open t)"
proof -
  show "bstate (fst (CircuitOpen cd now b)) = spec_promote cd now (bstate b)"
    by (simp add: CircuitOpen_eq promote_refines bstate_def)
  have "state s = circuitOpen \<longleftrightarrow> (\<exists>t. abs_snapshot s = Open t)" for s
    by (auto simp: abs_snapshot_def split: circuitState.splits)
  then show "snd (CircuitOpen cd now b) \<longleftrightarrow> (\<exists>t. spec_promote cd now (bstate b) = Open t)"
    by (simp add: CircuitOpen_eq promote_refines bstate_def)
qed

lemma CircuitAllow_bstate:
  "bstate (fst (CircuitAllow cd now b)) = fst (spec_admit (spec_promote cd now (bstate b)))"
  "fst (snd (CircuitAllow cd now b)) = snd (spec_admit (spec_promote cd now (bstate b)))"
  "snd (snd (CircuitAllow cd now b)) =
     (if spec_promote cd now (bstate b) \<noteq> bstate b then CircuitHalfOpened else CircuitNoChange)"
  using promote_refines(3) [of cd now "circuit b"]
  by (auto simp: CircuitAllow_eq bstate_def admit_refines promote_refines(1) Let_def)

lemma circuit_methods_wf:
  assumes "circuit_wf th (circuit b)"
  shows "circuit_wf th (circuit (fst (CircuitOpen cd now b)))"
    and "circuit_wf th (circuit (fst (CircuitAllow cd now b)))"
    and "circuit_wf th (circuit (RearmTrial b))"
    and "circuit_wf th (circuit (fst (CircuitSuccess b)))"
  using assms
  by (simp_all add: CircuitOpen_eq CircuitAllow_eq RearmTrial_def CircuitSuccess_def Let_def
      promote_wf admit_wf rearm_wf success_wf)

lemma CircuitFailure_bstate:
  assumes "circuit_wf th (circuit b)" and "0 < th" and "th < 2 ^ 31"
  shows "bstate (fst (CircuitFailure (int th) now b)) = fst (spec_failure th now (bstate b))"
    and "snd (CircuitFailure (int th) now b) = snd (spec_failure th now (bstate b))"
    and "circuit_wf th (circuit (fst (CircuitFailure (int th) now b)))"
  using failure_refines [OF assms] by (simp_all add: CircuitFailure_def bstate_def)

lemma CircuitSuccess_bstate:
  "bstate (fst (CircuitSuccess b)) = fst (spec_success (bstate b))"
  "snd (CircuitSuccess b) = snd (spec_success (bstate b))"
  by (simp_all add: CircuitSuccess_def bstate_def success_refines)

lemma RearmTrial_bstate: "bstate (RearmTrial b) = spec_rearm (bstate b)"
  by (simp add: RearmTrial_def bstate_def rearm_refines)

text \<open>
  C5. The circuit methods implement the three-state machine: on every reachable snapshot
  \<open>CircuitOpen\<close>, \<open>CircuitAllow\<close>, \<open>RearmTrial\<close>, \<open>CircuitSuccess\<close> and
  \<open>CircuitFailure\<close> move the circuit, answer and report exactly as the abstract breaker
  does (lazy promotion once the cooldown has elapsed, one trial in half-open, reset on success,
  opening at the threshold, stale outcomes ignored while open), and keep the snapshot well
  formed.
\<close>

theorem circuit_methods_refine:
  assumes "circuit_wf th (circuit b)" and "0 < th" and "th < 2 ^ 31"
  shows "bstate (fst (CircuitOpen cd now b)) = spec_promote cd now (bstate b)
       \<and> (snd (CircuitOpen cd now b) \<longleftrightarrow> (\<exists>t. spec_promote cd now (bstate b) = Open t))
       \<and> bstate (fst (CircuitAllow cd now b)) = fst (spec_admit (spec_promote cd now (bstate b)))
       \<and> fst (snd (CircuitAllow cd now b)) = snd (spec_admit (spec_promote cd now (bstate b)))
       \<and> (snd (snd (CircuitAllow cd now b)) =
            (if spec_promote cd now (bstate b) \<noteq> bstate b then CircuitHalfOpened
             else CircuitNoChange))
       \<and> bstate (RearmTrial b) = spec_rearm (bstate b)
       \<and> bstate (fst (CircuitSuccess b)) = fst (spec_success (bstate b))
       \<and> snd (CircuitSuccess b) = snd (spec_success (bstate b))
       \<and> bstate (fst (CircuitFailure (int th) now b)) = fst (spec_failure th now (bstate b))
       \<and> snd (CircuitFailure (int th) now b) = snd (spec_failure th now (bstate b))
       \<and> (\<forall>b' \<in> {fst (CircuitOpen cd now b), fst (CircuitAllow cd now b), RearmTrial b,
                   fst (CircuitSuccess b), fst (CircuitFailure (int th) now b)}.
            circuit_wf th (circuit b'))"
  by (simp add: CircuitOpen_bstate CircuitAllow_bstate RearmTrial_bstate CircuitSuccess_bstate
      CircuitFailure_bstate [OF assms] circuit_methods_wf [OF assms(1)])

definition fresh_backend :: "string \<Rightarrow> url \<Rightarrow> backend" where
  "fresh_backend name u =
     \<lparr>Name = name, URL = u, healthy = True, active = 0, latencyEWMA = 0, circuit = None,
      removed = False, retiredCtx = Some None\<rparr>"

definition sample_url :: url where
  "sample_url = \<lparr>Scheme = ''http'', Host = ''h'', RawQuery = '''', Fragment = ''''\<rparr>"

definition sample_backend :: backend where
  "sample_backend = (fresh_backend ''a'' sample_url)
     \<lparr>circuit := Some \<lparr>state = circuitClosed, failures = 2, trial = False, openedAt = 0\<rparr>\<rparr>"

theorem circuit_methods_refine_witness:
  "bstate (fst (CircuitFailure 3 50 sample_backend)) = Open 50 \<and>
   snd (CircuitFailure 3 50 sample_backend) = CircuitOpened"
proof -
  have w: "circuit_wf 3 (circuit sample_backend)"
    by (simp add: sample_backend_def circuit_abs_defs)
  have s: "bstate sample_backend = Closed 2"
    by (simp add: sample_backend_def bstate_def circuit_abs_defs)
  show ?thesis
    using circuit_methods_refine [OF w, of 0 50] by (simp add: s)
qed

section \<open>Latency\<close>

lemma f64_alpha: "f64 ewmaAlpha = 3602879701896397 / 36028797018963968"
  "f64 (1 - ewmaAlpha) = 8106479329266893 / 9007199254740992"
proof -
  have a: "ilog2 ewmaAlpha = - 4" "ilog2 (1 - ewmaAlpha) = - 1"
    by (rule ilog2_eqI; simp add: ewmaAlpha_def power_int_def power_one_over)+
  have b: "0 < ewmaAlpha" "0 < 1 - ewmaAlpha" by (simp_all add: ewmaAlpha_def)
  show "f64 ewmaAlpha = 3602879701896397 / 36028797018963968"
    "f64 (1 - ewmaAlpha) = 8106479329266893 / 9007199254740992"
    unfolding f64_pos_eq [OF b(1)] f64_pos_eq [OF b(2)] a
    by (simp_all add: ewmaAlpha_def power_int_def power_one_over rne_def Let_def
        floor_divide_of_int_eq [where ?'a = rat, of "numeral _" "numeral _", simplified])
qed

lemma f64_rel_bounds:
  assumes "0 \<le> x"
  shows "x * (1 - 1 / 2 ^ 53) \<le> f64 x" "f64 x \<le> x * (1 + 1 / 2 ^ 53)"
proof -
  have "f64 x - x \<le> x / 2 ^ 53" "x - f64 x \<le> x / 2 ^ 53"
    using f64_error [OF assms] by linarith+
  then show "x * (1 - 1 / 2 ^ 53) \<le> f64 x" "f64 x \<le> x * (1 + 1 / 2 ^ 53)"
    by (simp_all add: right_diff_distrib distrib_left)
qed

lemma ewma_sum_bounds:
  assumes "0 \<le> x" "x \<le> M" "0 \<le> y" "y \<le> M" "m \<le> x" "m \<le> y" "0 \<le> m" "M \<le> 2 ^ 50"
  defines "s \<equiv> f64 (f64 (f64 ewmaAlpha * x) + f64 (f64 (1 - ewmaAlpha) * y))"
  shows "s < M + 1" "m - 1 < s" "0 \<le> s"
proof -
  define a b :: rat where "a = f64 ewmaAlpha" and "b = f64 (1 - ewmaAlpha)"
  have ab: "0 \<le> a" "0 \<le> b" "a + b = 1 + 1 / 2 ^ 55" by (simp_all add: a_def b_def f64_alpha)
  define p q where "p = f64 (a * x)" and "q = f64 (b * y)"
  have ax: "0 \<le> a * x" "0 \<le> b * y" using assms ab by simp_all
  have pq: "0 \<le> p" "0 \<le> q" using ax by (simp_all add: p_def q_def f64_nonneg)
  have lin: "(1 + 1 / 2 ^ 55) * m \<le> a * x + b * y" "a * x + b * y \<le> (1 + 1 / 2 ^ 55) * M"
  proof -
    have "a * m \<le> a * x" "b * m \<le> b * y" "a * x \<le> a * M" "b * y \<le> b * M"
      using assms ab by (simp_all add: mult_left_mono)
    then show "(1 + 1 / 2 ^ 55) * m \<le> a * x + b * y" "a * x + b * y \<le> (1 + 1 / 2 ^ 55) * M"
      unfolding ab(3) [symmetric] by (simp_all add: distrib_right)
  qed
  have sum: "(a * x + b * y) * (1 - 1 / 2 ^ 53) \<le> p + q" "p + q \<le> (a * x + b * y) * (1 + 1 / 2 ^ 53)"
    using f64_rel_bounds [OF ax(1)] f64_rel_bounds [OF ax(2)]
    by (simp_all add: p_def q_def distrib_right)
  have s: "s = f64 (p + q)" by (simp add: s_def p_def q_def a_def b_def)
  have sb: "(p + q) * (1 - 1 / 2 ^ 53) \<le> s" "s \<le> (p + q) * (1 + 1 / 2 ^ 53)"
    unfolding s using f64_rel_bounds [of "p + q"] pq by simp_all
  show "0 \<le> s" using pq by (simp add: s f64_nonneg)
  have M: "0 \<le> M" using assms by simp
  have "p + q \<le> ((1 + 1 / 2 ^ 55) * M) * (1 + 1 / 2 ^ 53)"
    by (rule order_trans [OF sum(2)]) (rule mult_right_mono [OF lin(2)], simp)
  then have "(p + q) * (1 + 1 / 2 ^ 53) \<le> (((1 + 1 / 2 ^ 55) * M) * (1 + 1 / 2 ^ 53)) * (1 + 1 / 2 ^ 53)"
    by (rule mult_right_mono) simp
  with sb(2) have "s \<le> (((1 + 1 / 2 ^ 55) * M) * (1 + 1 / 2 ^ 53)) * (1 + 1 / 2 ^ 53)" by simp
  then show "s < M + 1" using assms(8) M by (simp add: field_simps)
  have "((1 + 1 / 2 ^ 55) * m) * (1 - 1 / 2 ^ 53) \<le> p + q"
    by (rule order_trans [OF mult_right_mono [OF lin(1)] sum(1)]) simp
  then have "(((1 + 1 / 2 ^ 55) * m) * (1 - 1 / 2 ^ 53)) * (1 - 1 / 2 ^ 53) \<le> (p + q) * (1 - 1 / 2 ^ 53)"
    by (rule mult_right_mono) simp
  with sb(1) have "(((1 + 1 / 2 ^ 55) * m) * (1 - 1 / 2 ^ 53)) * (1 - 1 / 2 ^ 53) \<le> s" by simp
  moreover have "m \<le> 2 ^ 50" using assms by linarith
  ultimately show "m - 1 < s" using assms(7) by (simp add: field_simps)
qed

lemma ewma_blend_bounds:
  assumes "0 \<le> d" "d \<le> 2 ^ 50" "0 \<le> old" "old \<le> 2 ^ 50"
  shows "min d old - 1 \<le> ewma_blend d old" "ewma_blend d old \<le> max d old" "0 \<le> ewma_blend d old"
proof -
  define s where "s = f64 (f64 (f64 ewmaAlpha * of_int d) + f64 (f64 (1 - ewmaAlpha) * of_int old))"
  have c: "f64_of_int64 d = of_int d" "f64_of_int64 old = of_int old"
    using assms by (simp_all add: f64_of_int64_exact)
  have e: "ewma_blend d old = f64_to_int64 s" by (simp add: ewma_blend_def c s_def)
  have mx: "of_int (max d old) \<le> (2 ^ 50 :: rat)"
  proof -
    have "max d old \<le> 2 ^ 50" using assms by simp
    then have "of_int (max d old) \<le> (of_int (2 ^ 50) :: rat)" by (simp only: of_int_le_iff)
    then show ?thesis by simp
  qed
  have b: "s < of_int (max d old) + 1" "of_int (min d old) - 1 < s" "0 \<le> s"
    unfolding s_def
    by (rule ewma_sum_bounds [where M = "of_int (max d old)" and m = "of_int (min d old)"];
        use assms mx in simp)+
  have "(2 ^ 50 :: rat) + 1 \<le> 2 ^ 63" by simp
  then have "s < 2 ^ 63" using b(1) mx by linarith
  then have f: "ewma_blend d old = \<lfloor>s\<rfloor>" using b(3) by (simp add: e f64_to_int64_floor)
  have "\<lfloor>s\<rfloor> \<le> max d old" using b(1) by (simp only: floor_le_iff)
  then show "ewma_blend d old \<le> max d old" by (simp add: f)
  have "min d old - 1 \<le> \<lfloor>s\<rfloor>" using b(2) by (simp add: le_floor_iff)
  then show "min d old - 1 \<le> ewma_blend d old" by (simp add: f)
  show "0 \<le> ewma_blend d old" using b(3) by (simp add: f)
qed

text \<open>
  A latency estimate stays among the latencies observed: with durations below
  \<open>2 ^ 50\<close> nanoseconds (13 days) the first sample is stored as it is, and any later one
  moves the estimate to between the smaller of the sample and the old estimate, less the one
  nanosecond the truncation can cost, and the larger of them. No other field changes.
\<close>

theorem RecordLatency_bounds:
  assumes "0 \<le> d" "d \<le> 2 ^ 50" "0 \<le> latencyEWMA b" "latencyEWMA b \<le> 2 ^ 50"
  shows "RecordLatency d b = b\<lparr>latencyEWMA := EWMALatency (RecordLatency d b)\<rparr>
    \<and> 0 \<le> EWMALatency (RecordLatency d b)
    \<and> (if EWMALatency b = 0 then EWMALatency (RecordLatency d b) = d
       else min d (EWMALatency b) - 1 \<le> EWMALatency (RecordLatency d b)
          \<and> EWMALatency (RecordLatency d b) \<le> max d (EWMALatency b))"
  using ewma_blend_bounds [OF assms] assms(1)
  by (simp add: RecordLatency_def EWMALatency_def RecordLatency_body_def run_once_def)

theorem RecordLatency_bounds_witness:
  "max 300 (EWMALatency (RecordLatency 200 (sample_backend\<lparr>latencyEWMA := 300\<rparr>))) = 300"
  using RecordLatency_bounds [of 200 "sample_backend\<lparr>latencyEWMA := 300\<rparr>"]
  by (simp add: EWMALatency_def)


section \<open>Every sequence of method calls\<close>

text \<open>The exported and package-level methods that write, as calls on one backend.\<close>

datatype method_call = CallMarkHealthy | CallMarkUnhealthy | CallIncActive | CallDecActive | CallMarkRemoved
  | CallRetire | CallRecordLatency duration | CallCircuitOpen duration instant
  | CallCircuitAllow duration instant | CallRearmTrial | CallCircuitSuccess | CallCircuitFailure instant

fun call_method :: "nat \<Rightarrow> method_call \<Rightarrow> backend \<Rightarrow> backend" where
  "call_method th CallMarkHealthy b = MarkHealthy b"
| "call_method th CallMarkUnhealthy b = MarkUnhealthy b"
| "call_method th CallIncActive b = IncActive b"
| "call_method th CallDecActive b = DecActive b"
| "call_method th CallMarkRemoved b = markRemoved b"
| "call_method th CallRetire b = Retire b"
| "call_method th (CallRecordLatency d) b = RecordLatency d b"
| "call_method th (CallCircuitOpen cd now) b = fst (CircuitOpen cd now b)"
| "call_method th (CallCircuitAllow cd now) b = fst (CircuitAllow cd now b)"
| "call_method th CallRearmTrial b = RearmTrial b"
| "call_method th CallCircuitSuccess b = fst (CircuitSuccess b)"
| "call_method th (CallCircuitFailure now) b = fst (CircuitFailure (int th) now b)"

fun call_typed :: "method_call \<Rightarrow> bool" where
  "call_typed (CallRecordLatency d) = in_int64 d"
| "call_typed m = True"

text \<open>The counter's change, and the fields at the width their Go types give them.\<close>

fun call_delta :: "method_call \<Rightarrow> int" where
  "call_delta CallIncActive = 1"
| "call_delta CallDecActive = - 1"
| "call_delta m = 0"

definition backend_typed :: "nat \<Rightarrow> backend \<Rightarrow> bool" where
  "backend_typed th b \<longleftrightarrow> in_int64 (active b) \<and> in_int64 (latencyEWMA b) \<and> circuit_wf th (circuit b) \<and>
     in_int32 (failures (deref_snapshot (circuit b)))"

lemma in_int64_ewma_blend [simp]: "in_int64 (ewma_blend d old)"
  by (simp add: ewma_blend_def f64_to_int64_def Let_def) (simp add: in_int64_def)

lemma circuit_wf_int32: "circuit_wf th c \<Longrightarrow> th < 2 ^ 31 \<Longrightarrow> in_int32 (failures (deref_snapshot c))"
  by (auto simp: circuit_wf_def in_int32_def Let_def split: circuitState.splits)

lemma call_method_circuit:
  assumes "circuit_wf th (circuit b)" "0 < th" "th < 2 ^ 31"
  shows "circuit_wf th (circuit (call_method th m b))"
  using circuit_methods_wf [OF assms(1)] CircuitFailure_bstate(3) [OF assms] assms(1)
  by (cases m) (simp_all add: backend_ops)

lemma call_method_fields:
  "active (call_method th m b) = (if call_delta m = 0 then active b else wrap64 (active b + call_delta m))"
  "Name (call_method th m b) = Name b" "URL (call_method th m b) = URL b"
  "removed (call_method th m b) \<longleftrightarrow> removed b \<or> m = CallMarkRemoved"
  "retiredCtx (call_method th m b) = (if m = CallRetire then retiredCtx (Retire b) else retiredCtx b)"
  "latencyEWMA (call_method th m b) =
     (case m of CallRecordLatency d \<Rightarrow> latencyEWMA (RecordLatency d b) | _ \<Rightarrow> latencyEWMA b)"
  by (cases m; auto simp: backend_ops CircuitOpen_eq CircuitAllow_eq RearmTrial_def CircuitSuccess_def
      CircuitFailure_def Let_def)+

lemma call_method_typed:
  assumes "backend_typed th b" "call_typed m" "0 < th" "th < 2 ^ 31"
  shows "backend_typed th (call_method th m b)"
proof -
  have c: "circuit_wf th (circuit (call_method th m b))"
    using assms call_method_circuit by (simp add: backend_typed_def)
  have "in_int64 (latencyEWMA (RecordLatency d b))" if "in_int64 d" for d
    using that by (simp add: RecordLatency_def RecordLatency_body_def run_once_def)
  then have "in_int64 (latencyEWMA (call_method th m b))"
    using assms unfolding call_method_fields(6) by (cases m) (simp_all add: backend_typed_def)
  then show ?thesis
    using c circuit_wf_int32 [OF c assms(4)] assms(1) by (simp add: backend_typed_def call_method_fields(1))
qed

lemma calls_typed:
  assumes "backend_typed th b" "\<forall>m \<in> set ms. call_typed m" "0 < th" "th < 2 ^ 31"
  shows "backend_typed th (fold (call_method th) ms b)"
  using assms by (induction ms arbitrary: b) (simp_all add: call_method_typed)


lemma calls_effect:
  "Name (fold (call_method th) ms b) = Name b \<and> URL (fold (call_method th) ms b) = URL b \<and>
   (removed (fold (call_method th) ms b) \<longleftrightarrow> removed b \<or> CallMarkRemoved \<in> set ms) \<and>
   (retiredCtx b = Some None \<longrightarrow> retiredCtx (fold (call_method th) ms b) =
      Some (if CallRetire \<in> set ms then Some ErrDrainWindowExpired else None)) \<and>
   (active b = wrap64 k \<longrightarrow> active (fold (call_method th) ms b) = wrap64 (k + sum_list (map call_delta ms)))"
proof (induction ms rule: rev_induct)
  case (snoc m ms)
  show ?case
    using snoc by (auto simp: call_method_fields Retire_def wrap64_add add.assoc split: option.splits)
qed simp

text \<open>
  C6. Every value a backend holds has the type its field promises, for any sequence of calls from
  its creation: the counter and the estimate are \<open>int64\<close> values, the failure count is an
  \<open>int32\<close> value below the threshold, a snapshot of each state has only that state's fields set,
  name and URL never change, removal and retirement happen exactly when called and for good, and
  the counter is the increments less the decrements.
\<close>

theorem method_calls_typed:
  fixes name u
  assumes "\<forall>m \<in> set ms. call_typed m" "0 < th" "th < 2 ^ 31"
  defines "b \<equiv> fold (call_method th) ms (fresh_backend name u)"
  shows "backend_typed th b \<and> Name b = name \<and> URL b = u \<and> (IsRemoved b \<longleftrightarrow> CallMarkRemoved \<in> set ms) \<and>
    RetiredContext b = (if CallRetire \<in> set ms then Some ErrDrainWindowExpired else None) \<and>
    ActiveConns b = wrap64 (sum_list (map call_delta ms))"
proof -
  have "backend_typed th (fresh_backend name u)"
    by (simp add: backend_typed_def fresh_backend_def in_int64_def in_int32_def deref_snapshot_def zeroSnapshot_def)
  then have "backend_typed th b" unfolding b_def using assms(1-3) by (rule calls_typed)
  moreover have "active (fresh_backend name u) = wrap64 0" using wrap64_id [of 0]
    by (simp add: fresh_backend_def in_int64_def)
  ultimately show ?thesis
    using calls_effect [of th ms "fresh_backend name u" 0]
    by (simp add: b_def IsRemoved_def RetiredContext_def ActiveConns_def) (simp add: fresh_backend_def)
qed

theorem method_calls_typed_witness:
  "ActiveConns (fold (call_method 3) [CallIncActive, CallRecordLatency 70, CallCircuitFailure 9, CallDecActive, CallRetire]
     (fresh_backend ''a'' sample_url)) = 0"
  using method_calls_typed [of "[CallIncActive, CallRecordLatency 70, CallCircuitFailure 9, CallDecActive, CallRetire]" 3
      "''a''" sample_url] wrap64_id [of 0] by (simp add: in_int64_def)

end
