(* ===== verification/Circuit_Concurrent.thy ===== *)
theory Circuit_Concurrent
  imports Backend
begin

text \<open>
  Any number of requests and probes on one backend's circuit pointer and on its latency cell.
  An operation of the circuit is one retry loop of \<open>internal/backend/backend.go\<close>;
  \<open>CircuitAllow\<close> is two of them in a row, the promotion and the admission, so a request is
  the sequence \<open>OpPromote\<close>, \<open>OpAdmit\<close>. Every interleaving of loads and
  \<open>CompareAndSwap\<close>s of every thread is a run of \<open>cas_step\<close>.
\<close>

section \<open>The circuit's operations\<close>

datatype circuit_op = OpPromote duration | OpAdmit | OpRearm | OpSuccess | OpFailure int

datatype circuit_result = RPromote circuitSnapshot bool | RAdmit bool | RRearm
  | ROutcome CircuitTransition

fun circuit_body ::
  "circuit_op \<Rightarrow> instant \<Rightarrow> circuitSnapshot option
     \<Rightarrow> (circuitSnapshot option, circuit_result) attempt" where
  "circuit_body (OpPromote cd) now old =
     map_attempt id (\<lambda>(s, p). RPromote s p) (currentCircuit_body cd now old)"
| "circuit_body OpAdmit now old = map_attempt id RAdmit (CircuitAllow_body old)"
| "circuit_body OpRearm now old = map_attempt id (\<lambda>u. RRearm) (RearmTrial_body old)"
| "circuit_body OpSuccess now old = map_attempt id ROutcome (CircuitSuccess_body old)"
| "circuit_body (OpFailure th) now old = map_attempt id ROutcome (CircuitFailure_body th now old)"

abbreviation circuit_runs where
  "circuit_runs \<equiv> cas_reachable circuit_body same_pointer None"

text \<open>What one winning \<open>CompareAndSwap\<close> does to the abstract circuit.\<close>

lemma circuit_body_swap:
  assumes "circuit_body op now v = TryCAS v' r"
  shows "(\<exists>cd t. op = OpPromote cd \<and> abs_circuit v = Open t \<and> \<not> time_since now t < cd \<and>
            abs_circuit v' = HalfOpen False \<and> r = RPromote (the v') True)
       \<or> (op = OpAdmit \<and> abs_circuit v = HalfOpen False \<and> abs_circuit v' = HalfOpen True \<and>
            r = RAdmit True)
       \<or> (op = OpRearm \<and> abs_circuit v = HalfOpen True \<and> abs_circuit v' = HalfOpen False)
       \<or> (op = OpSuccess \<and> (\<exists>n. abs_circuit v = Closed n) \<and> abs_circuit v' = Closed 0 \<and>
            r = ROutcome CircuitNoChange)
       \<or> (op = OpSuccess \<and> (\<exists>b. abs_circuit v = HalfOpen b) \<and> abs_circuit v' = Closed 0 \<and>
            r = ROutcome CircuitClosed)
       \<or> (\<exists>th. op = OpFailure th \<and> (\<exists>b. abs_circuit v = HalfOpen b) \<and>
            abs_circuit v' = Open now \<and> r = ROutcome CircuitReopened)
       \<or> (\<exists>th. op = OpFailure th \<and> (\<exists>n. abs_circuit v = Closed n) \<and>
            abs_circuit v' = Open now \<and> r = ROutcome CircuitOpened)
       \<or> (\<exists>th. op = OpFailure th \<and> (\<exists>n. abs_circuit v = Closed n) \<and>
            (\<exists>n. abs_circuit v' = Closed n) \<and> r = ROutcome CircuitNoChange)"
proof (cases op)
  case (OpPromote cd)
  then show ?thesis using assms
    by (auto simp: currentCircuit_body_def circuit_abs_defs Let_def split: if_splits option.splits)
next
  case OpAdmit
  then show ?thesis using assms
    by (auto simp: CircuitAllow_body_def circuit_abs_defs Let_def
        split: if_splits option.splits circuitState.splits)
next
  case OpRearm
  then show ?thesis using assms
    by (auto simp: RearmTrial_body_def circuit_abs_defs Let_def
        split: if_splits option.splits circuitState.splits)
next
  case OpSuccess
  then show ?thesis using assms
    by (auto simp: CircuitSuccess_body_def circuit_abs_defs Let_def
        split: if_splits option.splits circuitState.splits)
next
  case (OpFailure th)
  then show ?thesis using assms
    by (auto simp: CircuitFailure_body_def circuit_abs_defs Let_def
        split: if_splits option.splits circuitState.splits)
qed

lemma circuit_runs_linearized: "\<sigma> \<in> circuit_runs \<Longrightarrow> linearized circuit_body \<sigma>"
  by (rule pointer_cell.reachable_invariant [THEN conjunct1])

lemma circuit_write:
  assumes "\<sigma> \<in> circuit_runs" and "i < length (writes \<sigma>)" and "writes \<sigma> ! i = (op, now, r)"
  shows "circuit_body op now (versions \<sigma> ! i) = TryCAS (versions \<sigma> ! Suc i) r"
  using circuit_runs_linearized [OF assms(1)] assms(2,3) by (simp add: linearized_def)

section \<open>One trial per half-open episode\<close>

text \<open>The only writes that leave a free trial slot behind are a promotion and a rearm.\<close>

lemma free_slot_writers:
  assumes "circuit_body op now v = TryCAS v' r" and "abs_circuit v' = HalfOpen False"
  shows "(\<exists>cd. op = OpPromote cd) \<or> op = OpRearm"
  using circuit_body_swap [OF assms(1)] assms(2) by auto

lemma admit_write:
  assumes "circuit_body OpAdmit now v = TryCAS v' r"
  shows "abs_circuit v = HalfOpen False" "abs_circuit v' = HalfOpen True" "r = RAdmit True"
  using circuit_body_swap [OF assms] by auto

text \<open>
  C3. Exactly one trial: under every interleaving of any number of concurrent requests, two
  half-open admissions of one backend are separated by a fresh promotion (the circuit has been
  open again in between) or by a rearm of the slot; so no two requests can both be the trial of
  the same half-open episode.
\<close>

theorem one_trial_per_episode:
  assumes "\<sigma> \<in> circuit_runs"
    and "i < j" and "j < length (writes \<sigma>)"
    and "fst (writes \<sigma> ! i) = OpAdmit" and "fst (writes \<sigma> ! j) = OpAdmit"
  shows "\<exists>k. i < k \<and> k < j \<and>
    ((\<exists>cd. fst (writes \<sigma> ! k) = OpPromote cd) \<or> fst (writes \<sigma> ! k) = OpRearm)"
proof (rule ccontr)
  assume no: "\<not> ?thesis"
  have taken: "abs_circuit (versions \<sigma> ! m) \<noteq> HalfOpen False" if "Suc i \<le> m" "m \<le> j" for m
    using that
  proof (induction m rule: dec_induct)
    case base
    obtain now r where w: "writes \<sigma> ! i = (OpAdmit, now, r)" using assms(4) by (cases "writes \<sigma> ! i") auto
    have "i < length (writes \<sigma>)" using assms(2,3) by simp
    from admit_write(2) [OF circuit_write [OF assms(1) this w]] show ?case by simp
  next
    case (step m)
    obtain op now r where w: "writes \<sigma> ! m = (op, now, r)" by (cases "writes \<sigma> ! m") auto
    have m: "m < length (writes \<sigma>)" "i < m" "m < j" using step assms(3) by auto
    show ?case
    proof
      assume "abs_circuit (versions \<sigma> ! Suc m) = HalfOpen False"
      then have "(\<exists>cd. op = OpPromote cd) \<or> op = OpRearm"
        by (rule free_slot_writers [OF circuit_write [OF assms(1) m(1) w]])
      with no m w show False by auto
    qed
  qed
  obtain now r where "writes \<sigma> ! j = (OpAdmit, now, r)" using assms(5) by (cases "writes \<sigma> ! j") auto
  then show False
    using taken [of j] admit_write(1) [OF circuit_write [OF assms(1,3)]] assms(2) by simp
qed

section \<open>Transitions are reported once\<close>

fun kind :: "breaker_state \<Rightarrow> circuitState" where
  "kind (Closed n) = circuitClosed"
| "kind (Open t) = circuitOpen"
| "kind (HalfOpen b) = circuitHalfOpen"

fun transition_between :: "circuitState \<Rightarrow> circuitState \<Rightarrow> CircuitTransition" where
  "transition_between circuitClosed circuitOpen = CircuitOpened"
| "transition_between circuitHalfOpen circuitOpen = CircuitReopened"
| "transition_between circuitHalfOpen circuitClosed = CircuitClosed"
| "transition_between circuitOpen circuitHalfOpen = CircuitHalfOpened"
| "transition_between _ _ = CircuitNoChange"

text \<open>What a caller learns of a transition from an operation's result.\<close>

fun reported :: "circuit_result \<Rightarrow> CircuitTransition" where
  "reported (RPromote s promoted) = (if promoted then CircuitHalfOpened else CircuitNoChange)"
| "reported (RAdmit ok) = CircuitNoChange"
| "reported RRearm = CircuitNoChange"
| "reported (ROutcome t) = t"

lemma circuit_body_rearm_result: "circuit_body OpRearm now v = TryCAS v' r \<Longrightarrow> r = RRearm"
  by (auto simp: RearmTrial_body_def split: if_splits option.splits)

lemma reported_swap:
  "circuit_body op now v = TryCAS v' r \<Longrightarrow>
     reported r = transition_between (kind (abs_circuit v)) (kind (abs_circuit v'))"
  using circuit_body_swap [of op now v v' r] circuit_body_rearm_result [of now v v' r] by auto

lemma reported_done: "circuit_body op now v = Done r \<Longrightarrow> reported r = CircuitNoChange"
  by (cases op) (auto simp: circuit_body_defs Let_def split: if_splits option.splits circuitState.splits)

text \<open>
  Every transition is reported exactly once: in any concurrent run, the call whose
  \<open>CompareAndSwap\<close> took the circuit from one snapshot to the next reports the transition
  between the two states, and a call that returns a transition is the one that performed it;
  so the log line and the gauge are written once for each genuine change and never for another.
\<close>

theorem transitions_reported_once:
  assumes "\<sigma> \<in> circuit_runs"
  shows "(\<forall>i < length (writes \<sigma>).
            reported (snd (snd (writes \<sigma> ! i))) =
              transition_between (kind (abs_circuit (versions \<sigma> ! i)))
                                 (kind (abs_circuit (versions \<sigma> ! Suc i))))
       \<and> (\<forall>(op, now, c, s, r) \<in> set (returns \<sigma>). reported r \<noteq> CircuitNoChange \<longrightarrow>
            s < length (writes \<sigma>) \<and> writes \<sigma> ! s = (op, now, r))"
proof -
  note lin = circuit_runs_linearized [OF assms]
  have "reported (snd (snd (writes \<sigma> ! i))) =
      transition_between (kind (abs_circuit (versions \<sigma> ! i))) (kind (abs_circuit (versions \<sigma> ! Suc i)))"
    if "i < length (writes \<sigma>)" for i
  proof -
    obtain op now r where w: "writes \<sigma> ! i = (op, now, r)" by (cases "writes \<sigma> ! i") auto
    then show ?thesis using reported_swap [OF circuit_write [OF assms that w]] by simp
  qed
  moreover have "s < length (writes \<sigma>) \<and> writes \<sigma> ! s = (op, now, r)"
    if "(op, now, c, s, r) \<in> set (returns \<sigma>)" "reported r \<noteq> CircuitNoChange" for op now c s r
    using lin that reported_done unfolding linearized_def by blast
  ultimately show ?thesis by auto
qed

section \<open>No latency sample is lost\<close>

definition latency_body :: "duration \<Rightarrow> instant \<Rightarrow> int \<Rightarrow> (int, unit) attempt" where
  "latency_body d now old = RecordLatency_body d old"

text \<open>
  Concurrent \<open>RecordLatency\<close> calls lose no sample: in any interleaving the estimate is
  what folding the samples of the calls that have returned, one after the other in the order
  of their \<open>CompareAndSwap\<close>s, gives.
\<close>

theorem latency_no_lost_update:
  assumes "\<sigma> \<in> cas_reachable latency_body same_value 0"
  shows "current \<sigma> =
    fold (\<lambda>(d, now, c, s, r) old. fst (run_once (RecordLatency_body d) old)) (returns \<sigma>) 0"
proof -
  have w: "map (\<lambda>(op, now, c, s, r). (op, now, r)) (returns \<sigma>) = writes \<sigma>"
    by (rule value_cell.writers_return [OF assms]) (simp add: latency_body_def RecordLatency_body_def)
  have inv: "linearized latency_body \<sigma>" "versions \<sigma> ! 0 = 0"
    using value_cell.reachable_invariant [OF assms] by auto
  have "current \<sigma> = replay latency_body (writes \<sigma>) 0"
    using linearized_replay [OF inv(1)] inv(2) by simp
  then show ?thesis
    unfolding w [symmetric] replay_def
    by (simp add: fold_map comp_def latency_body_def [abs_def] split_def)
qed

section \<open>Concrete runs\<close>

text \<open>A circuit that opens, cools down, hands out its trial, is rearmed and hands it out again.\<close>

definition sample_run :: "(circuit_op, circuitSnapshot option, circuit_result) cas_sys" where
  "sample_run = foldl (solo circuit_body) (cas_init None)
     [(OpFailure 1, 0), (OpPromote 5, 9), (OpAdmit, 9), (OpRearm, 10), (OpAdmit, 11)]"

lemma sample_run_reachable: "sample_run \<in> circuit_runs"
  unfolding sample_run_def by (rule pointer_cell.solo_runs)

lemma sample_run_writes:
  "map (\<lambda>w. (fst w, reported (snd (snd w)))) (writes sample_run) =
     [(OpFailure 1, CircuitOpened), (OpPromote 5, CircuitHalfOpened), (OpAdmit, CircuitNoChange),
      (OpRearm, CircuitNoChange), (OpAdmit, CircuitNoChange)]"
  by code_simp

lemma sample_run_nth:
  "length (writes sample_run) = 5" "fst (writes sample_run ! 2) = OpAdmit"
  "fst (writes sample_run ! 3) = OpRearm" "fst (writes sample_run ! 4) = OpAdmit"
  "reported (snd (snd (writes sample_run ! 1))) = CircuitHalfOpened"
proof -
  have l: "length (writes sample_run) = 5"
    using arg_cong [OF sample_run_writes, of length] by simp
  have n: "(fst (writes sample_run ! k), reported (snd (snd (writes sample_run ! k)))) =
      map (\<lambda>w. (fst w, reported (snd (snd w)))) (writes sample_run) ! k" if "k < 5" for k
    using that l by simp
  show "length (writes sample_run) = 5" "fst (writes sample_run ! 2) = OpAdmit"
    "fst (writes sample_run ! 3) = OpRearm" "fst (writes sample_run ! 4) = OpAdmit"
    "reported (snd (snd (writes sample_run ! 1))) = CircuitHalfOpened"
    using l n [of 2] n [of 3] n [of 4] n [of 1] by (simp_all add: sample_run_writes)
qed

theorem one_trial_per_episode_witness:
  "\<exists>k. 2 < k \<and> k < 4 \<and>
     ((\<exists>cd. fst (writes sample_run ! k) = OpPromote cd) \<or> fst (writes sample_run ! k) = OpRearm)"
  by (rule one_trial_per_episode [OF sample_run_reachable]) (simp_all add: sample_run_nth)

theorem transitions_reported_once_witness:
  "transition_between (kind (abs_circuit (versions sample_run ! 1)))
     (kind (abs_circuit (versions sample_run ! 2))) = CircuitHalfOpened"
  using transitions_reported_once [OF sample_run_reachable, THEN conjunct1, rule_format, of 1]
  by (simp add: sample_run_nth(1) sample_run_nth(5) [unfolded One_nat_def] numeral_2_eq_2)

theorem latency_no_lost_update_witness:
  "current (foldl (solo latency_body) (cas_init 0) [(70, 0)]) = 70"
proof -
  have "foldl (solo latency_body) (cas_init 0) [(70, 0)] \<in> cas_reachable latency_body same_value 0"
    by (rule value_cell.solo_runs)
  from latency_no_lost_update [OF this] show ?thesis
    by (simp add: solo_def cas_init_def latency_body_def RecordLatency_body_def current_def)
qed


section \<open>The loops end\<close>



end
