(* ===== verification/World.thy ===== *)
theory World
  imports Backend Metrics Logger
begin

text \<open>
  The state the components share. Backends are reached through pointers, and which of two
  structurally equal backends a component holds matters (a re-added backend is a new object),
  so they live in a heap addressed by \<open>bid\<close>; an address is never reused. The registry's
  published snapshot, the metrics collector's calls and the log complete the world. Components
  with more state of their own extend the record.
\<close>

type_synonym bid = nat

record registrySnapshot =
  version :: "64 word"
  backends :: "bid list"

record world =
  heap :: "bid \<Rightarrow> backend"
  nextbid :: bid
  snap :: registrySnapshot
  prom :: collector
  logs :: "log_line list"

definition on_backend :: "bid \<Rightarrow> (backend \<Rightarrow> backend) \<Rightarrow> 'a world_scheme \<Rightarrow> 'a world_scheme" where
  "on_backend b f w = w\<lparr>heap := (heap w)(b := f (heap w b))\<rparr>"

definition ask_backend ::
  "bid \<Rightarrow> (backend \<Rightarrow> backend \<times> 'r) \<Rightarrow> 'a world_scheme \<Rightarrow> 'a world_scheme \<times> 'r" where
  "ask_backend b f w = (let (bk, r) = f (heap w b) in (on_backend b (\<lambda>_. bk) w, r))"

definition alloc :: "backend \<Rightarrow> 'a world_scheme \<Rightarrow> 'a world_scheme \<times> bid" where
  "alloc bk w = (w\<lparr>heap := (heap w)(nextbid w := bk), nextbid := nextbid w + 1\<rparr>, nextbid w)"

definition meter :: "(collector \<Rightarrow> collector) \<Rightarrow> 'a world_scheme \<Rightarrow> 'a world_scheme" where
  "meter f w = w\<lparr>prom := f (prom w)\<rparr>"

definition log :: "log_line \<Rightarrow> 'a world_scheme \<Rightarrow> 'a world_scheme" where
  "log l w = w\<lparr>logs := logs w @ [l]\<rparr>"

section \<open>Frames\<close>

lemma on_backend_fields [simp]:
  "heap (on_backend b f w) = (heap w)(b := f (heap w b))"
  "nextbid (on_backend b f w) = nextbid w" "snap (on_backend b f w) = snap w"
  "prom (on_backend b f w) = prom w" "logs (on_backend b f w) = logs w"
  "world.more (on_backend b f w) = world.more w"
  by (simp_all add: on_backend_def)

lemma meter_fields [simp]:
  "heap (meter f w) = heap w" "nextbid (meter f w) = nextbid w" "snap (meter f w) = snap w"
  "prom (meter f w) = f (prom w)" "logs (meter f w) = logs w" "world.more (meter f w) = world.more w"
  by (simp_all add: meter_def)

lemma log_fields [simp]:
  "heap (log l w) = heap w" "nextbid (log l w) = nextbid w" "snap (log l w) = snap w"
  "prom (log l w) = prom w" "logs (log l w) = logs w @ [l]" "world.more (log l w) = world.more w"
  by (simp_all add: log_def)

lemma ask_backend_eq:
  "ask_backend b f w = (on_backend b (\<lambda>bk. fst (f bk)) w, snd (f (heap w b)))"
  by (simp add: ask_backend_def on_backend_def split: prod.splits)

lemma alloc_fields [simp]:
  "heap (fst (alloc bk w)) = (heap w)(nextbid w := bk)" "nextbid (fst (alloc bk w)) = nextbid w + 1"
  "snap (fst (alloc bk w)) = snap w" "prom (fst (alloc bk w)) = prom w"
  "logs (fst (alloc bk w)) = logs w" "world.more (fst (alloc bk w)) = world.more w"
  "snd (alloc bk w) = nextbid w"
  by (simp_all add: alloc_def)

text \<open>
  The step from \<open>w\<close> to \<open>w'\<close> may have changed circuits, log and metrics, nothing else.
\<close>

definition same_but_circuits :: "'a world_scheme \<Rightarrow> 'a world_scheme \<Rightarrow> bool" where
  "same_but_circuits w w' \<longleftrightarrow>
     (\<forall>b. \<exists>c. heap w' b = (heap w b)\<lparr>circuit := c\<rparr>) \<and> nextbid w' = nextbid w \<and> snap w' = snap w
     \<and> world.more w' = world.more w"

lemma circuit_self [simp]: "\<exists>c. bk = bk\<lparr>circuit := c\<rparr>"
  by (rule exI [where x = "circuit bk"]) simp

lemma same_but_circuits_refl [simp]: "same_but_circuits w w"
  by (simp add: same_but_circuits_def)

lemma same_but_circuits_trans:
  "same_but_circuits w1 w2 \<Longrightarrow> same_but_circuits w2 w3 \<Longrightarrow> same_but_circuits w1 w3"
  unfolding same_but_circuits_def by (metis backend.update_convs(6) backend.surjective)

lemma same_but_circuitsD:
  assumes "same_but_circuits w w'"
  shows "snap w' = snap w" "nextbid w' = nextbid w" "world.more w' = world.more w"
    "Name (heap w' b) = Name (heap w b)" "URL (heap w' b) = URL (heap w b)"
    "healthy (heap w' b) = healthy (heap w b)" "active (heap w' b) = active (heap w b)"
    "latencyEWMA (heap w' b) = latencyEWMA (heap w b)" "removed (heap w' b) = removed (heap w b)"
    "retiredCtx (heap w' b) = retiredCtx (heap w b)"
proof -
  obtain c where "heap w' b = (heap w b)\<lparr>circuit := c\<rparr>"
    using assms by (auto simp: same_but_circuits_def)
  then show "snap w' = snap w" "nextbid w' = nextbid w" "world.more w' = world.more w"
    "Name (heap w' b) = Name (heap w b)" "URL (heap w' b) = URL (heap w b)"
    "healthy (heap w' b) = healthy (heap w b)" "active (heap w' b) = active (heap w b)"
    "latencyEWMA (heap w' b) = latencyEWMA (heap w b)" "removed (heap w' b) = removed (heap w b)"
    "retiredCtx (heap w' b) = retiredCtx (heap w b)"
    using assms by (simp_all add: same_but_circuits_def)
qed

text \<open>The step may have changed the circuit of \<open>b\<close>, log and metrics, nothing else.\<close>

definition same_but_circuit :: "bid \<Rightarrow> 'a world_scheme \<Rightarrow> 'a world_scheme \<Rightarrow> bool" where
  "same_but_circuit b w w' \<longleftrightarrow>
     same_but_circuits w w' \<and> (\<forall>b'. b' \<noteq> b \<longrightarrow> heap w' b' = heap w b')"

definition sample_world :: world where
  "sample_world =
     \<lparr>heap = (\<lambda>b. fresh_backend (if b = 0 then ''a'' else ''b'') sample_url), nextbid = 2,
      snap = \<lparr>version = 1, backends = [0, 1]\<rparr>, prom = [], logs = []\<rparr>"

end
