(* ===== verification/Registry.thy ===== *)
theory Registry
  imports World Config_Diff
begin

text \<open>
  The set of backends, \<open>internal/backend/registry.go\<close>: the immutable snapshot all readers
  load once, the pool of selectable backends, the admission gate and the swap a reload makes.
  The circuit gate is an interface there; here it is a pair of functions, and its contract is
  the locale \<open>circuit_gate\<close>, which the circuit breaker discharges in its own theory.
\<close>

section \<open>The circuit gate\<close>

text \<open>\<open>Open\<close> and \<open>Allow\<close>; both may promote a circuit, so both return a world.\<close>

record 'w CircuitGate =
  GateOpen :: "bid \<Rightarrow> 'w \<Rightarrow> 'w \<times> bool"
  GateAllow :: "bid \<Rightarrow> 'w \<Rightarrow> 'w \<times> bool"

section \<open>Reads\<close>

definition All :: "'a world_scheme \<Rightarrow> bid list" where
  "All w = backends (snap w)"

definition Version :: "'a world_scheme \<Rightarrow> 64 word" where
  "Version w = version (snap w)"

definition Snapshot :: "'a world_scheme \<Rightarrow> 64 word \<times> bid list" where
  "Snapshot w = (version (snap w), backends (snap w))"

fun selectable_loop ::
  "'a world_scheme CircuitGate option \<Rightarrow> bid list \<Rightarrow> 'a world_scheme \<Rightarrow> bid list
     \<Rightarrow> 'a world_scheme \<times> bid list" where
  "selectable_loop g [] w acc = (w, acc)"
| "selectable_loop g (b # bs) w acc =
     (if IsHealthy (heap w b) then
        (case g of
           None \<Rightarrow> selectable_loop g bs w (acc @ [b])
         | Some gt \<Rightarrow>
             (let (w1, isopen) = GateOpen gt b w
              in selectable_loop g bs w1 (if \<not> isopen then acc @ [b] else acc)))
      else selectable_loop g bs w acc)"

definition Selectable ::
  "'a world_scheme CircuitGate option \<Rightarrow> 'a world_scheme \<Rightarrow> 'a world_scheme \<times> bid list" where
  "Selectable g w = selectable_loop g (backends (snap w)) w []"

definition Allow ::
  "'a world_scheme CircuitGate option \<Rightarrow> bid \<Rightarrow> 'a world_scheme \<Rightarrow> 'a world_scheme \<times> bool" where
  "Allow g b w = (case g of None \<Rightarrow> (w, True) | Some gt \<Rightarrow> GateAllow gt b w)"

section \<open>Construction and the swap\<close>

datatype registry_error =
    ParseURL string string
  | UnchangedMissing string
  | NeitherAddedNorUnchanged string string

definition newBackend ::
  "(string \<Rightarrow> url option) \<Rightarrow> BackendConfig \<Rightarrow> registry_error + backend" where
  "newBackend parse cfg =
     (case parse (CfgURL cfg) of
        None \<Rightarrow> Inl (ParseURL (CfgURL cfg) (CfgName cfg))
      | Some u \<Rightarrow>
          (let b = \<lparr>Name = CfgName cfg, URL = u, healthy = False, active = 0, latencyEWMA = 0,
                    circuit = None, removed = False, retiredCtx = Some None\<rparr>
           in Inr (MarkHealthy b)))"

fun new_registry_loop ::
  "(string \<Rightarrow> url option) \<Rightarrow> BackendConfig list \<Rightarrow> 'a world_scheme \<Rightarrow> bid list
     \<Rightarrow> 'a world_scheme \<times> (registry_error + bid list)" where
  "new_registry_loop parse [] w acc = (w, Inr acc)"
| "new_registry_loop parse (cfg # cfgs) w acc =
     (case newBackend parse cfg of
        Inl e \<Rightarrow> (w, Inl e)
      | Inr bk \<Rightarrow> (let (w1, b) = alloc bk w in new_registry_loop parse cfgs w1 (acc @ [b])))"

text \<open>The world's snapshot is the new registry's; on an error no registry is built.\<close>

definition NewRegistry ::
  "(string \<Rightarrow> url option) \<Rightarrow> BackendConfig list \<Rightarrow> 'a world_scheme
     \<Rightarrow> 'a world_scheme \<times> (registry_error + unit)" where
  "NewRegistry parse cfgs w =
     (case new_registry_loop parse cfgs w [] of
        (w1, Inl e) \<Rightarrow> (w1, Inl e)
      | (w1, Inr bs) \<Rightarrow> (w1\<lparr>snap := \<lparr>version = 1, backends = bs\<rparr>\<rparr>, Inr ()))"

definition identities :: "BackendConfig list \<Rightarrow> string set" where
  "identities cfgs = set (map BackendIdentity cfgs)"

definition inSet :: "string set \<Rightarrow> string \<Rightarrow> bool" where
  "inSet ids i \<longleftrightarrow> i \<in> ids"

text \<open>\<open>byName\<close>: a later backend of the same name replaces an earlier one.\<close>

definition by_name :: "'a world_scheme \<Rightarrow> bid list \<Rightarrow> string \<rightharpoonup> bid" where
  "by_name w bs = foldl (\<lambda>m b. m(Name (heap w b) \<mapsto> b)) Map.empty bs"

fun apply_loop ::
  "(string \<Rightarrow> url option) \<Rightarrow> (string \<rightharpoonup> bid) \<Rightarrow> string set \<Rightarrow> string set \<Rightarrow> BackendConfig list
     \<Rightarrow> 'a world_scheme \<Rightarrow> bid list \<Rightarrow> bid list
     \<Rightarrow> 'a world_scheme \<times> (registry_error + bid list \<times> bid list)" where
  "apply_loop parse byName addedIds unchangedIds [] w next added = (w, Inr (next, added))"
| "apply_loop parse byName addedIds unchangedIds (cfg # cfgs) w next added =
     (let i = BackendIdentity cfg
      in if inSet addedIds i then
           (case newBackend parse cfg of
              Inl e \<Rightarrow> (w, Inl e)
            | Inr bk \<Rightarrow>
                (let (w1, b) = alloc (MarkUnhealthy bk) w
                 in apply_loop parse byName addedIds unchangedIds cfgs w1 (next @ [b]) (added @ [b])))
         else if inSet unchangedIds i then
           (case byName (CfgName cfg) of
              None \<Rightarrow> (w, Inl (UnchangedMissing (CfgName cfg)))
            | Some b \<Rightarrow> apply_loop parse byName addedIds unchangedIds cfgs w (next @ [b]) added)
         else (w, Inl (NeitherAddedNorUnchanged (CfgName cfg) (CfgURL cfg))))"

fun remove_loop ::
  "(string \<rightharpoonup> bid) \<Rightarrow> BackendConfig list \<Rightarrow> 'a world_scheme \<Rightarrow> bid list
     \<Rightarrow> 'a world_scheme \<times> bid list" where
  "remove_loop byName [] w rmd = (w, rmd)"
| "remove_loop byName (cfg # cfgs) w rmd =
     (case byName (CfgName cfg) of
        None \<Rightarrow> remove_loop byName cfgs w rmd
      | Some b \<Rightarrow> remove_loop byName cfgs (on_backend b markRemoved w) (rmd @ [b]))"

definition Apply ::
  "(string \<Rightarrow> url option) \<Rightarrow> BackendDiff \<Rightarrow> BackendConfig list \<Rightarrow> 'a world_scheme
     \<Rightarrow> 'a world_scheme \<times> (registry_error + bid list \<times> bid list)" where
  "Apply parse diff newBackends w =
     (let cur = snap w; byName = by_name w (backends cur)
      in case apply_loop parse byName (identities (Added diff)) (identities (Unchanged diff))
                newBackends w [] [] of
           (w1, Inl e) \<Rightarrow> (w1, Inl e)
         | (w1, Inr (next, added)) \<Rightarrow>
             (let (w2, rmd) = remove_loop byName (Removed diff) w1 []
              in (w2\<lparr>snap := \<lparr>version = version cur + 1, backends = next\<rparr>\<rparr>, Inr (added, rmd))))"

section \<open>The gate's contract and the pool of selectable backends\<close>

text \<open>
  What the registry and the selectors rely on, at one instant: asking about a backend changes
  that backend's circuit at most (and the log and the metrics); the answer depends on that
  backend alone; asking again changes nothing and answers the same; and no backend that is
  open is admitted.
\<close>

locale circuit_gate =
  fixes gate :: "'a world_scheme CircuitGate"
  assumes open_frame: "same_but_circuit b w (fst (GateOpen gate b w))"
    and open_local: "heap w' b = heap w b \<Longrightarrow> snd (GateOpen gate b w') = snd (GateOpen gate b w)"
    and open_again: "GateOpen gate b (fst (GateOpen gate b w)) = GateOpen gate b w"
    and allow_frame: "same_but_circuit b w (fst (GateAllow gate b w))"
    and allow_not_open: "snd (GateAllow gate b w) \<Longrightarrow> \<not> snd (GateOpen gate b w)"
begin

text \<open>What makes a backend selectable.\<close>

definition eligible :: "'a world_scheme \<Rightarrow> bid \<Rightarrow> bool" where
  "eligible w b \<longleftrightarrow> healthy (heap w b) \<and> \<not> snd (GateOpen gate b w)"

lemma open_other:
  assumes "b' \<noteq> b"
  shows "eligible (fst (GateOpen gate b w)) b' = eligible w b'"
  using open_frame [of b w] open_local [of "fst (GateOpen gate b w)" b' w] assms
  by (simp add: eligible_def same_but_circuit_def)

lemma open_same: "eligible (fst (GateOpen gate b w)) b = eligible w b"
proof -
  have "healthy (heap (fst (GateOpen gate b w)) b) = healthy (heap w b)"
    by (rule same_but_circuitsD) (use open_frame [of b w] in \<open>simp add: same_but_circuit_def\<close>)
  then show ?thesis by (simp add: eligible_def open_again)
qed

lemma open_eligible: "eligible (fst (GateOpen gate b w)) = eligible w"
  by (rule ext) (metis open_other open_same)

lemma selectable_loop_spec:
  "snd (selectable_loop (Some gate) bs w acc) = acc @ filter (eligible w) bs
   \<and> same_but_circuits w (fst (selectable_loop (Some gate) bs w acc))
   \<and> eligible (fst (selectable_loop (Some gate) bs w acc)) = eligible w"
proof (induction bs arbitrary: w acc)
  case (Cons b bs)
  obtain w1 isopen where g: "GateOpen gate b w = (w1, isopen)" by (cases "GateOpen gate b w")
  have w1: "same_but_circuits w w1" "eligible w1 = eligible w"
    using open_frame [of b w] open_eligible [of b w] by (simp_all add: g same_but_circuit_def)
  have e: "eligible w b \<longleftrightarrow> healthy (heap w b) \<and> \<not> isopen" by (simp add: eligible_def g)
  show ?case
    using Cons.IH [of w acc] Cons.IH [of w1 acc] Cons.IH [of w1 "acc @ [b]"] w1
    by (auto simp: IsHealthy_def g e intro: same_but_circuits_trans)
qed simp

text \<open>
  The pool is the snapshot's backends that are healthy and whose circuit is not open, in
  registry order; the scan may promote circuits and does nothing else, and a second scan gives
  the same pool.
\<close>

lemma Selectable_pool:
  "snd (Selectable (Some gate) w) = filter (eligible w) (backends (snap w))"
  "same_but_circuits w (fst (Selectable (Some gate) w))"
  "eligible (fst (Selectable (Some gate) w)) = eligible w"
  using selectable_loop_spec [of "backends (snap w)" w "[]"] by (simp_all add: Selectable_def)

lemma Selectable_again:
  "snd (Selectable (Some gate) (fst (Selectable (Some gate) w))) = snd (Selectable (Some gate) w)"
  using Selectable_pool [of w] Selectable_pool [of "fst (Selectable (Some gate) w)"]
  by (simp add: same_but_circuitsD)

lemma Allow_eligible:
  assumes "snd (Allow (Some gate) b w)" and "healthy (heap w b)"
  shows "eligible w b"
  using assms allow_not_open by (simp add: Allow_def eligible_def)

end

lemma Selectable_no_gate:
  "Selectable None w = (w, filter (\<lambda>b. healthy (heap w b)) (backends (snap w)))"
proof -
  have "selectable_loop None bs w acc = (w, acc @ filter (\<lambda>b. healthy (heap w b)) bs)" for bs acc
    by (induction bs arbitrary: acc) (simp_all add: IsHealthy_def)
  then show ?thesis by (simp add: Selectable_def)
qed

section \<open>The swap\<close>

definition registry_wf :: "'a world_scheme \<Rightarrow> bool" where
  "registry_wf w \<longleftrightarrow>
     distinct (map (\<lambda>b. Name (heap w b)) (backends (snap w))) \<and>
     (\<forall>b \<in> set (backends (snap w)). b < nextbid w \<and> \<not> removed (heap w b))"

text \<open>The snapshot serves exactly these configured backends, in the file's order.\<close>

definition serves :: "(string \<Rightarrow> url option) \<Rightarrow> 'a world_scheme \<Rightarrow> BackendConfig \<Rightarrow> bid \<Rightarrow> bool" where
  "serves parse w cfg b \<longleftrightarrow>
     Name (heap w b) = CfgName cfg \<and> parse (CfgURL cfg) = Some (URL (heap w b))"

definition registry_matches ::
  "(string \<Rightarrow> url option) \<Rightarrow> 'a world_scheme \<Rightarrow> BackendConfig list \<Rightarrow> bool" where
  "registry_matches parse w cfgs \<longleftrightarrow> list_all2 (serves parse w) cfgs (backends (snap w))"

definition added_backend :: "(string \<Rightarrow> url option) \<Rightarrow> BackendConfig \<Rightarrow> backend" where
  "added_backend parse cfg =
     \<lparr>Name = CfgName cfg, URL = the (parse (CfgURL cfg)), healthy = False, active = 0,
      latencyEWMA = 0, circuit = None, removed = False, retiredCtx = Some None\<rparr>"

lemma newBackend_unhealthy:
  "parse (CfgURL cfg) \<noteq> None \<Longrightarrow>
     \<exists>bk. newBackend parse cfg = Inr bk \<and> MarkUnhealthy bk = added_backend parse cfg"
  by (auto simp: newBackend_def added_backend_def MarkHealthy_def MarkUnhealthy_def Let_def)

lemma by_name_fold:
  "foldl (\<lambda>m b. m(g b \<mapsto> b)) m0 bs x =
     (case find (\<lambda>b. g b = x) (rev bs) of None \<Rightarrow> m0 x | Some b \<Rightarrow> Some b)"
proof (induction bs rule: rev_induct)
  case (snoc b bs)
  then show ?case by simp
qed simp

lemma by_name_Some:
  assumes "distinct (map (\<lambda>b. Name (heap w b)) bs)" and "b \<in> set bs"
  shows "by_name w bs (Name (heap w b)) = Some b"
proof -
  obtain b' where b': "find (\<lambda>c. Name (heap w c) = Name (heap w b)) (rev bs) = Some b'"
    using find_exists [of b "rev bs" "\<lambda>c. Name (heap w c) = Name (heap w b)"] assms(2) by auto
  then have "b' \<in> set bs" "Name (heap w b') = Name (heap w b)"
    using find_Some_iff_nth [OF b'] by auto
  then have "b' = b" using assms inj_onD [of "\<lambda>b. Name (heap w b)" "set bs"]
    by (auto simp: distinct_map)
  with b' show ?thesis by (simp add: by_name_def by_name_fold)
qed

lemma remove_loop_eq:
  assumes "\<forall>cfg \<in> set cfgs. byName (CfgName cfg) = Some (f cfg)"
  shows "remove_loop byName cfgs w rmd =
    (w\<lparr>heap := \<lambda>b. if b \<in> f ` set cfgs then markRemoved (heap w b) else heap w b\<rparr>,
     rmd @ map f cfgs)"
  using assms
proof (induction cfgs arbitrary: w rmd)
  case (Cons cfg cfgs)
  then have "remove_loop byName (cfg # cfgs) w rmd =
      remove_loop byName cfgs (on_backend (f cfg) markRemoved w) (rmd @ [f cfg])" by simp
  also have "\<dots> = (w\<lparr>heap := \<lambda>b. if b \<in> f ` set (cfg # cfgs) then markRemoved (heap w b) else heap w b\<rparr>,
     rmd @ map f (cfg # cfgs))"
    using Cons by (auto simp: on_backend_def markRemoved_def fun_eq_iff)
  finally show ?case .
qed simp

text \<open>What the walk over the new file has built after a segment of it.\<close>

definition built ::
  "(string \<Rightarrow> url option) \<Rightarrow> (BackendConfig \<Rightarrow> bid option) \<Rightarrow> BackendConfig list \<Rightarrow> 'a world_scheme
     \<Rightarrow> 'a world_scheme \<Rightarrow> bid list \<Rightarrow> bool" where
  "built parse keep cfgs w w' bs \<longleftrightarrow>
     (\<forall>b < nextbid w. heap w' b = heap w b) \<and> nextbid w \<le> nextbid w' \<and> snap w' = snap w \<and>
     prom w' = prom w \<and> logs w' = logs w \<and> world.more w' = world.more w \<and>
     filter (\<lambda>b. nextbid w \<le> b) bs = [nextbid w ..< nextbid w'] \<and>
     list_all2 (\<lambda>cfg b. case keep cfg of
         Some old \<Rightarrow> b = old
       | None \<Rightarrow> nextbid w \<le> b \<and> b < nextbid w' \<and> heap w' b = added_backend parse cfg) cfgs bs"

lemma apply_loop_built:
  assumes "\<forall>cfg \<in> set cfgs. parse (CfgURL cfg) \<noteq> None \<and>
      (case keep cfg of
         None \<Rightarrow> BackendIdentity cfg \<in> addedIds
       | Some b \<Rightarrow> BackendIdentity cfg \<notin> addedIds \<and> BackendIdentity cfg \<in> unchangedIds \<and>
                   byName (CfgName cfg) = Some b \<and> b < nextbid w)"
  shows "\<exists>w' bs. apply_loop parse byName addedIds unchangedIds cfgs w next added =
      (w', Inr (next @ bs, added @ [nextbid w ..< nextbid w'])) \<and> built parse keep cfgs w w' bs"
  using assms
proof (induction cfgs arbitrary: w "next" added)
  case Nil
  show ?case by (simp add: built_def)
next
  case (Cons cfg cfgs)
  show ?case
  proof (cases "keep cfg")
    case (Some b)
    with Cons.prems have step: "apply_loop parse byName addedIds unchangedIds (cfg # cfgs) w next added =
        apply_loop parse byName addedIds unchangedIds cfgs w (next @ [b]) added"
      and b: "b < nextbid w"
      by (simp_all add: Let_def inSet_def)
    obtain w' bs where "apply_loop parse byName addedIds unchangedIds cfgs w (next @ [b]) added =
        (w', Inr ((next @ [b]) @ bs, added @ [nextbid w ..< nextbid w']))"
      "built parse keep cfgs w w' bs"
      using Cons.IH [of w "next @ [b]" added] Cons.prems by auto
    with step Some b show ?thesis by (intro exI [of _ w'] exI [of _ "b # bs"]) (simp add: built_def)
  next
    case None
    obtain bk where bk: "newBackend parse cfg = Inr bk" "MarkUnhealthy bk = added_backend parse cfg"
      using newBackend_unhealthy [of parse cfg] Cons.prems by auto
    define w1 where "w1 = fst (alloc (added_backend parse cfg) w)"
    have w1: "alloc (added_backend parse cfg) w = (w1, nextbid w)" "nextbid w1 = nextbid w + 1"
      "heap w1 = (heap w)(nextbid w := added_backend parse cfg)" "snap w1 = snap w"
      "prom w1 = prom w" "logs w1 = logs w" "world.more w1 = world.more w"
      by (simp_all add: w1_def prod_eq_iff)
    have step: "apply_loop parse byName addedIds unchangedIds (cfg # cfgs) w next added =
        apply_loop parse byName addedIds unchangedIds cfgs w1 (next @ [nextbid w]) (added @ [nextbid w])"
      using None Cons.prems bk w1(1) by (simp add: Let_def inSet_def)
    have "\<forall>c \<in> set cfgs. parse (CfgURL c) \<noteq> None \<and>
      (case keep c of
         None \<Rightarrow> BackendIdentity c \<in> addedIds
       | Some b \<Rightarrow> BackendIdentity c \<notin> addedIds \<and> BackendIdentity c \<in> unchangedIds \<and>
                   byName (CfgName c) = Some b \<and> b < nextbid w1)"
      using Cons.prems w1(2) by (auto split: option.splits)
    from Cons.IH [OF this] obtain w' bs where r:
      "apply_loop parse byName addedIds unchangedIds cfgs w1 (next @ [nextbid w]) (added @ [nextbid w]) =
        (w', Inr ((next @ [nextbid w]) @ bs, (added @ [nextbid w]) @ [nextbid w1 ..< nextbid w']))"
      and b: "built parse keep cfgs w1 w' bs" by blast
    have keeps: "list_all2 (\<lambda>cfg b. case keep cfg of Some old \<Rightarrow> b = old
       | None \<Rightarrow> nextbid w1 \<le> b \<and> b < nextbid w' \<and> heap w' b = added_backend parse cfg) cfgs bs"
      using b by (simp add: built_def)
    have small: "b < nextbid w \<longleftrightarrow> b < nextbid w1" if mem: "b \<in> set bs" for b
    proof -
      obtain i where i: "i < length bs" "bs ! i = b" using mem by (auto simp: in_set_conv_nth)
      then have "cfgs ! i \<in> set cfgs" "case keep (cfgs ! i) of Some old \<Rightarrow> b = old
        | None \<Rightarrow> nextbid w1 \<le> b \<and> b < nextbid w' \<and> heap w' b = added_backend parse (cfgs ! i)"
        using list_all2_nthD2 [OF keeps i(1)] list_all2_lengthD [OF keeps] by auto
      then show ?thesis using Cons.prems w1(2) by (fastforce split: option.splits)
    qed
    have upt: "[nextbid w ..< nextbid w'] = nextbid w # [nextbid w1 ..< nextbid w']"
      using b w1(2) by (subst upt_conv_Cons) (auto simp: built_def)
    have "built parse keep (cfg # cfgs) w w' (nextbid w # bs)"
      unfolding built_def
    proof (intro conjI)
      show "filter ((\<le>) (nextbid w)) (nextbid w # bs) = [nextbid w ..< nextbid w']"
      proof -
        have "filter ((\<le>) (nextbid w)) bs = filter ((\<le>) (nextbid w1)) bs"
          using small by (intro filter_cong) (auto simp: linorder_not_less [symmetric])
        then show ?thesis using b upt by (simp add: built_def)
      qed
      show "list_all2 (\<lambda>cfg b. case keep cfg of Some old \<Rightarrow> b = old
         | None \<Rightarrow> nextbid w \<le> b \<and> b < nextbid w' \<and> heap w' b = added_backend parse cfg)
         (cfg # cfgs) (nextbid w # bs)"
        using b w1 None
        by (auto simp: built_def elim!: list_all2_mono split: option.splits)
    qed (use b w1 in \<open>auto simp: built_def\<close>)
    with step r upt show ?thesis
      by (intro exI [of _ w'] exI [of _ "nextbid w # bs"]) simp
  qed
qed

lemma in_identities_filter:
  assumes "\<forall>b \<in> set cfgs. CHR 0x00 \<notin> set (CfgName b)" and "CHR 0x00 \<notin> set (CfgName cfg)"
  shows "BackendIdentity cfg \<in> identities (filter P cfgs) \<longleftrightarrow> cfg \<in> set cfgs \<and> P cfg"
proof
  assume "BackendIdentity cfg \<in> identities (filter P cfgs)"
  then obtain b where b: "b \<in> set cfgs" "P b" "BackendIdentity b = BackendIdentity cfg"
    by (auto simp: identities_def)
  then have "b = cfg" using BackendIdentity_inj [of b cfg] assms by auto
  with b show "cfg \<in> set cfgs \<and> P cfg" by simp
qed (auto simp: identities_def)

lemma config_ok_parses:
  "config_ok parse c \<Longrightarrow> cfg \<in> set (Backends c) \<Longrightarrow> parse (CfgURL cfg) \<noteq> None"
  by (auto simp: config_ok_def url_ok_def split: option.splits)

lemma config_ok_distinct_names: "config_ok parse c \<Longrightarrow> distinct (map CfgName (Backends c))"
  by (simp add: config_ok_def)

text \<open>The address a configured backend is served at.\<close>

definition address_of :: "'a world_scheme \<Rightarrow> BackendConfig \<Rightarrow> bid" where
  "address_of w cfg = the (by_name w (backends (snap w)) (CfgName cfg))"

lemma address_of_serves:
  assumes "registry_wf w" and "registry_matches parse w cfgs" and "cfg \<in> set cfgs"
  shows "by_name w (backends (snap w)) (CfgName cfg) = Some (address_of w cfg)"
    and "address_of w cfg \<in> set (backends (snap w))" and "serves parse w cfg (address_of w cfg)"
proof -
  obtain i where i: "i < length cfgs" "cfgs ! i = cfg" using assms(3) by (auto simp: in_set_conv_nth)
  define b where "b = backends (snap w) ! i"
  have l: "length cfgs = length (backends (snap w))"
    using assms(2) by (simp add: registry_matches_def list_all2_lengthD)
  have b: "b \<in> set (backends (snap w))" using i l by (simp add: b_def)
  have s: "serves parse w cfg b"
    using assms(2) i by (auto simp: registry_matches_def b_def dest: list_all2_nthD)
  then have "by_name w (backends (snap w)) (CfgName cfg) = Some b"
    using by_name_Some [of w "backends (snap w)" b] assms(1) b by (simp add: registry_wf_def serves_def)
  then show "by_name w (backends (snap w)) (CfgName cfg) = Some (address_of w cfg)"
    "address_of w cfg \<in> set (backends (snap w))" "serves parse w cfg (address_of w cfg)"
    using b s by (simp_all add: address_of_def)
qed

lemma map_address_of:
  assumes "registry_wf w" and "registry_matches parse w cfgs"
  shows "map (address_of w) cfgs = backends (snap w)"
proof (rule nth_equalityI)
  show l: "length (map (address_of w) cfgs) = length (backends (snap w))"
    using assms(2) by (simp add: registry_matches_def list_all2_lengthD)
  fix i
  assume i: "i < length (map (address_of w) cfgs)"
  have d: "distinct (map (\<lambda>b. Name (heap w b)) (backends (snap w)))"
    using assms(1) by (simp add: registry_wf_def)
  have s: "serves parse w (cfgs ! i) (backends (snap w) ! i)"
    using assms(2) i by (auto simp: registry_matches_def dest: list_all2_nthD)
  have "by_name w (backends (snap w)) (Name (heap w (backends (snap w) ! i))) =
      Some (backends (snap w) ! i)"
    using i l by (intro by_name_Some [OF d]) simp
  with s i show "map (address_of w) cfgs ! i = backends (snap w) ! i"
    by (simp add: address_of_def serves_def)
qed

text \<open>The swap's outcome, for the diff of two validated files.\<close>

definition swapped ::
  "(string \<Rightarrow> url option) \<Rightarrow> BackendConfig list \<Rightarrow> BackendConfig list \<Rightarrow> 'a world_scheme
     \<Rightarrow> 'a world_scheme \<Rightarrow> bid list \<Rightarrow> bid list \<Rightarrow> bool" where
  "swapped parse old new w w' added rmd \<longleftrightarrow>
     version (snap w') = version (snap w) + 1 \<and> nextbid w \<le> nextbid w' \<and>
     list_all2 (\<lambda>cfg b.
         if cfg \<in> set old then b = address_of w cfg
         else b \<in> set added \<and> heap w' b = added_backend parse cfg) new (backends (snap w')) \<and>
     set added = {nextbid w ..< nextbid w'} \<and>
     set added = set (backends (snap w')) - set (backends (snap w)) \<and>
     set rmd = set (backends (snap w)) - set (backends (snap w')) \<and>
     (\<forall>b < nextbid w. heap w' b =
        (if b \<in> set rmd then (heap w b)\<lparr>removed := True\<rparr> else heap w b)) \<and>
     prom w' = prom w \<and> logs w' = logs w \<and> world.more w' = world.more w"

lemma registry_addresses:
  assumes "registry_wf w" and "registry_matches parse w old"
  shows "set (backends (snap w)) = address_of w ` set old" "inj_on (address_of w) (set old)"
    "cfg \<in> set old \<Longrightarrow> address_of w cfg < nextbid w"
proof -
  note m = map_address_of [OF assms]
  show s: "set (backends (snap w)) = address_of w ` set old" by (simp flip: m)
  have "distinct (map (address_of w) old)"
    using assms(1) by (simp add: m registry_wf_def distinct_map)
  then show "inj_on (address_of w) (set old)" by (simp add: distinct_map)
  show "cfg \<in> set old \<Longrightarrow> address_of w cfg < nextbid w"
    using assms(1) s by (auto simp: registry_wf_def)
qed

lemma Apply_swapped:
  assumes wf: "registry_wf w" and m: "registry_matches parse w (Backends old)"
    and ok: "config_ok parse old" "config_ok parse new"
  shows "\<exists>w' added rmd. Apply parse (DiffBackends old new) (Backends new) w = (w', Inr (added, rmd))
    \<and> swapped parse (Backends old) (Backends new) w w' added rmd"
proof -
  define byName where "byName = by_name w (backends (snap w))"
  define keep where "keep cfg = (if cfg \<in> set (Backends old) then Some (address_of w cfg) else None)" for cfg
  have nf: "nul_free old" "nul_free new" using ok by (simp_all add: config_ok_nul_free)
  note diff = DiffBackends_filters [OF nf]
  note addr = registry_addresses [OF wf m]
  have "\<forall>cfg \<in> set (Backends new). parse (CfgURL cfg) \<noteq> None \<and>
      (case keep cfg of
         None \<Rightarrow> BackendIdentity cfg \<in> identities (Added (DiffBackends old new))
       | Some b \<Rightarrow> BackendIdentity cfg \<notin> identities (Added (DiffBackends old new)) \<and>
                   BackendIdentity cfg \<in> identities (Unchanged (DiffBackends old new)) \<and>
                   byName (CfgName cfg) = Some b \<and> b < nextbid w)"
  proof
    fix cfg
    assume c: "cfg \<in> set (Backends new)"
    have i: "BackendIdentity cfg \<in> identities (filter P (Backends new)) \<longleftrightarrow> P cfg" for P
      using in_identities_filter [of "Backends new" cfg P] nf(2) c by (simp add: nul_free_def)
    show "parse (CfgURL cfg) \<noteq> None \<and>
      (case keep cfg of
         None \<Rightarrow> BackendIdentity cfg \<in> identities (Added (DiffBackends old new))
       | Some b \<Rightarrow> BackendIdentity cfg \<notin> identities (Added (DiffBackends old new)) \<and>
                   BackendIdentity cfg \<in> identities (Unchanged (DiffBackends old new)) \<and>
                   byName (CfgName cfg) = Some b \<and> b < nextbid w)"
      using config_ok_parses [OF ok(2) c] address_of_serves(1) [OF wf m] addr(3)
      by (simp add: diff i keep_def byName_def)
  qed
  from apply_loop_built [OF this, of "[]" "[]"] obtain w1 bs where
    loop: "apply_loop parse byName (identities (Added (DiffBackends old new)))
        (identities (Unchanged (DiffBackends old new))) (Backends new) w [] [] =
        (w1, Inr (bs, [nextbid w ..< nextbid w1]))"
    and b: "built parse keep (Backends new) w w1 bs" by auto
  define gone where "gone = filter (\<lambda>c. c \<notin> set (Backends new)) (Backends old)"
  define w2 where "w2 = w1\<lparr>heap := \<lambda>b. if b \<in> address_of w ` set gone then markRemoved (heap w1 b)
      else heap w1 b\<rparr>"
  have rem: "remove_loop byName gone w1 [] = (w2, map (address_of w) gone)"
    using remove_loop_eq [of gone byName "address_of w" w1 "[]"] address_of_serves(1) [OF wf m]
    by (simp add: gone_def byName_def w2_def)
  define w' where "w' = w2\<lparr>snap := \<lparr>version = version (snap w) + 1, backends = bs\<rparr>\<rparr>"
  have res: "Apply parse (DiffBackends old new) (Backends new) w =
      (w', Inr ([nextbid w ..< nextbid w1], map (address_of w) gone))"
    using loop rem by (simp add: Apply_def byName_def [symmetric] diff gone_def [symmetric] w'_def Let_def)
  have keeps: "list_all2 (\<lambda>cfg b. case keep cfg of Some old \<Rightarrow> b = old
       | None \<Rightarrow> nextbid w \<le> b \<and> b < nextbid w1 \<and> heap w1 b = added_backend parse cfg) (Backends new) bs"
    using b by (simp add: built_def)
  have small: "c \<in> set (Backends old) \<Longrightarrow> address_of w c < nextbid w" for c by (rule addr(3))
  have big_not_gone: "c \<in> set gone \<Longrightarrow> \<not> nextbid w \<le> address_of w c" for c
    using small [of c] by (simp add: gone_def)
  have bs_small: "b \<in> set bs \<and> b < nextbid w \<longleftrightarrow> (\<exists>c \<in> set (Backends new) \<inter> set (Backends old). b = address_of w c)" for b
  proof -
    have "b \<in> set bs \<and> b < nextbid w \<longleftrightarrow> (\<exists>i < length bs. bs ! i = b \<and> b < nextbid w)"
      by (auto simp: in_set_conv_nth)
    also have "\<dots> \<longleftrightarrow> (\<exists>i < length bs. Backends new ! i \<in> set (Backends old) \<and> b = address_of w (Backends new ! i))"
      using list_all2_nthD2 [OF keeps] small by (fastforce simp: keep_def split: if_splits)
    also have "\<dots> \<longleftrightarrow> (\<exists>c \<in> set (Backends new) \<inter> set (Backends old). b = address_of w c)"
    proof -
      have "set (Backends new) = {Backends new ! i | i. i < length bs}"
        using list_all2_lengthD [OF keeps] by (simp add: set_conv_nth)
      then show ?thesis by (simp only:) blast
    qed
    finally show ?thesis .
  qed
  have bs_big: "{b \<in> set bs. nextbid w \<le> b} = {nextbid w ..< nextbid w1}"
    using b unfolding built_def by (metis atLeastLessThan_upt set_filter)
  have "swapped parse (Backends old) (Backends new) w w' [nextbid w ..< nextbid w1] (map (address_of w) gone)"
    unfolding swapped_def
  proof (intro conjI)
    show "list_all2 (\<lambda>cfg b. if cfg \<in> set (Backends old) then b = address_of w cfg
         else b \<in> set [nextbid w ..< nextbid w1] \<and> heap w' b = added_backend parse cfg)
         (Backends new) (backends (snap w'))"
      using keeps
      by (auto simp: w'_def w2_def keep_def dest: big_not_gone elim!: list_all2_mono split: if_splits)
    have old: "set (backends (snap w)) \<subseteq> {..< nextbid w}" using addr(1) small by auto
    show "set [nextbid w ..< nextbid w1] = set (backends (snap w')) - set (backends (snap w))"
    proof -
      have "b \<in> set bs \<Longrightarrow> b < nextbid w \<Longrightarrow> b \<in> set (backends (snap w))" for b
        using bs_small [of b] addr(1) by auto
      then show ?thesis using bs_big old by (fastforce simp: w'_def)
    qed
    show "set (map (address_of w) gone) = set (backends (snap w)) - set (backends (snap w'))"
    proof -
      have "address_of w c \<in> set bs \<longleftrightarrow> c \<in> set (Backends new)" if "c \<in> set (Backends old)" for c
        using bs_small [of "address_of w c"] small [OF that] addr(2) that
        by (auto simp: inj_on_def)
      then show ?thesis by (auto simp: addr(1) gone_def w'_def)
    qed
    show "\<forall>b < nextbid w. heap w' b = (if b \<in> set (map (address_of w) gone)
        then (heap w b)\<lparr>removed := True\<rparr> else heap w b)"
      using b by (auto simp: built_def w'_def w2_def markRemoved_def)
  qed (use b in \<open>auto simp: built_def w'_def w2_def\<close>)
  with res show ?thesis by blast
qed

lemma swapped_matches:
  assumes wf: "registry_wf w" and m: "registry_matches parse w (Backends old)"
    and ok: "config_ok parse new"
    and sw: "swapped parse (Backends old) (Backends new) w w' added rmd"
  shows "registry_matches parse w' (Backends new)" and "registry_wf w'"
proof -
  have l: "list_all2 (\<lambda>cfg b.
         if cfg \<in> set (Backends old) then b = address_of w cfg
         else b \<in> set added \<and> heap w' b = added_backend parse cfg) (Backends new) (backends (snap w'))"
    using sw by (simp add: swapped_def)
  have kept: "serves parse w' cfg (address_of w cfg)" if "cfg \<in> set (Backends old)" for cfg
  proof -
    have "heap w' (address_of w cfg) = heap w (address_of w cfg) \<or>
        heap w' (address_of w cfg) = (heap w (address_of w cfg))\<lparr>removed := True\<rparr>"
      using sw registry_addresses(3) [OF wf m that] by (auto simp: swapped_def)
    then show ?thesis using address_of_serves(3) [OF wf m that] by (auto simp: serves_def)
  qed
  have serve: "serves parse w' cfg b" if "cfg \<in> set (Backends new)"
    "if cfg \<in> set (Backends old) then b = address_of w cfg
     else b \<in> set added \<and> heap w' b = added_backend parse cfg" for cfg b
    using that kept config_ok_parses [OF ok that(1)]
    by (auto simp: serves_def added_backend_def split: if_splits)
  show mm: "registry_matches parse w' (Backends new)"
    unfolding registry_matches_def
    by (rule list_all2_all_nthI) (use l serve in \<open>auto simp: list_all2_conv_all_nth\<close>)
  have names: "map (\<lambda>b. Name (heap w' b)) (backends (snap w')) = map CfgName (Backends new)"
    using mm by (intro nth_equalityI)
      (auto simp: registry_matches_def serves_def list_all2_conv_all_nth)
  have "b < nextbid w' \<and> \<not> removed (heap w' b)" if b: "b \<in> set (backends (snap w'))" for b
  proof (cases "b \<in> set added")
    case True
    obtain i where i: "i < length (backends (snap w'))" "backends (snap w') ! i = b"
      using b by (auto simp: in_set_conv_nth)
    have "nextbid w \<le> b" using True sw by (auto simp: swapped_def)
    then have "Backends new ! i \<notin> set (Backends old)"
      using list_all2_nthD2 [OF l i(1)] i(2) registry_addresses(3) [OF wf m, of "Backends new ! i"]
      by auto
    then have "heap w' b = added_backend parse (Backends new ! i)"
      using list_all2_nthD2 [OF l i(1)] i(2) by simp
    then show ?thesis using True sw by (auto simp: swapped_def added_backend_def)
  next
    case False
    then have old: "b \<in> set (backends (snap w))" using b sw by (auto simp: swapped_def)
    then have "b < nextbid w" "\<not> removed (heap w b)" using wf by (auto simp: registry_wf_def)
    then show ?thesis using sw b by (auto simp: swapped_def)
  qed
  then show "registry_wf w'"
    using names config_ok_distinct_names [OF ok] by (simp add: registry_wf_def)
qed

text \<open>
  C8. A reload's swap does what the diff of the two validated files describes: it succeeds,
  bumps the version by one, and publishes the new file's backends in the new file's order. A
  backend in both files keeps its object and all of its state, a backend only in the new file
  is a new object that starts unhealthy, a backend only in the old file is marked removed, and
  nothing else changes. The registry invariants hold again afterwards, so swaps compose.
\<close>

theorem Apply_performs_diff:
  assumes "registry_wf w" and "registry_matches parse w (Backends old)"
    and "config_ok parse old" "config_ok parse new"
  shows "\<exists>w' added rmd.
    Apply parse (DiffBackends old new) (Backends new) w = (w', Inr (added, rmd))
    \<and> swapped parse (Backends old) (Backends new) w w' added rmd
    \<and> registry_matches parse w' (Backends new) \<and> registry_wf w'"
  using Apply_swapped [OF assms] swapped_matches [OF assms(1,2,4)] by blast

text \<open>An inconsistent diff or an unparseable URL is an error that leaves every existing
  backend and the published snapshot alone.\<close>

lemma apply_loop_frame:
  "(\<forall>b < nextbid w. heap (fst (apply_loop parse byName A U cfgs w next added)) b = heap w b)
   \<and> snap (fst (apply_loop parse byName A U cfgs w next added)) = snap w
   \<and> nextbid w \<le> nextbid (fst (apply_loop parse byName A U cfgs w next added))"
proof (induction cfgs arbitrary: w "next" added)
  case (Cons cfg cfgs)
  show ?case
    using Cons.IH [of w] Cons.IH [of "fst (alloc bk w)" for bk]
    by (auto simp: Let_def split: sum.splits option.splits prod.splits)
      (metis alloc_fields(1,2,3) fst_conv fun_upd_other less_Suc_eq nat_neq_iff Suc_eq_plus1 Suc_leD)+
qed simp

text \<open>
  \<open>Apply\<close> is all or nothing: when it returns an error no existing backend has been
  marked or changed and the published snapshot is the old one.
\<close>

theorem Apply_error_changes_nothing:
  assumes "Apply parse d cfgs w = (w', Inl e)"
  shows "snap w' = snap w \<and> (\<forall>b < nextbid w. heap w' b = heap w b)"
  using assms apply_loop_frame [of w parse _ _ _ cfgs "[]" "[]"]
  by (auto simp: Apply_def Let_def split: prod.splits sum.splits) (metis fst_conv)+

section \<open>The registry at start-up\<close>

lemma new_registry_loop_spec:
  assumes "\<forall>cfg \<in> set cfgs. parse (CfgURL cfg) \<noteq> None"
  shows "\<exists>w'. new_registry_loop parse cfgs w acc = (w', Inr (acc @ [nextbid w ..< nextbid w']))
    \<and> nextbid w' = nextbid w + length cfgs
    \<and> (\<forall>b < nextbid w. heap w' b = heap w b)
    \<and> (\<forall>i < length cfgs. heap w' (nextbid w + i) = MarkHealthy (added_backend parse (cfgs ! i)))
    \<and> prom w' = prom w \<and> logs w' = logs w \<and> world.more w' = world.more w"
  using assms
proof (induction cfgs arbitrary: w acc)
  case (Cons cfg cfgs)
  define w1 where "w1 = fst (alloc (MarkHealthy (added_backend parse cfg)) w)"
  have w1: "alloc (MarkHealthy (added_backend parse cfg)) w = (w1, nextbid w)"
    "nextbid w1 = nextbid w + 1" "heap w1 = (heap w)(nextbid w := MarkHealthy (added_backend parse cfg))"
    "prom w1 = prom w" "logs w1 = logs w" "world.more w1 = world.more w"
    by (simp_all add: w1_def prod_eq_iff)
  have "newBackend parse cfg = Inr (MarkHealthy (added_backend parse cfg))"
    using Cons.prems by (auto simp: newBackend_def added_backend_def Let_def)
  then have step: "new_registry_loop parse (cfg # cfgs) w acc =
      new_registry_loop parse cfgs w1 (acc @ [nextbid w])" by (simp add: w1)
  obtain w' where w': "new_registry_loop parse cfgs w1 (acc @ [nextbid w]) =
      (w', Inr ((acc @ [nextbid w]) @ [nextbid w1 ..< nextbid w']))"
    "nextbid w' = nextbid w1 + length cfgs" "\<forall>b < nextbid w1. heap w' b = heap w1 b"
    "\<forall>i < length cfgs. heap w' (nextbid w1 + i) = MarkHealthy (added_backend parse (cfgs ! i))"
    "prom w' = prom w1" "logs w' = logs w1" "world.more w' = world.more w1"
    using Cons.IH [of w1 "acc @ [nextbid w]"] Cons.prems by auto
  have upt: "[nextbid w ..< nextbid w'] = nextbid w # [nextbid w1 ..< nextbid w']"
    using w'(2) w1(2) by (subst upt_conv_Cons) auto
  have "heap w' (nextbid w + i) = MarkHealthy (added_backend parse ((cfg # cfgs) ! i))"
    if "i < length (cfg # cfgs)" for i
    using that w'(3,4) w1 by (cases i) auto
  with step w' w1 upt show ?case by (intro exI [of _ w']) auto
qed simp

text \<open>
  Start-up: from a validated file \<open>NewRegistry\<close> succeeds and publishes version 1 with
  the file's backends in the file's order, all healthy with closed circuits, and the registry
  invariants hold.
\<close>

theorem NewRegistry_serves_file:
  assumes "config_ok parse c"
  shows "\<exists>w'. NewRegistry parse (Backends c) w = (w', Inr ())
    \<and> registry_matches parse w' (Backends c) \<and> registry_wf w' \<and> version (snap w') = 1
    \<and> (\<forall>b \<in> set (backends (snap w')). healthy (heap w' b) \<and> circuit (heap w' b) = None)"
proof -
  have p: "\<forall>cfg \<in> set (Backends c). parse (CfgURL cfg) \<noteq> None"
    using config_ok_parses [OF assms] by blast
  from new_registry_loop_spec [OF this, of w "[]"] obtain w1 where w1:
    "new_registry_loop parse (Backends c) w [] = (w1, Inr [nextbid w ..< nextbid w1])"
    "nextbid w1 = nextbid w + length (Backends c)"
    "\<forall>i < length (Backends c). heap w1 (nextbid w + i) = MarkHealthy (added_backend parse (Backends c ! i))"
    by auto
  define w' where "w' = w1\<lparr>snap := \<lparr>version = 1, backends = [nextbid w ..< nextbid w1]\<rparr>\<rparr>"
  have r: "NewRegistry parse (Backends c) w = (w', Inr ())" by (simp add: NewRegistry_def w1(1) w'_def)
  have m: "registry_matches parse w' (Backends c)"
    unfolding registry_matches_def using w1 p
    by (auto simp: w'_def list_all2_conv_all_nth serves_def added_backend_def MarkHealthy_def)
  have names: "map (\<lambda>b. Name (heap w' b)) (backends (snap w')) = map CfgName (Backends c)"
    using w1 by (intro nth_equalityI) (auto simp: w'_def added_backend_def MarkHealthy_def)
  have each: "b < nextbid w1 \<and> healthy (heap w' b) \<and> circuit (heap w' b) = None \<and> \<not> removed (heap w' b)"
    if "b \<in> set (backends (snap w'))" for b
  proof -
    have "nextbid w \<le> b" "b < nextbid w1" using that by (auto simp: w'_def)
    then obtain i where "i < length (Backends c)" "b = nextbid w + i"
      using w1(2) by (metis add_less_cancel_left le_Suc_ex)
    then show ?thesis using w1(3) \<open>b < nextbid w1\<close>
      by (simp add: w'_def added_backend_def MarkHealthy_def)
  qed
  have "registry_wf w'" using names config_ok_distinct_names [OF assms] each
    by (auto simp: registry_wf_def) (simp add: w'_def)
  with r m each show ?thesis by (intro exI [of _ w']) (auto simp: w'_def)
qed

text \<open>Two files and a registry for the witnesses.\<close>

definition sample_config2 :: Config where
  "sample_config2 = sample_config\<lparr>Backends :=
     [\<lparr>CfgName = ''b'', CfgURL = ''http://h''\<rparr>, \<lparr>CfgName = ''a'', CfgURL = ''http://h''\<rparr>]\<rparr>"

lemma config_ok_sample2: "config_ok sample_parse sample_config2"
  by (simp add: config_ok_def sample_config2_def sample_config_def sample_parse_def url_ok_def
      hostport_ok_def split_host_port_def last_index_byte_def has_prefix_def
      split_host_port_end_def parse_uint16_def is_digit_def digit_value_def less_eq_char_def
      backendNamePattern_def backendNameChar_def is_alpha_def durations_ok_def
      positive_if_set_def listen_if_set_def)

definition sample_registry :: world where
  "sample_registry = sample_world\<lparr>nextbid := 1, snap := \<lparr>version = 1, backends = [0]\<rparr>\<rparr>"

lemma sample_registry_ok:
  "registry_wf sample_registry" "registry_matches sample_parse sample_registry (Backends sample_config)"
  by (simp_all add: registry_wf_def registry_matches_def serves_def sample_registry_def
      sample_world_def fresh_backend_def sample_config_def sample_parse_def sample_url_def)

theorem NewRegistry_serves_file_witness:
  "\<exists>w'. NewRegistry sample_parse (Backends sample_config2) sample_world = (w', Inr ()) \<and> registry_wf w'"
  using NewRegistry_serves_file [OF config_ok_sample2, of sample_world] by blast

theorem Apply_performs_diff_witness:
  "\<exists>w' added rmd. Apply sample_parse (DiffBackends sample_config sample_config2)
      (Backends sample_config2) sample_registry = (w', Inr (added, rmd)) \<and> version (snap w') = 2"
proof -
  have "version (snap sample_registry) = 1" by (simp add: sample_registry_def)
  then show ?thesis
    using Apply_performs_diff [OF sample_registry_ok config_ok_sample config_ok_sample2]
    by (fastforce simp: swapped_def)
qed

theorem Apply_error_changes_nothing_witness:
  "snap (fst (Apply (\<lambda>u. None) (DiffBackends sample_config sample_config2)
     (Backends sample_config2) sample_registry)) = snap sample_registry"
proof -
  have "Apply (\<lambda>u. None) (DiffBackends sample_config sample_config2)
     (Backends sample_config2) sample_registry =
     (sample_registry, Inl (ParseURL ''http://h'' ''b''))"
    by (simp add: Apply_def DiffBackends_eq identities_def backendIdentities_def newBackend_def inSet_def
        sample_config2_def sample_config_def BackendIdentity_def)
  from Apply_error_changes_nothing [OF this] show ?thesis
    by (simp add: \<open>Apply _ _ _ _ = _\<close>)
qed

end
