(* ===== verification/Observer.thy ===== *)
theory Observer
  imports World
begin

text \<open>
  The round-trip observer interface of \<open>internal/proxy/proxy.go\<close>
  (\<open>RoundTripObserver\<close>): what the proxy tells every observer of every backend round trip,
  and what it relies on them to leave alone. The latency observer, passive outlier detection and
  the circuit breaker implement it.
\<close>

type_synonym 'w RoundTripObserver = "bid \<Rightarrow> duration \<Rightarrow> bool \<Rightarrow> 'w \<Rightarrow> 'w"

text \<open>
  An observer may move health, latency, circuit, log and metrics; the slot accounting, the
  identity of the backends and the published snapshot are not its business.
\<close>

definition slots_kept :: "'a world_scheme \<Rightarrow> 'a world_scheme \<Rightarrow> bool" where
  "slots_kept w w' \<longleftrightarrow>
     (\<forall>b. active (heap w' b) = active (heap w b) \<and> removed (heap w' b) = removed (heap w b) \<and>
          Name (heap w' b) = Name (heap w b) \<and> URL (heap w' b) = URL (heap w b) \<and>
          retiredCtx (heap w' b) = retiredCtx (heap w b)) \<and>
     nextbid w' = nextbid w \<and> snap w' = snap w"

lemma slots_kept_refl [simp]: "slots_kept w w"
  by (simp add: slots_kept_def)

lemma slots_kept_trans: "slots_kept w1 w2 \<Longrightarrow> slots_kept w2 w3 \<Longrightarrow> slots_kept w1 w3"
  by (simp add: slots_kept_def)

lemma slots_kept_circuits: "same_but_circuits w w' \<Longrightarrow> slots_kept w w'"
  by (simp add: slots_kept_def same_but_circuitsD)

locale round_trip_observer =
  fixes observe :: "'a world_scheme RoundTripObserver"
  assumes observe_keeps: "slots_kept w (observe b d ok w)"
    and observe_others: "b' \<noteq> b \<Longrightarrow> heap (observe b d ok w) b' = heap w b'"

text \<open>\<open>notify\<close>: every observer in registration order, unless the backend is removed.\<close>

definition fan_out ::
  "'a world_scheme RoundTripObserver list \<Rightarrow> bid \<Rightarrow> duration \<Rightarrow> bool \<Rightarrow> 'a world_scheme
     \<Rightarrow> 'a world_scheme" where
  "fan_out os b d ok w = (if IsRemoved (heap w b) then w else fold (\<lambda>obs. obs b d ok) os w)"

lemma fan_out_keeps:
  assumes "\<forall>obs \<in> set os. round_trip_observer obs"
  shows "slots_kept w (fan_out os b d ok w)"
    and "b' \<noteq> b \<Longrightarrow> heap (fan_out os b d ok w) b' = heap w b'"
proof -
  have "slots_kept w (fold (\<lambda>obs. obs b d ok) os w) \<and>
      (b' \<noteq> b \<longrightarrow> heap (fold (\<lambda>obs. obs b d ok) os w) b' = heap w b')"
    using assms
  proof (induction os arbitrary: w)
    case (Cons obs os)
    then have o: "slots_kept w (obs b d ok w)" "b' \<noteq> b \<longrightarrow> heap (obs b d ok w) b' = heap w b'"
      using round_trip_observer.observe_keeps round_trip_observer.observe_others by auto
    have "slots_kept (obs b d ok w) (fold (\<lambda>obs. obs b d ok) os (obs b d ok w)) \<and>
      (b' \<noteq> b \<longrightarrow> heap (fold (\<lambda>obs. obs b d ok) os (obs b d ok w)) b' = heap (obs b d ok w) b')"
      using Cons by auto
    with o show ?case by (auto intro: slots_kept_trans)
  qed simp
  then show "slots_kept w (fan_out os b d ok w)"
    "b' \<noteq> b \<Longrightarrow> heap (fan_out os b d ok w) b' = heap w b'"
    by (simp_all add: fan_out_def)
qed

end
