(* ===== verification/Circuit_Breaker.thy ===== *)
theory Circuit_Breaker
  imports Registry Observer
begin

text \<open>
  The circuit breaker, \<open>internal/circuit/circuit.go\<close>: the policy around a backend's
  circuit methods. It answers the registry's two gate questions, folds round trips into the
  circuit, and writes one log line and one gauge update for each genuine transition it sees.
  \<open>now b\<close> is what the clock shows when backend \<open>b\<close> is looked at.
\<close>

definition circuitFailuresBeforeOpen :: nat where
  "circuitFailuresBeforeOpen = 3"

definition Breaker_Open ::
  "duration \<Rightarrow> (bid \<Rightarrow> instant) \<Rightarrow> bid \<Rightarrow> 'a world_scheme \<Rightarrow> 'a world_scheme \<times> bool" where
  "Breaker_Open cooldown now b w = ask_backend b (CircuitOpen cooldown (now b)) w"

definition Breaker_Allow ::
  "duration \<Rightarrow> (bid \<Rightarrow> instant) \<Rightarrow> bid \<Rightarrow> 'a world_scheme \<Rightarrow> 'a world_scheme \<times> bool" where
  "Breaker_Allow cooldown now b w =
     (let (w1, allowed, transition) = ask_backend b (CircuitAllow cooldown (now b)) w;
          name = Name (heap w1 b)
      in (if transition = CircuitHalfOpened
          then log (transition_line LevelInfo ''circuit half-opened'' name
                      EventCircuitHalfOpened ReasonCooldownElapsed)
                 (meter (SetCircuitState name CircuitStateHalfOpen) w1)
          else w1, allowed))"

definition Breaker_ObserveRoundTrip ::
  "(bid \<Rightarrow> instant) \<Rightarrow> bid \<Rightarrow> duration \<Rightarrow> bool \<Rightarrow> 'a world_scheme \<Rightarrow> 'a world_scheme" where
  "Breaker_ObserveRoundTrip now b d success w =
     (if success then
        (let (w1, t) = ask_backend b CircuitSuccess w; name = Name (heap w1 b)
         in if t = CircuitClosed
            then log (transition_line LevelInfo ''circuit closed'' name EventCircuitClosed
                        ReasonTrialSuccess)
                   (meter (SetCircuitState name CircuitStateClosed) w1)
            else w1)
      else
        (let (w1, t) = ask_backend b (CircuitFailure (int circuitFailuresBeforeOpen) (now b)) w;
             name = Name (heap w1 b)
         in case t of
              CircuitOpened \<Rightarrow>
                log (transition_line LevelWarn ''circuit opened'' name EventCircuitOpened
                       ReasonConsecutiveFailures)
                  (meter (SetCircuitState name CircuitStateOpen) w1)
            | CircuitReopened \<Rightarrow>
                log (transition_line LevelWarn ''circuit reopened'' name EventCircuitOpened
                       ReasonTrialFailure)
                  (meter (SetCircuitState name CircuitStateOpen) w1)
            | _ \<Rightarrow> w1))"

text \<open>The gate a \<open>Breaker\<close> is to the registry.\<close>

definition breaker_gate ::
  "duration \<Rightarrow> (bid \<Rightarrow> instant) \<Rightarrow> 'a world_scheme CircuitGate" where
  "breaker_gate cooldown now =
     \<lparr>GateOpen = Breaker_Open cooldown now, GateAllow = Breaker_Allow cooldown now\<rparr>"

section \<open>The breaker is a circuit gate and an observer\<close>

lemma same_but_circuit_on_backend:
  assumes "\<exists>c. f (heap w b) = (heap w b)\<lparr>circuit := c\<rparr>"
  shows "same_but_circuit b w (on_backend b f w)"
  using assms by (auto simp: same_but_circuit_def same_but_circuits_def)

lemma same_but_circuit_log_meter [simp]:
  "same_but_circuit b w (log l w') = same_but_circuit b w w'"
  "same_but_circuit b w (meter f w') = same_but_circuit b w w'"
  by (simp_all add: same_but_circuit_def same_but_circuits_def)

lemma promote_twice:
  "run_once (currentCircuit_body cd now) (fst (run_once (currentCircuit_body cd now) c)) =
     (fst (run_once (currentCircuit_body cd now) c),
      fst (snd (run_once (currentCircuit_body cd now) c)), False)"
  by (auto simp: currentCircuit_body_def circuit_abs_defs Let_def split: option.splits)

lemma CircuitOpen_again: "CircuitOpen cd now (fst (CircuitOpen cd now bk)) = CircuitOpen cd now bk"
  by (simp add: CircuitOpen_eq promote_twice)

lemma CircuitAllow_not_open: "fst (snd (CircuitAllow cd now bk)) \<Longrightarrow> \<not> snd (CircuitOpen cd now bk)"
  by (auto simp: CircuitAllow_bstate CircuitOpen_bstate)

lemma Breaker_Open_eq:
  "Breaker_Open cd now b w =
     (on_backend b (\<lambda>bk. fst (CircuitOpen cd (now b) bk)) w, snd (CircuitOpen cd (now b) (heap w b)))"
  by (simp add: Breaker_Open_def ask_backend_eq)

interpretation breaker: circuit_gate "breaker_gate cd now" for cd now
proof unfold_locales
  fix b and w w' :: "'a world_scheme"
  show "same_but_circuit b w (fst (GateOpen (breaker_gate cd now) b w))"
    by (simp add: breaker_gate_def Breaker_Open_eq same_but_circuit_on_backend circuit_frame)
  show "heap w' b = heap w b \<Longrightarrow>
      snd (GateOpen (breaker_gate cd now) b w') = snd (GateOpen (breaker_gate cd now) b w)"
    by (simp add: breaker_gate_def Breaker_Open_eq)
  show "GateOpen (breaker_gate cd now) b (fst (GateOpen (breaker_gate cd now) b w)) =
      GateOpen (breaker_gate cd now) b w"
    by (simp add: breaker_gate_def Breaker_Open_eq CircuitOpen_again on_backend_def)
  show "same_but_circuit b w (fst (GateAllow (breaker_gate cd now) b w))"
    by (auto simp: breaker_gate_def Breaker_Allow_def ask_backend_eq Let_def
        intro!: same_but_circuit_on_backend circuit_frame split: prod.splits)
  show "snd (GateAllow (breaker_gate cd now) b w) \<Longrightarrow> \<not> snd (GateOpen (breaker_gate cd now) b w)"
    using CircuitAllow_not_open [of cd "now b" "heap w b"]
    by (auto simp: breaker_gate_def Breaker_Allow_def Breaker_Open_eq ask_backend_eq Let_def
        split: prod.splits)
qed

lemma Breaker_observe_circuit:
  "same_but_circuit b w (Breaker_ObserveRoundTrip now b d ok w)"
  by (auto simp: Breaker_ObserveRoundTrip_def ask_backend_eq Let_def
      intro!: same_but_circuit_on_backend circuit_frame split: CircuitTransition.splits)

interpretation breaker_observer: round_trip_observer "Breaker_ObserveRoundTrip now" for now
proof unfold_locales
  fix w :: "'a world_scheme" and b b' d ok
  have *: "same_but_circuit b w (Breaker_ObserveRoundTrip now b d ok w)"
    by (rule Breaker_observe_circuit)
  then show "slots_kept w (Breaker_ObserveRoundTrip now b d ok w)"
    by (simp add: same_but_circuit_def slots_kept_circuits)
  show "b' \<noteq> b \<Longrightarrow> heap (Breaker_ObserveRoundTrip now b d ok w) b' = heap w b'"
    using * by (simp add: same_but_circuit_def)
qed

section \<open>Routing eligibility\<close>

text \<open>What makes a backend routable: healthy, and its circuit not open at this instant.\<close>

definition routable :: "duration \<Rightarrow> (bid \<Rightarrow> instant) \<Rightarrow> 'a world_scheme \<Rightarrow> bid \<Rightarrow> bool" where
  "routable cd now w b \<longleftrightarrow>
     healthy (heap w b) \<and> (\<nexists>t. spec_promote cd (now b) (bstate (heap w b)) = Open t)"

lemma breaker_eligible: "circuit_gate.eligible (breaker_gate cd now) w = routable cd now w"
  unfolding fun_eq_iff breaker.eligible_def routable_def
  by (simp add: breaker_gate_def Breaker_Open_eq CircuitOpen_bstate)

text \<open>
  With the breaker installed, \<open>Selectable\<close> returns the backends of the published
  snapshot that are healthy and whose circuit is not open at this instant (a circuit whose
  cooldown has elapsed counts as half-open), in registry order. The scan changes nothing but
  circuits, and scanning again at the same instant gives the same pool.
\<close>

theorem Selectable_with_breaker:
  "snd (Selectable (Some (breaker_gate cd now)) w) = filter (routable cd now w) (backends (snap w))
   \<and> same_but_circuits w (fst (Selectable (Some (breaker_gate cd now)) w))
   \<and> snd (Selectable (Some (breaker_gate cd now)) (fst (Selectable (Some (breaker_gate cd now)) w)))
       = snd (Selectable (Some (breaker_gate cd now)) w)"
  unfolding breaker_eligible [symmetric]
  by (intro conjI breaker.Selectable_pool(1,2) breaker.Selectable_again)

text \<open>Every admitted backend that is healthy was in the pool of the same instant.\<close>

lemma admitted_is_selectable:
  assumes "snd (Allow (Some (breaker_gate cd now)) b w)" and "healthy (heap w b)"
    and "b \<in> set (backends (snap w))"
  shows "b \<in> set (snd (Selectable (Some (breaker_gate cd now)) w))"
  using breaker.Allow_eligible [OF assms(1,2)] assms(3)
  by (simp add: breaker.Selectable_pool)

section \<open>The log and the gauge\<close>

fun state_label :: "breaker_state \<Rightarrow> string" where
  "state_label (Closed n) = CircuitStateClosed"
| "state_label (Open t) = CircuitStateOpen"
| "state_label (HalfOpen taken) = CircuitStateHalfOpen"

fun same_kind :: "breaker_state \<Rightarrow> breaker_state \<Rightarrow> bool" where
  "same_kind (Closed n) (Closed m) = True"
| "same_kind (Open t) (Open u) = True"
| "same_kind (HalfOpen a) (HalfOpen b) = True"
| "same_kind s s' = False"

definition spec_outcome :: "bool \<Rightarrow> instant \<Rightarrow> breaker_state \<Rightarrow> breaker_state" where
  "spec_outcome ok now s =
     (if ok then fst (spec_success s) else fst (spec_failure circuitFailuresBeforeOpen now s))"

fun outcome_reason :: "bool \<Rightarrow> breaker_state \<Rightarrow> reason" where
  "outcome_reason ok (Closed n) = ReasonConsecutiveFailures"
| "outcome_reason ok (Open t) = ReasonCooldownElapsed"
| "outcome_reason ok (HalfOpen a) = (if ok then ReasonTrialSuccess else ReasonTrialFailure)"

lemma state_label_valid [simp]: "circuit_state_valid (state_label s)"
  by (cases s) (simp_all add: circuit_state_valid_iff circuitStates_def)

text \<open>What one observed round trip does to circuit, log and gauge.\<close>

lemma Breaker_observe_steps:
  fixes w :: "'a world_scheme" and now d ok
  assumes "circuit_wf circuitFailuresBeforeOpen (circuit (heap w b))"
  defines "s \<equiv> bstate (heap w b)" and "w' \<equiv> Breaker_ObserveRoundTrip now b d ok w"
    and "s' \<equiv> spec_outcome ok (now b) (bstate (heap w b))"
  shows "bstate (heap w' b) = s'"
    and "circuit_wf circuitFailuresBeforeOpen (circuit (heap w' b))"
    and "same_kind s s' \<Longrightarrow> prom w' = prom w \<and> logs w' = logs w"
    and "\<not> same_kind s s' \<Longrightarrow>
      prom w' = SetCircuitState (Name (heap w b)) (state_label s') (prom w)
      \<and> (\<exists>lv msg ev. logs w' = logs w @ [transition_line lv msg (Name (heap w b)) ev (outcome_reason ok s)])"
proof -
  have th: "0 < circuitFailuresBeforeOpen" "circuitFailuresBeforeOpen < 2 ^ 31"
    by (simp_all add: circuitFailuresBeforeOpen_def)
  note f = CircuitFailure_bstate [OF assms(1) th, of "now b"]
  note su = CircuitSuccess_bstate [of "heap w b"]
  have nm: "Name (fst (CircuitSuccess (heap w b))) = Name (heap w b)"
    "Name (fst (CircuitFailure (int circuitFailuresBeforeOpen) (now b) (heap w b))) = Name (heap w b)"
    using circuit_frame(4) [of "heap w b"]
      circuit_frame(5) [of "int circuitFailuresBeforeOpen" "now b" "heap w b"] by fastforce+
  have heap: "heap w' b = (if ok then fst (CircuitSuccess (heap w b))
      else fst (CircuitFailure (int circuitFailuresBeforeOpen) (now b) (heap w b)))"
    by (simp add: w'_def Breaker_ObserveRoundTrip_def ask_backend_eq Let_def
        split: CircuitTransition.splits)
  show "bstate (heap w' b) = s'"
    by (simp add: heap s'_def spec_outcome_def f su)
  show "circuit_wf circuitFailuresBeforeOpen (circuit (heap w' b))"
    using f(3) circuit_methods_wf(4) [OF assms(1)] by (simp add: heap)
  show "same_kind s s' \<Longrightarrow> prom w' = prom w \<and> logs w' = logs w"
    by (cases s; cases ok)
       (auto simp: w'_def s'_def s_def spec_outcome_def Breaker_ObserveRoundTrip_def ask_backend_eq
         f su Let_def split: if_splits)
  show "\<not> same_kind s s' \<Longrightarrow>
      prom w' = SetCircuitState (Name (heap w b)) (state_label s') (prom w)
      \<and> (\<exists>lv msg ev. logs w' = logs w @ [transition_line lv msg (Name (heap w b)) ev (outcome_reason ok s)])"
    by (cases s; cases ok)
       (auto simp: w'_def s'_def s_def spec_outcome_def Breaker_ObserveRoundTrip_def ask_backend_eq
         f su nm Let_def split: if_splits)
qed

text \<open>
  The breaker folds a round trip into the circuit as the abstract machine does with a
  threshold of three, and it is edge-triggered: a round trip that leaves the state (closed, open
  or half-open) as it was writes neither log nor gauge; one that changes it appends exactly one
  line, with the reason of that transition, and leaves a scrape of the backend's state series
  at 1 for the new state and 0 for the other two.
\<close>

theorem Breaker_edge_triggered:
  fixes now d ok
  assumes "circuit_wf circuitFailuresBeforeOpen (circuit (heap w b))" and "gauge_vec_doc rd"
  defines "w' \<equiv> Breaker_ObserveRoundTrip now b d ok w"
    and "s \<equiv> bstate (heap w b)" and "s' \<equiv> spec_outcome ok (now b) (bstate (heap w b))"
  shows "bstate (heap w' b) = s'
    \<and> circuit_wf circuitFailuresBeforeOpen (circuit (heap w' b))
    \<and> (if same_kind s s' then prom w' = prom w \<and> logs w' = logs w
       else (\<forall>l \<in> set circuitStates. rd (prom w') lb_circuit_state [Name (heap w b), l] =
               Some (if l = state_label s' then 1 else 0))
          \<and> (\<exists>l. logs w' = logs w @ [l] \<and>
               log_attr ''backend'' l = Some (VStr (Name (heap w b))) \<and>
               log_attr ''reason'' l = Some (VStr (reason_name (outcome_reason ok s)))))"
proof -
  note st = Breaker_observe_steps [OF assms(1), where ok = ok and now = now and d = d]
  show ?thesis
  proof (cases "same_kind s s'")
    case True
    then show ?thesis using st unfolding w'_def s'_def s_def by simp
  next
    case False
    then obtain lv msg ev where l: "logs w' = logs w @
        [transition_line lv msg (Name (heap w b)) ev (outcome_reason ok s)]"
      and p: "prom w' = SetCircuitState (Name (heap w b)) (state_label s') (prom w)"
      using st(4) unfolding w'_def s'_def s_def by blast
    have "\<forall>l \<in> set circuitStates. rd (prom w') lb_circuit_state [Name (heap w b), l] =
               Some (if l = state_label s' then 1 else 0)"
      by (auto simp: p SetCircuitState_read [OF assms(2)])
    with False l st(1,2) show ?thesis unfolding w'_def s'_def s_def by simp
  qed
qed

theorem Breaker_edge_triggered_witness:
  "gauge_read (prom (Breaker_ObserveRoundTrip (\<lambda>b. 9) 0 5 False
      (sample_world\<lparr>heap := \<lambda>b. sample_backend\<rparr>))) lb_circuit_state [''a'', ''open''] = Some 1"
proof -
  let ?w = "sample_world\<lparr>heap := \<lambda>b. sample_backend\<rparr>"
  have wf: "circuit_wf circuitFailuresBeforeOpen (circuit (heap ?w 0))"
    by (simp add: sample_backend_def circuit_abs_defs circuitFailuresBeforeOpen_def)
  have s: "bstate sample_backend = Closed 2" "Name sample_backend = ''a''"
    by (simp_all add: sample_backend_def bstate_def circuit_abs_defs fresh_backend_def)
  show ?thesis
    using Breaker_edge_triggered [OF wf gauge_vec_doc_gauge_read, where ok = False and now = "\<lambda>b. 9"
        and d = 5]
    by (simp add: s spec_outcome_def circuitFailuresBeforeOpen_def circuitStates_def)
qed

text \<open>
  A breaker that has just opened denies for the cooldown: no request is admitted and the backend
  is in no pool before it has elapsed, and afterwards the first admission is the trial.
\<close>

lemma Breaker_Allow_answer:
  "snd (Breaker_Allow cd now b w) = fst (snd (CircuitAllow cd (now b) (heap w b)))"
  by (simp add: Breaker_Allow_def ask_backend_eq Let_def split: prod.splits)

lemma open_denies:
  assumes "bstate (heap w b) = Open t" and "time_since (now b) t < cd"
  shows "\<not> snd (Breaker_Allow cd now b w)" and "\<not> routable cd now w b"
  using assms by (auto simp: Breaker_Allow_answer CircuitAllow_bstate routable_def)

lemma cooled_down_admits_one:
  assumes "bstate (heap w b) = Open t" and "\<not> time_since (now b) t < cd"
  shows "snd (Breaker_Allow cd now b w)"
    and "\<not> snd (Breaker_Allow cd now' b (fst (Breaker_Allow cd now b w)))"
proof -
  note a = Breaker_Allow_answer
  have h: "heap (fst (Breaker_Allow cd now b w)) b = fst (CircuitAllow cd (now b) (heap w b))"
    by (simp add: Breaker_Allow_def ask_backend_eq Let_def split: prod.splits)
  show "snd (Breaker_Allow cd now b w)" using assms by (simp add: a CircuitAllow_bstate)
  show "\<not> snd (Breaker_Allow cd now' b (fst (Breaker_Allow cd now b w)))"
    using assms by (simp add: a h CircuitAllow_bstate)
qed

end
