(* ===== verification/Selectors.thy ===== *)
theory Selectors
  imports Circuit_Breaker
begin

text \<open>
  The selection strategies of \<open>internal/balancer\<close> that need no ring
  (\<open>roundrobin.go\<close>, \<open>leastconn.go\<close>, \<open>p2c_ewma.go\<close>), the hash key
  (\<open>hashkey.go\<close>) and the \<open>Selector\<close> interface with its contract
  (\<open>selector.go\<close>). A request matters to a selector only through its remote address.
\<close>

section \<open>The interface\<close>

datatype select_error = ErrNoHealthyBackends

text \<open>
  A selector's own state, the request's \<open>RemoteAddr\<close> and the world, to all three after the
  call. \<open>pool\<close> is what \<open>Selectable\<close> returns, \<open>ok\<close> what the selector needs of its
  state and the world: it answers exactly when something is selectable, with a healthy backend of
  the published snapshot, and changes nothing but its state and what a scan may change.
\<close>

type_synonym ('s, 'w) select_fun = "'s \<Rightarrow> string \<Rightarrow> 'w \<Rightarrow> 's \<times> 'w \<times> (select_error + bid)"

locale selector =
  fixes select :: "('s, 'a world_scheme) select_fun"
    and pool :: "'a world_scheme \<Rightarrow> bid list"
    and ok :: "'s \<Rightarrow> 'a world_scheme \<Rightarrow> bool"
  assumes select_frame: "ok s w \<Longrightarrow> same_but_circuits w (fst (snd (select s addr w)))"
    and select_ok: "ok s w \<Longrightarrow> ok (fst (select s addr w)) (fst (snd (select s addr w)))"
    and select_total: "ok s w \<Longrightarrow> pool w \<noteq> [] \<Longrightarrow> \<exists>b. snd (snd (select s addr w)) = Inr b"
    and select_empty: "ok s w \<Longrightarrow> pool w = [] \<Longrightarrow>
      snd (snd (select s addr w)) = Inl ErrNoHealthyBackends"
    and select_served: "ok s w \<Longrightarrow> snd (snd (select s addr w)) = Inr b \<Longrightarrow>
      b \<in> set (backends (snap w)) \<and> healthy (heap w b)"
begin

lemma select_error_iff:
  assumes "ok s w"
  shows "snd (snd (select s addr w)) = Inl e \<longleftrightarrow> pool w = []"
proof (cases "pool w = []")
  case True
  then show ?thesis using select_empty [OF assms] by (cases e) simp
next
  case False
  then show ?thesis using select_total [OF assms, of addr] by auto
qed

end

section \<open>Hash key\<close>

definition requestHashKey :: "string \<Rightarrow> string" where
  "requestHashKey remoteAddr =
     (case split_host_port remoteAddr of Inl err \<Rightarrow> remoteAddr | Inr (host, port) \<Rightarrow> host)"

text \<open>One client keeps one key whatever its source port.\<close>

lemma requestHashKey_port:
  assumes "set h \<inter> {CHR '':'', CHR ''['', CHR '']''} = {}"
    and "set p \<inter> {CHR '':'', CHR ''['', CHR '']''} = {}"
  shows "requestHashKey (h @ CHR '':'' # p) = h"
  by (simp add: requestHashKey_def split_host_port_plain [OF assms])

section \<open>Round robin\<close>

text \<open>The state is the \<open>uint64\<close> counter; \<open>Add\<close> wraps.\<close>

definition RoundRobin_Select ::
  "'a world_scheme CircuitGate option \<Rightarrow> (64 word, 'a world_scheme) select_fun" where
  "RoundRobin_Select g counter addr w =
     (let (w1, selectable) = Selectable g w
      in if length selectable = 0 then (counter, w1, Inl ErrNoHealthyBackends)
         else let counter1 = counter + 1; next = counter1 - 1
              in (counter1, w1, Inr (selectable ! unat (next mod of_nat (length selectable)))))"

section \<open>Least connections\<close>

fun least_loop :: "(bid \<Rightarrow> int) \<Rightarrow> bid list \<Rightarrow> bid \<Rightarrow> int \<Rightarrow> bid" where
  "least_loop act [] best bestActive = best"
| "least_loop act (b # bs) best bestActive =
     (if act b < bestActive then least_loop act bs b (act b)
      else least_loop act bs best bestActive)"

definition LeastConnections_Select ::
  "'a world_scheme CircuitGate option \<Rightarrow> (unit, 'a world_scheme) select_fun" where
  "LeastConnections_Select g u addr w =
     (let (w1, selectable) = Selectable g w
      in if length selectable = 0 then (u, w1, Inl ErrNoHealthyBackends)
         else let best = hd selectable; act = (\<lambda>b. ActiveConns (heap w1 b))
              in (u, w1, Inr (least_loop act (tl selectable) best (act best))))"

section \<open>Power of two choices\<close>

text \<open>
  \<open>draw k n\<close> is the answer of the \<open>k\<close>-th call of \<open>rand.IntN(n)\<close>, an arbitrary
  number below \<open>n\<close>.
\<close>

definition p2c_pick :: "(bid \<Rightarrow> duration) \<Rightarrow> (nat \<Rightarrow> nat \<Rightarrow> nat) \<Rightarrow> bid list \<Rightarrow> bid" where
  "p2c_pick lat draw selectable =
     (let i = draw 0 (length selectable);
          j = draw 1 (length selectable - 1);
          j = (if j \<ge> i then j + 1 else j)
      in if lat (selectable ! i) \<le> lat (selectable ! j) then selectable ! i else selectable ! j)"

definition PowerOfTwoChoicesEWMA_Select ::
  "'a world_scheme CircuitGate option \<Rightarrow> (nat \<Rightarrow> nat \<Rightarrow> nat) \<Rightarrow> (unit, 'a world_scheme) select_fun" where
  "PowerOfTwoChoicesEWMA_Select g draw u addr w =
     (let (w1, selectable) = Selectable g w
      in case length selectable of
           0 \<Rightarrow> (u, w1, Inl ErrNoHealthyBackends)
         | Suc 0 \<Rightarrow> (u, w1, Inr (selectable ! 0))
         | Suc (Suc n) \<Rightarrow> (u, w1, Inr (p2c_pick (\<lambda>b. EWMALatency (heap w1 b)) draw selectable)))"

definition draws_in_range :: "(nat \<Rightarrow> nat \<Rightarrow> nat) \<Rightarrow> bool" where
  "draws_in_range draw \<longleftrightarrow> (\<forall>k n. 0 < n \<longrightarrow> draw k n < n)"

section \<open>What the strategies choose from\<close>

text \<open>The production gate: the breaker, with the clock's readings.\<close>

abbreviation with_breaker ::
  "duration \<Rightarrow> (bid \<Rightarrow> instant) \<Rightarrow> 'a world_scheme CircuitGate option" where
  "with_breaker cd now \<equiv> Some (breaker_gate cd now)"

definition pool :: "duration \<Rightarrow> (bid \<Rightarrow> instant) \<Rightarrow> 'a world_scheme \<Rightarrow> bid list" where
  "pool cd now w = filter (routable cd now w) (backends (snap w))"

lemma Selectable_breaker:
  "snd (Selectable (with_breaker cd now) w) = pool cd now w"
  "same_but_circuits w (fst (Selectable (with_breaker cd now) w))"
  unfolding pool_def breaker_eligible [symmetric] by (rule breaker.Selectable_pool)+

lemma Selectable_breaker_obtain:
  obtains w1 where "Selectable (with_breaker cd now) w = (w1, pool cd now w)"
    and "same_but_circuits w w1"
  using Selectable_breaker [where cd = cd and now = now and w = w] by (metis prod.collapse)

lemma pool_member: "b \<in> set (pool cd now w) \<Longrightarrow> b \<in> set (backends (snap w)) \<and> healthy (heap w b)"
  by (simp add: pool_def routable_def)

text \<open>A strategy that answers with a member of the pool meets the interface's contract.\<close>

definition addressable :: "'a world_scheme \<Rightarrow> bool" where
  "addressable w \<longleftrightarrow> length (backends (snap w)) < 2 ^ 63"

lemma selector_from_pool:
  fixes select :: "('s, 'a world_scheme) select_fun"
  assumes "\<And>s addr w. addressable w \<Longrightarrow> \<exists>s' w1. same_but_circuits w w1 \<and>
      (if pool cd now w = [] then select s addr w = (s', w1, Inl ErrNoHealthyBackends)
       else \<exists>b \<in> set (pool cd now w). select s addr w = (s', w1, Inr b))"
  shows "selector select (pool cd now) (\<lambda>s. addressable)"
proof
  fix s addr b and w :: "'a world_scheme"
  assume ok: "addressable w"
  obtain s' w1 where r: "same_but_circuits w w1"
    "if pool cd now w = [] then select s addr w = (s', w1, Inl ErrNoHealthyBackends)
     else \<exists>b \<in> set (pool cd now w). select s addr w = (s', w1, Inr b)"
    using assms [OF ok] by blast
  show f: "same_but_circuits w (fst (snd (select s addr w)))"
    using r by (auto split: if_splits)
  show "addressable (fst (snd (select s addr w)))"
    using ok same_but_circuitsD(1) [OF f] by (simp add: addressable_def)
  show "pool cd now w \<noteq> [] \<Longrightarrow> \<exists>b. snd (snd (select s addr w)) = Inr b"
    using r(2) by auto
  show "pool cd now w = [] \<Longrightarrow> snd (snd (select s addr w)) = Inl ErrNoHealthyBackends"
    using r(2) by auto
  show "snd (snd (select s addr w)) = Inr b \<Longrightarrow> b \<in> set (backends (snap w)) \<and> healthy (heap w b)"
    using r(2) pool_member [where cd = cd and now = now and w = w] by (auto split: if_splits)
qed

lemma RoundRobin_eq:
  assumes "pool cd now w \<noteq> []"
  shows "\<exists>w1. same_but_circuits w w1 \<and> RoundRobin_Select (with_breaker cd now) c addr w =
    (c + 1, w1, Inr (pool cd now w ! (unat (c mod of_nat (length (pool cd now w))))))"
proof -
  obtain w1 where "Selectable (with_breaker cd now) w = (w1, pool cd now w)" "same_but_circuits w w1"
    by (rule Selectable_breaker_obtain)
  with assms show ?thesis by (auto simp: RoundRobin_Select_def)
qed

lemma unat_mod_of_nat_less: "0 < n \<Longrightarrow> n < 2 ^ 64 \<Longrightarrow> unat ((c :: 64 word) mod of_nat n) < n"
  by (simp add: unat_mod unat_of_nat)

lemma length_pool: "length (pool cd now w) \<le> length (backends (snap w))"
  by (simp add: pool_def)

interpretation rr: selector "RoundRobin_Select (with_breaker cd now)" "pool cd now" "\<lambda>s. addressable"
  for cd now
proof (rule selector_from_pool)
  fix c :: "64 word" and addr and w :: "'a world_scheme"
  assume "addressable w"
  then have "length (pool cd now w) < 2 ^ 64"
    using length_pool [where cd = cd and now = now and w = w] by (simp add: addressable_def)
  then have i: "pool cd now w \<noteq> [] \<Longrightarrow>
      unat (c mod of_nat (length (pool cd now w))) < length (pool cd now w)"
    by (intro unat_mod_of_nat_less) auto
  obtain w1 where s: "Selectable (with_breaker cd now) w = (w1, pool cd now w)" "same_but_circuits w w1"
    by (rule Selectable_breaker_obtain)
  show "\<exists>c' w1. same_but_circuits w w1 \<and>
      (if pool cd now w = [] then RoundRobin_Select (with_breaker cd now) c addr w = (c', w1, Inl ErrNoHealthyBackends)
       else \<exists>b \<in> set (pool cd now w). RoundRobin_Select (with_breaker cd now) c addr w = (c', w1, Inr b))"
    using s i
    by (intro exI [of _ "if pool cd now w = [] then c else c + 1"] exI [of _ w1])
       (auto simp: RoundRobin_Select_def)
qed

section \<open>Round robin is fair\<close>

lemma rr_pick_nat:
  assumes "0 < n" and "n < 2 ^ 63" and "unat c + k < 2 ^ 64"
  shows "unat ((c + of_nat k :: 64 word) mod of_nat n) = (unat c + k) mod n"
proof -
  have "unat (c + of_nat k) = unat c + k"
    using assms(3) by (simp add: unat_word_ariths unat_of_nat)
  then show ?thesis using assms by (simp add: unat_mod unat_of_nat)
qed

lemma count_mod_window:
  assumes "i < n"
  shows "card {k \<in> {..< m * n}. (c + k) mod n = i} = m"
proof (induction m)
  case (Suc m)
  have e: "{k \<in> {..< Suc m * n}. (c + k) mod n = i} =
      {k \<in> {..< m * n}. (c + k) mod n = i} \<union> {k \<in> {m * n ..< m * n + n}. (c + k) mod n = i}"
    by auto
  have one: "\<exists>!k. k \<in> {m * n ..< m * n + n} \<and> (c + k) mod n = i"
  proof -
    define r where "r = (i + (n - c mod n)) mod n"
    have n: "0 < n" using assms by simp
    have r: "r < n" using n by (simp add: r_def)
    have hit: "(c + (m * n + r)) mod n = i"
    proof -
      have "(c + (m * n + r)) mod n = (c mod n + (i + (n - c mod n))) mod n"
      proof -
        have "c + (m * n + r) = m * n + (c + r)" by simp
        then have "(c + (m * n + r)) mod n = (c + r) mod n" by (simp only: mod_mult_self3)
        also have "\<dots> = (c + (i + (n - c mod n))) mod n" by (simp add: r_def mod_add_right_eq)
        also have "\<dots> = (c mod n + (i + (n - c mod n))) mod n" by (simp add: mod_add_left_eq)
        finally show ?thesis .
      qed
      also have "c mod n + (i + (n - c mod n)) = i + n"
        using mod_less_divisor [OF n, of c] by simp
      finally show ?thesis using assms by simp
    qed
    show ?thesis
    proof (rule ex1I [of _ "m * n + r"])
      show "m * n + r \<in> {m * n ..< m * n + n} \<and> (c + (m * n + r)) mod n = i" using r hit by simp
      fix k
      assume k: "k \<in> {m * n ..< m * n + n} \<and> (c + k) mod n = i"
      then have same: "(c + k) mod n = (c + (m * n + r)) mod n" using hit by simp
      have close: "x = y" if "x \<le> y" "y - x < n" "(c + y) mod n = (c + x) mod n" for x y
      proof -
        have "n dvd (c + y) - (c + x)"
          using that mod_eq_dvd_iff_nat [of "c + x" "c + y" n] by simp
        then show ?thesis using that(1,2) nat_dvd_not_less [of "y - x" n] by (cases "y - x = 0") auto
      qed
      have k': "m * n \<le> k" "k < m * n + n" using k by auto
      show "k = m * n + r"
      proof (cases "k \<le> m * n + r")
        case True
        show ?thesis
        proof (rule close)
          show "k \<le> m * n + r" by (rule True)
          show "m * n + r - k < n" using k' r by linarith
        qed (simp add: same)
      next
        case False
        have "m * n + r = k"
        proof (rule close)
          show "m * n + r \<le> k" using False by simp
          show "k - (m * n + r) < n" using k' r by linarith
        qed (rule same)
        then show ?thesis by simp
      qed
    qed
  qed
  then obtain k where "{k \<in> {m * n ..< m * n + n}. (c + k) mod n = i} = {k}" by blast
  then have "card {k \<in> {m * n ..< m * n + n}. (c + k) mod n = i} = 1" by simp
  moreover have "{k \<in> {..< m * n}. (c + k) mod n = i} \<inter> {k \<in> {m * n ..< m * n + n}. (c + k) mod n = i} = {}"
    by auto
  ultimately show ?case using Suc unfolding e by (subst card_Un_disjoint) auto
qed simp

text \<open>
  The answers to a sequence of requests; between two calls the world may change in any way, so
  each request comes with the clock and the world it finds.
\<close>

fun rr_answers ::
  "duration \<Rightarrow> 64 word \<Rightarrow> ((bid \<Rightarrow> instant) \<times> 'a world_scheme) list \<Rightarrow> (select_error + bid) list" where
  "rr_answers cd c [] = []"
| "rr_answers cd c ((now, w) # ws) =
     (let (c1, w1, r) = RoundRobin_Select (with_breaker cd now) c [] w in r # rr_answers cd c1 ws)"

lemma rr_answers_nth:
  assumes "\<forall>(now, w) \<in> set ws. pool cd now w = P" and "P \<noteq> []"
  shows "rr_answers cd c ws =
    map (\<lambda>k. Inr (P ! unat ((c + of_nat k) mod of_nat (length P)))) [0 ..< length ws]"
  using assms(1)
proof (induction ws arbitrary: c)
  case (Cons nw ws)
  obtain now w where nw: "nw = (now, w)" by (cases nw)
  with Cons.prems have p: "pool cd now w = P" by simp
  obtain w1 where "RoundRobin_Select (with_breaker cd now) c [] w =
      (c + 1, w1, Inr (P ! unat (c mod of_nat (length P))))"
    using RoundRobin_eq [of cd now w c "[]"] p assms(2) by auto
  then have "rr_answers cd c (nw # ws) =
      Inr (P ! unat (c mod of_nat (length P))) # rr_answers cd (c + 1) ws" by (simp add: nw)
  also have "rr_answers cd (c + 1) ws =
      map (\<lambda>k. Inr (P ! unat ((c + 1 + of_nat k) mod of_nat (length P)))) [0 ..< length ws]"
    using Cons by simp
  also have "\<dots> = map (\<lambda>k. Inr (P ! unat ((c + of_nat k) mod of_nat (length P)))) [1 ..< Suc (length ws)]"
    by (rule nth_equalityI) (simp_all add: add.assoc del: upt_Suc)
  finally show ?case by (simp add: upt_conv_Cons del: upt_Suc)
qed simp

text \<open>
  C30. Round robin is fair: over \<open>m\<close> full turns of requests that all find the same pool (of
  distinct backends), every backend of the pool is chosen exactly \<open>m\<close> times, whatever the
  counter was, as long as it does not wrap on the way.
\<close>

theorem round_robin_fair:
  assumes "\<forall>(now, w) \<in> set ws. pool cd now w = P"
    and "P \<noteq> []" "distinct P" "length P < 2 ^ 63"
    and "length ws = m * length P" and "unat c + length ws \<le> 2 ^ 64"
    and "b \<in> set P"
  shows "length (filter (\<lambda>r. r = Inr b) (rr_answers cd c ws)) = m"
proof -
  define n where "n = length P"
  have n: "0 < n" "n < 2 ^ 63" using assms by (simp_all add: n_def)
  obtain i where i: "i < n" "P ! i = b" using assms(7) by (auto simp: in_set_conv_nth n_def)
  have pick: "(Inr (P ! unat ((c + of_nat k) mod of_nat n)) = (Inr b :: select_error + bid)) \<longleftrightarrow>
      (unat c + k) mod n = i" if "k < length ws" for k
  proof -
    have u: "unat ((c + of_nat k) mod of_nat n) = (unat c + k) mod n"
      using that assms(6) n by (intro rr_pick_nat) auto
    have "(unat c + k) mod n < n" using n(1) by simp
    then have "P ! ((unat c + k) mod n) = P ! i \<longleftrightarrow> (unat c + k) mod n = i"
      using i(1) unfolding n_def by (intro nth_eq_iff_index_eq [OF assms(3)])
    then show ?thesis by (simp only: u i(2) sum.inject)
  qed
  have "length (filter (\<lambda>r. r = Inr b) (rr_answers cd c ws)) =
      length (filter (\<lambda>k. (unat c + k) mod n = i) [0 ..< length ws])"
    unfolding rr_answers_nth [OF assms(1,2)] n_def [symmetric] filter_map comp_def length_map
    by (intro arg_cong [where f = length] filter_cong refl)
       (simp only: set_upt atLeastLessThan_iff pick)
  also have "\<dots> = card {k \<in> {..< m * n}. (unat c + k) mod n = i}"
    by (simp add: length_filter_conv_card assms(5) n_def)
       (auto intro!: arg_cong [where f = card])
  also have "\<dots> = m" by (rule count_mod_window [OF i(1)])
  finally show ?thesis .
qed

theorem round_robin_fair_witness:
  "length (filter (\<lambda>r. r = Inr 1)
     (rr_answers 5 7 [(\<lambda>b. 0, sample_world), (\<lambda>b. 3, sample_world), (\<lambda>b. 4, sample_world),
                      (\<lambda>b. 9, sample_world)])) = 2"
proof (rule round_robin_fair [where P = "[0, 1]"])
  have "routable 5 now sample_world b" for now b
    by (simp add: routable_def sample_world_def fresh_backend_def bstate_def circuit_abs_defs)
  then show "\<forall>(now, w) \<in> set [(\<lambda>b. 0, sample_world), (\<lambda>b. 3, sample_world), (\<lambda>b. 4, sample_world),
      (\<lambda>b. 9, sample_world)]. pool 5 now w = [0, 1]"
    by (auto simp: pool_def) (auto simp: sample_world_def)
qed auto

section \<open>Least connections picks the first minimum\<close>

lemma least_loop_spec:
  assumes "bestActive = act best"
  shows "least_loop act bs best bestActive \<in> set (best # bs)
    \<and> (\<forall>b \<in> set (best # bs). act (least_loop act bs best bestActive) \<le> act b)
    \<and> (\<exists>i < length (best # bs). (best # bs) ! i = least_loop act bs best bestActive \<and>
         (\<forall>j < i. act (least_loop act bs best bestActive) < act ((best # bs) ! j)))"
  using assms
proof (induction bs arbitrary: best bestActive)
  case (Cons b bs)
  show ?case
  proof (cases "act b < act best")
    case True
    with Cons.prems have e: "least_loop act (b # bs) best bestActive = least_loop act bs b (act b)" by simp
    obtain i where i: "i < length (b # bs)" "(b # bs) ! i = least_loop act bs b (act b)"
      "\<forall>j < i. act (least_loop act bs b (act b)) < act ((b # bs) ! j)"
      and m: "\<forall>c \<in> set (b # bs). act (least_loop act bs b (act b)) \<le> act c"
      using Cons.IH [of "act b" b] by blast
    have "act (least_loop act bs b (act b)) < act best" using m True by fastforce
    then have "\<forall>j < Suc i. act (least_loop act bs b (act b)) < act ((best # b # bs) ! j)"
      using i(3) by (auto simp: less_Suc_eq_0_disj)
    then show ?thesis
      using i m True Cons.IH [of "act b" b] unfolding e
      by (intro conjI exI [of _ "Suc i"]) auto
  next
    case False
    with Cons.prems have e: "least_loop act (b # bs) best bestActive = least_loop act bs best (act best)" by simp
    obtain i where i: "i < length (best # bs)" "(best # bs) ! i = least_loop act bs best (act best)"
      "\<forall>j < i. act (least_loop act bs best (act best)) < act ((best # bs) ! j)"
      and m: "\<forall>c \<in> set (best # bs). act (least_loop act bs best (act best)) \<le> act c"
      using Cons.IH [of "act best" best] by blast
    show ?thesis
    proof (cases i)
      case 0
      then show ?thesis using i m False unfolding e by (intro conjI exI [of _ 0]) auto
    next
      case (Suc k)
      have "act (least_loop act bs best (act best)) < act best" using i(3) Suc by auto
      then have "\<forall>j < Suc (Suc k). act (least_loop act bs best (act best)) < act ((best # b # bs) ! j)"
        using i(3) Suc False by (auto simp: less_Suc_eq_0_disj)
      moreover have "least_loop act bs best (act best) \<in> set (best # b # bs)"
        using Cons.IH [of "act best" best] by auto
      ultimately show ?thesis using i m False Suc unfolding e
        by (intro conjI exI [of _ "Suc (Suc k)"]) auto
    qed
  qed
qed auto

lemma LeastConnections_obtain:
  obtains w1 where "same_but_circuits w w1"
    and "LeastConnections_Select (with_breaker cd now) u addr w =
      (u, w1, if pool cd now w = [] then Inl ErrNoHealthyBackends
              else Inr (least_loop (\<lambda>b. active (heap w b)) (tl (pool cd now w)) (hd (pool cd now w))
                          (active (heap w (hd (pool cd now w))))))"
proof -
  obtain w1 where s: "Selectable (with_breaker cd now) w = (w1, pool cd now w)" "same_but_circuits w w1"
    by (rule Selectable_breaker_obtain)
  have "active (heap w1 b) = active (heap w b)" for b by (rule same_but_circuitsD(7) [OF s(2)])
  with s show ?thesis by (intro that [of w1]) (simp_all add: LeastConnections_Select_def ActiveConns_def Let_def)
qed

interpretation lc: selector "LeastConnections_Select (with_breaker cd now)" "pool cd now"
    "\<lambda>s. addressable"
  for cd now
proof (rule selector_from_pool)
  fix u addr and w :: "'a world_scheme"
  obtain w1 where s: "same_but_circuits w w1"
    "LeastConnections_Select (with_breaker cd now) u addr w =
      (u, w1, if pool cd now w = [] then Inl ErrNoHealthyBackends
              else Inr (least_loop (\<lambda>b. active (heap w b)) (tl (pool cd now w)) (hd (pool cd now w))
                          (active (heap w (hd (pool cd now w))))))"
    by (rule LeastConnections_obtain)
  moreover have "pool cd now w \<noteq> [] \<Longrightarrow>
      least_loop (\<lambda>b. active (heap w b)) (tl (pool cd now w)) (hd (pool cd now w))
        (active (heap w (hd (pool cd now w)))) \<in> set (pool cd now w)"
    using least_loop_spec [OF refl, where bs = "tl (pool cd now w)" and best = "hd (pool cd now w)"]
    by (metis list.collapse)
  ultimately show "\<exists>u' w1. same_but_circuits w w1 \<and>
      (if pool cd now w = [] then LeastConnections_Select (with_breaker cd now) u addr w = (u', w1, Inl ErrNoHealthyBackends)
       else \<exists>b \<in> set (pool cd now w). LeastConnections_Select (with_breaker cd now) u addr w = (u', w1, Inr b))"
    by (intro exI [of _ u] exI [of _ w1]) auto
qed

text \<open>
  C31. \<open>LeastConnections\<close> returns the first backend, in registry order, among the selectable
  ones with the fewest active connections.
\<close>

theorem least_connections_first_minimum:
  assumes "pool cd now w \<noteq> []"
  shows "\<exists>i < length (pool cd now w).
    snd (snd (LeastConnections_Select (with_breaker cd now) u addr w)) = Inr (pool cd now w ! i)
    \<and> (\<forall>b \<in> set (pool cd now w). ActiveConns (heap w (pool cd now w ! i)) \<le> ActiveConns (heap w b))
    \<and> (\<forall>j < i. ActiveConns (heap w (pool cd now w ! i)) < ActiveConns (heap w (pool cd now w ! j)))"
proof -
  obtain p ps where p: "pool cd now w = p # ps" using assms by (cases "pool cd now w") auto
  define b where "b = least_loop (\<lambda>b. active (heap w b)) ps p (active (heap w p))"
  obtain w1 where r: "LeastConnections_Select (with_breaker cd now) u addr w = (u, w1, Inr b)"
    by (rule LeastConnections_obtain [where cd = cd and now = now and w = w and u = u and addr = addr])
       (auto simp: p b_def)
  obtain i where "i < length (p # ps)" "(p # ps) ! i = b"
    "\<forall>j < i. active (heap w b) < active (heap w ((p # ps) ! j))"
    "\<forall>c \<in> set (p # ps). active (heap w b) \<le> active (heap w c)"
    using least_loop_spec [where act = "\<lambda>b. active (heap w b)" and best = p and bs = ps, OF refl]
    unfolding b_def by blast
  then show ?thesis unfolding r p ActiveConns_def by (intro exI [of _ i]) auto
qed

lemma sample_pool: "pool cd now sample_world = [0, 1]"
proof -
  have "routable cd now sample_world b" for b
    by (simp add: routable_def sample_world_def fresh_backend_def bstate_def circuit_abs_defs)
  then show ?thesis by (simp add: pool_def) (simp add: sample_world_def)
qed

lemma sample_addressable: "addressable sample_world"
  by (simp add: addressable_def sample_world_def)

theorem least_connections_first_minimum_witness:
  "\<exists>b. snd (snd (LeastConnections_Select (with_breaker 5 (\<lambda>b. 0)) () '''' sample_world)) = Inr b"
  using least_connections_first_minimum [of 5 "\<lambda>b. 0" sample_world "()" "''''"]
  by (auto simp: sample_pool)

section \<open>Two choices avoid the slowest\<close>

lemma p2c_indices:
  assumes "draws_in_range draw" and "2 \<le> n"
  defines "i \<equiv> draw 0 n" and "j \<equiv> (if draw 1 (n - 1) \<ge> draw 0 n then draw 1 (n - 1) + 1 else draw 1 (n - 1))"
  shows "i < n" "j < n" "i \<noteq> j"
proof -
  have "draw 0 n < n" "draw 1 (n - 1) < n - 1" using assms(1,2) by (simp_all add: draws_in_range_def)
  then show "i < n" "j < n" "i \<noteq> j" by (auto simp: i_def j_def)
qed

lemma p2c_pick_spec:
  assumes "draws_in_range draw" and "2 \<le> length P"
  shows "\<exists>i j. i < length P \<and> j < length P \<and> i \<noteq> j \<and> p2c_pick lat draw P = P ! i \<and> lat (P ! i) \<le> lat (P ! j)"
proof -
  define i where "i = draw 0 (length P)"
  define j where "j = (if draw 1 (length P - 1) \<ge> i then draw 1 (length P - 1) + 1 else draw 1 (length P - 1))"
  have b: "i < length P" "j < length P" "i \<noteq> j"
    using p2c_indices [OF assms] by (simp_all add: i_def j_def)
  have e: "p2c_pick lat draw P = (if lat (P ! i) \<le> lat (P ! j) then P ! i else P ! j)"
    by (simp add: p2c_pick_def i_def j_def Let_def)
  show ?thesis
  proof (cases "lat (P ! i) \<le> lat (P ! j)")
    case True
    then show ?thesis using b e by (intro exI [of _ i] exI [of _ j]) simp
  next
    case False
    then show ?thesis using b e by (intro exI [of _ j] exI [of _ i]) simp
  qed
qed

lemma P2C_obtain:
  obtains w1 where "same_but_circuits w w1"
    and "PowerOfTwoChoicesEWMA_Select (with_breaker cd now) draw u addr w =
      (u, w1, case pool cd now w of [] \<Rightarrow> Inl ErrNoHealthyBackends | [b] \<Rightarrow> Inr b
         | _ \<Rightarrow> Inr (p2c_pick (\<lambda>b. latencyEWMA (heap w b)) draw (pool cd now w)))"
proof -
  obtain w1 where s: "Selectable (with_breaker cd now) w = (w1, pool cd now w)" "same_but_circuits w w1"
    by (rule Selectable_breaker_obtain)
  have "latencyEWMA (heap w1 b) = latencyEWMA (heap w b)" for b by (rule same_but_circuitsD(8) [OF s(2)])
  with s show ?thesis
    by (intro that [of w1])
       (auto simp: PowerOfTwoChoicesEWMA_Select_def EWMALatency_def split: list.splits nat.splits)
qed

interpretation p2c: selector "PowerOfTwoChoicesEWMA_Select (with_breaker cd now) (\<lambda>k n. d k mod n)"
    "pool cd now" "\<lambda>s. addressable"
  for cd now d
proof (rule selector_from_pool)
  fix u addr and w :: "'a world_scheme"
  have dr: "draws_in_range (\<lambda>k n. d k mod n)" by (simp add: draws_in_range_def)
  obtain w1 where s: "same_but_circuits w w1"
    "PowerOfTwoChoicesEWMA_Select (with_breaker cd now) (\<lambda>k n. d k mod n) u addr w =
      (u, w1, case pool cd now w of [] \<Rightarrow> Inl ErrNoHealthyBackends | [b] \<Rightarrow> Inr b
         | _ \<Rightarrow> Inr (p2c_pick (\<lambda>b. latencyEWMA (heap w b)) (\<lambda>k n. d k mod n) (pool cd now w)))"
    by (rule P2C_obtain)
  have "2 \<le> length (pool cd now w) \<Longrightarrow>
      p2c_pick (\<lambda>b. latencyEWMA (heap w b)) (\<lambda>k n. d k mod n) (pool cd now w) \<in> set (pool cd now w)"
    using p2c_pick_spec [OF dr] by (metis nth_mem)
  with s show "\<exists>u' w1. same_but_circuits w w1 \<and>
      (if pool cd now w = [] then PowerOfTwoChoicesEWMA_Select (with_breaker cd now) (\<lambda>k n. d k mod n) u addr w =
         (u', w1, Inl ErrNoHealthyBackends)
       else \<exists>b \<in> set (pool cd now w). PowerOfTwoChoicesEWMA_Select (with_breaker cd now) (\<lambda>k n. d k mod n) u addr w =
         (u', w1, Inr b))"
    by (intro exI [of _ u] exI [of _ w1]) (auto split: list.splits)
qed

text \<open>
  C32. Whatever the two random draws are, \<open>PowerOfTwoChoicesEWMA\<close> compares two different
  selectable backends and returns the one whose latency estimate is not the larger; so a
  backend that is strictly slower than all others is never chosen.
\<close>

theorem p2c_never_slowest:
  assumes "draws_in_range draw" and "distinct (pool cd now w)" and "2 \<le> length (pool cd now w)"
  shows "\<exists>b c. snd (snd (PowerOfTwoChoicesEWMA_Select (with_breaker cd now) draw u addr w)) = Inr b
    \<and> b \<in> set (pool cd now w) \<and> c \<in> set (pool cd now w) \<and> b \<noteq> c
    \<and> EWMALatency (heap w b) \<le> EWMALatency (heap w c)"
proof -
  obtain w1 where r: "PowerOfTwoChoicesEWMA_Select (with_breaker cd now) draw u addr w =
      (u, w1, Inr (p2c_pick (\<lambda>b. latencyEWMA (heap w b)) draw (pool cd now w)))"
    by (rule P2C_obtain [where cd = cd and now = now and w = w and u = u and addr = addr and draw = draw])
       (use assms(3) in \<open>auto split: list.splits\<close>)
  obtain i j where "i < length (pool cd now w)" "j < length (pool cd now w)" "i \<noteq> j"
    "p2c_pick (\<lambda>b. latencyEWMA (heap w b)) draw (pool cd now w) = pool cd now w ! i"
    "latencyEWMA (heap w (pool cd now w ! i)) \<le> latencyEWMA (heap w (pool cd now w ! j))"
    using p2c_pick_spec [OF assms(1,3), where lat = "\<lambda>b. latencyEWMA (heap w b)"] by blast
  then show ?thesis using assms(2)
    unfolding r EWMALatency_def
    by (intro exI [of _ "pool cd now w ! i"] exI [of _ "pool cd now w ! j"]) (simp add: nth_eq_iff_index_eq)
qed

theorem p2c_never_slowest_witness:
  "\<exists>b. snd (snd (PowerOfTwoChoicesEWMA_Select (with_breaker 5 (\<lambda>b. 0)) (\<lambda>k n. 0) () '''' sample_world)) = Inr b"
proof -
  have "draws_in_range (\<lambda>k n. 0)" by (simp add: draws_in_range_def)
  from p2c_never_slowest [OF this, of 5 "\<lambda>b. 0" sample_world "()" "''''"] show ?thesis
    by (auto simp: sample_pool)
qed

end
