(* ===== verification/Ring.thy ===== *)
theory Ring
  imports World
begin

text \<open>
  The consistent-hash ring, \<open>internal/balancer/ring.go\<close>: the hash pipeline (FNV-1a and the
  Murmur3 finalizer on 64-bit words), the placement of virtual nodes, and the candidate walk.
  Backends are their addresses; \<open>nm\<close> gives a backend's name, which never changes. The
  iterator \<open>candidates\<close> is the list of everything it would yield; a consumer that stops
  early reads a prefix. \<open>slices.SortStableFunc\<close> is the library's stable sort by key.
\<close>

section \<open>Hashing\<close>

text \<open>\<open>hash/fnv\<close>, 64 bits, variant 1a, on the key's bytes.\<close>

definition fnv1a64 :: "string \<Rightarrow> 64 word" where
  "fnv1a64 key =
     foldl (\<lambda>h c. (h XOR of_nat (of_char c)) * 1099511628211) 14695981039346656037 key"

definition fmix64 :: "64 word \<Rightarrow> 64 word" where
  "fmix64 h =
     (let h = h XOR drop_bit 33 h;
          h = h * 0xff51afd7ed558ccd;
          h = h XOR drop_bit 33 h;
          h = h * 0xc4ceb9fe1a85ec53;
          h = h XOR drop_bit 33 h
      in h)"

definition hashKey :: "string \<Rightarrow> 64 word" where
  "hashKey key = fmix64 (fnv1a64 key)"

section \<open>The ring\<close>

definition virtualNodesPerBackend :: nat where
  "virtualNodesPerBackend = 150"

record vnode =
  position :: "64 word"
  owner :: bid

type_synonym ring = "vnode list"

definition vnodes_of :: "(bid \<Rightarrow> string) \<Rightarrow> bid \<Rightarrow> vnode list" where
  "vnodes_of nm b =
     map (\<lambda>i. \<lparr>position = hashKey (itoa i @ '':'' @ nm b), owner = b\<rparr>) [0 ..< virtualNodesPerBackend]"

definition newRing :: "(bid \<Rightarrow> string) \<Rightarrow> bid list \<Rightarrow> ring" where
  "newRing nm all = sort_key position (concat (map (vnodes_of nm) all))"

text \<open>\<open>slices.BinarySearchFunc\<close>: the search for the insertion point.\<close>

function bsearch_loop :: "64 word list \<Rightarrow> 64 word \<Rightarrow> nat \<Rightarrow> nat \<Rightarrow> nat" where
  "bsearch_loop xs target i j =
     (if i < j then
        let h = (i + j) div 2
        in if xs ! h < target then bsearch_loop xs target (h + 1) j else bsearch_loop xs target i h
      else i)"
  by pat_completeness auto
termination
  by (relation "measure (\<lambda>(xs, target, i, j). j - i)") auto

declare bsearch_loop.simps [simp del]

definition bsearch :: "64 word list \<Rightarrow> 64 word \<Rightarrow> nat" where
  "bsearch xs target = bsearch_loop xs target 0 (length xs)"

fun candidates_loop :: "ring \<Rightarrow> nat \<Rightarrow> nat list \<Rightarrow> bid set \<Rightarrow> bid list" where
  "candidates_loop r start [] seen = []"
| "candidates_loop r start (i # is) seen =
     (let b = owner (r ! ((start + i) mod length r))
      in if b \<in> seen then candidates_loop r start is seen
         else b # candidates_loop r start is (insert b seen))"

definition candidates :: "ring \<Rightarrow> string \<Rightarrow> bid list" where
  "candidates r key =
     (let n = length r
      in if n = 0 then []
         else let h = hashKey key; start = bsearch (map position r) h
              in candidates_loop r start [0 ..< n] {})"

section \<open>The finalizer loses nothing\<close>

definition unfmix64 :: "64 word \<Rightarrow> 64 word" where
  "unfmix64 h =
     (let h = h XOR drop_bit 33 h;
          h = h * 0x9cb4b2f8129337db;
          h = h XOR drop_bit 33 h;
          h = h * 0x4f74430c22a54005;
          h = h XOR drop_bit 33 h
      in h)"

lemma xorshift33 [simp]:
  fixes h :: "64 word"
  shows "(h XOR drop_bit 33 h) XOR drop_bit 33 (h XOR drop_bit 33 h) = h"
proof -
  have "drop_bit 33 (drop_bit 33 h) = 0"
    by (rule bit_word_eqI) (auto simp: bit_drop_bit_eq dest: bit_imp_le_length)
  then have "drop_bit 33 (h XOR drop_bit 33 h) = drop_bit 33 h" by (simp add: drop_bit_xor)
  then show ?thesis by (simp add: xor.assoc)
qed

lemma fmix64_inverse: "unfmix64 (fmix64 h) = h" "fmix64 (unfmix64 h) = h"
proof -
  have c: "(0xff51afd7ed558ccd :: 64 word) * 0x4f74430c22a54005 = 1"
    "(0xc4ceb9fe1a85ec53 :: 64 word) * 0x9cb4b2f8129337db = 1"
    "(0x4f74430c22a54005 :: 64 word) * 0xff51afd7ed558ccd = 1"
    "(0x9cb4b2f8129337db :: 64 word) * 0xc4ceb9fe1a85ec53 = 1" by simp_all
  have m: "x * 0xc4ceb9fe1a85ec53 * 0x9cb4b2f8129337db = x"
    "x * 0xff51afd7ed558ccd * 0x4f74430c22a54005 = x"
    "x * 0x9cb4b2f8129337db * 0xc4ceb9fe1a85ec53 = x"
    "x * 0x4f74430c22a54005 * 0xff51afd7ed558ccd = x" for x :: "64 word"
    by (simp_all only: mult.assoc c mult_1_right)
  show "unfmix64 (fmix64 h) = h" "fmix64 (unfmix64 h) = h"
    unfolding unfmix64_def fmix64_def Let_def by (simp_all only: xorshift33 m)
qed

text \<open>
  The finalizer is a bijection on 64-bit words, so two keys collide on the ring exactly when
  their FNV-1a hashes do: the avalanche step costs no position.
\<close>

theorem fmix64_bijective: "bij fmix64 \<and> (hashKey a = hashKey b \<longleftrightarrow> fnv1a64 a = fnv1a64 b)"
proof -
  have b: "bij fmix64" by (rule bij_betw_byWitness [where f' = unfmix64]) (auto simp: fmix64_inverse)
  then show ?thesis by (auto simp: hashKey_def dest: bij_is_inj injD)
qed

section \<open>Binary search\<close>

lemma bsearch_loop_spec:
  assumes "sorted xs" and "i \<le> j" and "j \<le> length xs"
    and "\<forall>k < i. xs ! k < target" and "\<forall>k. j \<le> k \<and> k < length xs \<longrightarrow> target \<le> xs ! k"
  shows "i \<le> bsearch_loop xs target i j \<and> bsearch_loop xs target i j \<le> j
    \<and> (\<forall>k < bsearch_loop xs target i j. xs ! k < target)
    \<and> (\<forall>k. bsearch_loop xs target i j \<le> k \<and> k < length xs \<longrightarrow> target \<le> xs ! k)"
  using assms
proof (induction xs target i j rule: bsearch_loop.induct)
  case (1 xs target i j)
  show ?case
  proof (cases "i < j")
    case False
    then have e: "bsearch_loop xs target i j = i" by (subst bsearch_loop.simps) simp
    show ?thesis using "1.prems" False unfolding e by auto
  next
    case True
    define h where "h = (i + j) div 2"
    have h: "i \<le> h" "h < j" using True by (auto simp: h_def)
    have mono: "k \<le> m \<Longrightarrow> m < length xs \<Longrightarrow> xs ! k \<le> xs ! m" for k m
      using "1.prems"(1) by (rule sorted_nth_mono)
    show ?thesis
    proof (cases "xs ! h < target")
      case less: True
      have e: "bsearch_loop xs target i j = bsearch_loop xs target (h + 1) j"
        using True less by (subst bsearch_loop.simps) (simp add: h_def)
      have "\<forall>k < h + 1. xs ! k < target"
      proof (intro allI impI)
        fix k
        assume "k < h + 1"
        then have "xs ! k \<le> xs ! h" using h "1.prems"(3) by (intro mono) auto
        then show "xs ! k < target" using less by (rule le_less_trans)
      qed
      then show ?thesis
        using "1.IH"(1) [OF True h_def less "1.prems"(1) _ "1.prems"(3) _ "1.prems"(5)] h
        unfolding e by (simp add: Suc_le_eq)
    next
      case ge: False
      have e: "bsearch_loop xs target i j = bsearch_loop xs target i h"
        using True ge by (subst bsearch_loop.simps) (simp add: h_def)
      have "\<forall>k. h \<le> k \<and> k < length xs \<longrightarrow> target \<le> xs ! k"
      proof (intro allI impI)
        fix k
        assume "h \<le> k \<and> k < length xs"
        then have "xs ! h \<le> xs ! k" by (intro mono) auto
        moreover have "target \<le> xs ! h" using ge by simp
        ultimately show "target \<le> xs ! k" by (rule order_trans [rotated])
      qed
      then show ?thesis
        using "1.IH"(2) [OF True h_def ge "1.prems"(1) h(1) _ "1.prems"(4)] h "1.prems"(3)
        unfolding e by simp
    qed
  qed
qed

text \<open>The insertion point: everything before is smaller, nothing from there on is.\<close>

lemma bsearch_spec:
  assumes "sorted xs"
  shows "bsearch xs t \<le> length xs" "take (bsearch xs t) xs = filter (\<lambda>x. x < t) xs"
    "drop (bsearch xs t) xs = filter (\<lambda>x. \<not> x < t) xs"
proof -
  have "0 \<le> bsearch xs t \<and> bsearch xs t \<le> length xs \<and> (\<forall>k < bsearch xs t. xs ! k < t)
      \<and> (\<forall>k. bsearch xs t \<le> k \<and> k < length xs \<longrightarrow> t \<le> xs ! k)"
    unfolding bsearch_def by (rule bsearch_loop_spec [OF assms]) auto
  then have b: "bsearch xs t \<le> length xs" "\<forall>k < bsearch xs t. xs ! k < t"
    "\<forall>k. bsearch xs t \<le> k \<and> k < length xs \<longrightarrow> t \<le> xs ! k" by blast+
  have lo: "\<forall>x \<in> set (take (bsearch xs t) xs). x < t"
    using b by (auto simp: in_set_conv_nth)
  have hi: "\<forall>x \<in> set (drop (bsearch xs t) xs). \<not> x < t"
    using b by (auto simp: in_set_conv_nth not_less)
  have "filter P xs = filter P (take (bsearch xs t) xs) @ filter P (drop (bsearch xs t) xs)" for P
    by (simp flip: filter_append)
  then show "take (bsearch xs t) xs = filter (\<lambda>x. x < t) xs"
    "drop (bsearch xs t) xs = filter (\<lambda>x. \<not> x < t) xs"
    using lo hi by (simp_all add: filter_True filter_False)
  show "bsearch xs t \<le> length xs" by (rule b(1))
qed

section \<open>The walk\<close>

text \<open>The walk in one expression: the ring rotated to the key, first occurrence of each owner.\<close>

fun nub :: "'a list \<Rightarrow> 'a set \<Rightarrow> 'a list" where
  "nub [] seen = []"
| "nub (x # xs) seen = (if x \<in> seen then nub xs seen else x # nub xs (insert x seen))"

definition rotated :: "ring \<Rightarrow> 64 word \<Rightarrow> ring" where
  "rotated r h = filter (\<lambda>v. \<not> position v < h) r @ filter (\<lambda>v. position v < h) r"

lemma candidates_loop_nub:
  "candidates_loop r start is seen = nub (map (\<lambda>i. owner (r ! ((start + i) mod length r))) is) seen"
  by (induction "is" arbitrary: seen) (simp_all add: Let_def)

lemma map_rotate:
  assumes "s \<le> length r" "r \<noteq> []"
  shows "map (\<lambda>i. r ! ((s + i) mod length r)) [0 ..< length r] = drop s r @ take s r"
proof (rule nth_equalityI)
  show "length (map (\<lambda>i. r ! ((s + i) mod length r)) [0 ..< length r]) = length (drop s r @ take s r)"
    using assms by simp
  fix i
  assume "i < length (map (\<lambda>i. r ! ((s + i) mod length r)) [0 ..< length r])"
  then have i: "i < length r" by simp
  show "map (\<lambda>i. r ! ((s + i) mod length r)) [0 ..< length r] ! i = (drop s r @ take s r) ! i"
  proof (cases "s + i < length r")
    case True
    then have "i < length r - s" by linarith
    then show ?thesis using i assms True by (simp add: nth_append)
  next
    case False
    then have "(s + i) mod length r = s + i - length r"
      using i assms by (simp add: mod_if le_mod_geq)
    moreover have "\<not> i < length r - s" "i - (length r - s) = s + i - length r"
      using assms(1) False by linarith+
    ultimately show ?thesis using i assms False by (simp add: nth_append)
  qed
qed

lemma candidates_nub:
  assumes "sorted (map position r)"
  shows "candidates r key = nub (map owner (rotated r (hashKey key))) {}"
proof (cases "r = []")
  case True
  then show ?thesis by (simp add: candidates_def rotated_def)
next
  case False
  define s where "s = bsearch (map position r) (hashKey key)"
  note b = bsearch_spec [OF assms, of "hashKey key", folded s_def]
  have s: "s \<le> length r" using b(1) by simp
  have split: "take s r = filter (\<lambda>v. position v < hashKey key) r \<and>
      drop s r = filter (\<lambda>v. \<not> position v < hashKey key) r"
  proof -
    have "position v \<in> set (take s (map position r))" if "v \<in> set (take s r)" for v
      using that by (simp add: take_map)
    then have "\<forall>v \<in> set (take s r). position v < hashKey key" using b(2) by simp
    moreover have "position v \<in> set (drop s (map position r))" if "v \<in> set (drop s r)" for v
      using that by (simp add: drop_map)
    then have "\<forall>v \<in> set (drop s r). \<not> position v < hashKey key" using b(3) by simp
    moreover have "filter P r = filter P (take s r) @ filter P (drop s r)" for P
      by (simp flip: filter_append)
    ultimately show ?thesis by (simp add: filter_True filter_False)
  qed
  have "map (\<lambda>i. owner (r ! ((s + i) mod length r))) [0 ..< length r] =
      map owner (map (\<lambda>i. r ! ((s + i) mod length r)) [0 ..< length r])" by simp
  also have "\<dots> = map owner (rotated r (hashKey key))"
    using split by (simp only: map_rotate [OF s False] rotated_def)
  finally show ?thesis using False
    by (simp add: candidates_def candidates_loop_nub s_def Let_def)
qed

lemma set_nub: "set (nub xs seen) = set xs - seen"
  by (induction xs seen rule: nub.induct) auto

lemma distinct_nub: "distinct (nub xs seen)"
  by (induction xs seen rule: nub.induct) (auto simp: set_nub)

lemma nub_filter: "nub (filter P xs) (seen \<inter> {x. P x}) = filter P (nub xs seen)"
proof (induction xs seen rule: nub.induct)
  case (2 x xs seen)
  then show ?case by (cases "P x") (auto simp: Int_insert_left)
qed simp

lemma sorted_newRing: "sorted (map position (newRing nm all))"
  by (simp add: newRing_def)

lemma owners_newRing: "owner ` set (newRing nm all) = set all"
proof -
  have "owner ` set (vnodes_of nm b) = {b}" for b
    by (simp add: vnodes_of_def virtualNodesPerBackend_def image_image image_constant_conv)
  then show ?thesis by (simp add: newRing_def image_UN)
qed

lemma candidates_set:
  "distinct (candidates (newRing nm all) key)" "set (candidates (newRing nm all) key) = set all"
proof -
  have "owner ` set (rotated (newRing nm all) (hashKey key)) = set all"
    by (subst owners_newRing [of nm all, symmetric]) (auto simp: rotated_def)
  then show "distinct (candidates (newRing nm all) key)"
    "set (candidates (newRing nm all) key) = set all"
    by (simp_all add: candidates_nub [OF sorted_newRing] distinct_nub set_nub)
qed

text \<open>
  The candidate walk yields every backend the ring was built from exactly once, whatever
  the key.
\<close>

theorem candidates_each_once:
  "distinct (candidates (newRing nm all) key) \<and> set (candidates (newRing nm all) key) = set all"
  by (simp add: candidates_set)

text \<open>
  C16. Consistent hashing moves no more than it must: taking a backend out of the fleet removes
  it from every key's candidate sequence and changes nothing else, so a key whose first choice is
  another backend keeps it, and adding a backend back only inserts it.
\<close>

theorem candidates_minimal_disruption:
  "candidates (newRing nm (filter (\<lambda>c. c \<noteq> b) all)) key =
     filter (\<lambda>c. c \<noteq> b) (candidates (newRing nm all) key)"
proof -
  have "newRing nm (filter (\<lambda>c. c \<noteq> b) all) = filter (\<lambda>v. owner v \<noteq> b) (newRing nm all)"
  proof -
    have "concat (map (vnodes_of nm) (filter (\<lambda>c. c \<noteq> b) all)) =
        filter (\<lambda>v. owner v \<noteq> b) (concat (map (vnodes_of nm) all))"
      by (induction all) (auto simp: vnodes_of_def filter_map comp_def)
    then show ?thesis by (simp add: newRing_def filter_sort)
  qed
  then have "rotated (newRing nm (filter (\<lambda>c. c \<noteq> b) all)) h =
      filter (\<lambda>v. owner v \<noteq> b) (rotated (newRing nm all) h)" for h
    by (simp add: rotated_def conj_commute)
  then have "map owner (rotated (newRing nm (filter (\<lambda>c. c \<noteq> b) all)) h) =
      filter (\<lambda>c. c \<noteq> b) (map owner (rotated (newRing nm all) h))" for h
    by (simp add: filter_map comp_def)
  then show ?thesis
    using nub_filter [of "\<lambda>c. c \<noteq> b" _ "{}"] by (simp add: candidates_nub [OF sorted_newRing])
qed

end
