(* ===== verification/Consistent_Hash.thy ===== *)
theory Consistent_Hash
  imports Selectors Ring
begin

text \<open>
  The two selectors on the ring: consistent hashing with bounded loads
  (\<open>internal/balancer/consistent_hash.go\<close>), the one the configuration offers, and the
  load-blind comparator (\<open>naive_consistent_hash.go\<close>); and the factory
  (\<open>NewFromConfig\<close> of \<open>selector.go\<close>).
\<close>

section \<open>Capacity\<close>

definition capacityEpsilon :: rat where "capacityEpsilon = 1 / 4"

definition capacityFor :: "int list \<Rightarrow> int" where
  "capacityFor actives =
     (let total = foldl (\<lambda>t a. wrap64 (t + a)) 0 actives;
          avg = f64 (f64_of_int64 total / f64_of_int64 (int (length actives)));
          capacity = f64_to_int64 (f64_ceil (f64 (avg * f64 (1 + capacityEpsilon))))
      in if capacity < 1 then 1 else capacity)"

section \<open>The selector\<close>

record ringCache =
  cacheVersion :: "64 word"
  cacheRing :: ring

definition names :: "'a world_scheme \<Rightarrow> bid \<Rightarrow> string" where
  "names w b = Name (heap w b)"

definition build_cache :: "'a world_scheme \<Rightarrow> ringCache" where
  "build_cache w =
     (let (v, bs) = Snapshot w in \<lparr>cacheVersion = v, cacheRing = newRing (names w) bs\<rparr>)"

definition NewConsistentHashBoundedLoads :: "'a world_scheme \<Rightarrow> ringCache" where
  "NewConsistentHashBoundedLoads w = build_cache w"

text \<open>
  The cache pointer is set by the constructor and never \<open>nil\<close> again; with no contention
  the loop's \<open>CompareAndSwap\<close> succeeds the first time.
\<close>

definition currentRing :: "ringCache \<Rightarrow> 'a world_scheme \<Rightarrow> ringCache \<times> ring" where
  "currentRing cached w =
     (if cacheVersion cached = Version w then (cached, cacheRing cached)
      else let next = build_cache w
           in if cacheVersion cached = cacheVersion next then (cached, cacheRing cached)
              else (next, cacheRing next))"

definition admits :: "'a world_scheme \<Rightarrow> int \<Rightarrow> bid \<Rightarrow> bool" where
  "admits w capacity b \<longleftrightarrow>
     IsHealthy (heap w b) \<and> \<not> IsRemoved (heap w b) \<and> ActiveConns (heap w b) \<le> capacity"

fun ch_walk :: "'a world_scheme \<Rightarrow> int \<Rightarrow> bid list \<Rightarrow> (bid \<times> int) option \<Rightarrow> select_error + bid" where
  "ch_walk w capacity [] leastLoaded =
     (case leastLoaded of Some (b, a) \<Rightarrow> Inr b | None \<Rightarrow> Inl ErrNoHealthyBackends)"
| "ch_walk w capacity (b # bs) leastLoaded =
     (if admits w capacity b then Inr b
      else ch_walk w capacity bs
        (if IsHealthy (heap w b) \<and> \<not> IsRemoved (heap w b) \<and>
            (leastLoaded = None \<or> ActiveConns (heap w b) < snd (the leastLoaded))
         then Some (b, ActiveConns (heap w b)) else leastLoaded))"

definition ConsistentHash_Select ::
  "'a world_scheme CircuitGate option \<Rightarrow> (ringCache, 'a world_scheme) select_fun" where
  "ConsistentHash_Select g cache addr w =
     (let (w1, selectable) = Selectable g w
      in if length selectable = 0 then (cache, w1, Inl ErrNoHealthyBackends)
         else let capacity = capacityFor (map (\<lambda>b. ActiveConns (heap w1 b)) selectable);
                  (cache1, r) = currentRing cache w1
              in (cache1, w1, ch_walk w1 capacity (candidates r (requestHashKey addr)) None))"

section \<open>The comparator\<close>

definition newNaiveConsistentHash :: "'a world_scheme \<Rightarrow> ring" where
  "newNaiveConsistentHash w = newRing (names w) (All w)"

fun naive_walk :: "'a world_scheme \<Rightarrow> bid list \<Rightarrow> select_error + bid" where
  "naive_walk w [] = Inl ErrNoHealthyBackends"
| "naive_walk w (b # bs) = (if IsHealthy (heap w b) then Inr b else naive_walk w bs)"

definition naiveConsistentHash_Select :: "(ring, 'a world_scheme) select_fun" where
  "naiveConsistentHash_Select r addr w =
     (r, w, naive_walk w (candidates r (requestHashKey addr)))"

section \<open>The factory\<close>

datatype selector_state =
    SelRoundRobin "64 word"
  | SelLeastConnections
  | SelConsistentHash ringCache
  | SelP2C

text \<open>\<open>NewFromConfig\<close>; the error carries the algorithm's name.\<close>

definition NewFromConfig :: "Config \<Rightarrow> 'a world_scheme \<Rightarrow> string + selector_state" where
  "NewFromConfig cfg w =
     (if Algorithm cfg = AlgorithmRoundRobin then Inr (SelRoundRobin 0)
      else if Algorithm cfg = AlgorithmLeastConn then Inr SelLeastConnections
      else if Algorithm cfg = AlgorithmConsistentHash
        then Inr (SelConsistentHash (NewConsistentHashBoundedLoads w))
      else if Algorithm cfg = AlgorithmP2CEWMA then Inr SelP2C
      else Inl (Algorithm cfg))"

text \<open>The method call \<open>Select\<close> on the interface value.\<close>

fun Selector_Select ::
  "'a world_scheme CircuitGate option \<Rightarrow> (nat \<Rightarrow> nat \<Rightarrow> nat)
     \<Rightarrow> (selector_state, 'a world_scheme) select_fun" where
  "Selector_Select g draw (SelRoundRobin c) addr w =
     (let (c1, w1, r) = RoundRobin_Select g c addr w in (SelRoundRobin c1, w1, r))"
| "Selector_Select g draw SelLeastConnections addr w =
     (let (u, w1, r) = LeastConnections_Select g () addr w in (SelLeastConnections, w1, r))"
| "Selector_Select g draw (SelConsistentHash c) addr w =
     (let (c1, w1, r) = ConsistentHash_Select g c addr w in (SelConsistentHash c1, w1, r))"
| "Selector_Select g draw SelP2C addr w =
     (let (u, w1, r) = PowerOfTwoChoicesEWMA_Select g draw () addr w in (SelP2C, w1, r))"

section \<open>The capacity admits someone\<close>

lemma foldl_wrap_sum:
  assumes "\<forall>a \<in> set as. 0 \<le> a" and "0 \<le> t" and "t + sum_list as < 2 ^ 63"
  shows "foldl (\<lambda>t a. wrap64 (t + a)) t as = t + sum_list as"
  using assms
proof (induction as arbitrary: t)
  case (Cons a as)
  have "0 \<le> sum_list as" using Cons.prems(1) by (intro sum_list_nonneg) auto
  then have "in_int64 (t + a)" using Cons.prems by (simp add: in_int64_def)
  then have "wrap64 (t + a) = t + a" by (rule wrap64_id)
  with Cons show ?case by (simp add: add.assoc)
qed simp

lemma f64_five_fourths: "f64 (1 + capacityEpsilon) = 5 / 4"
proof -
  have "f64 (5 / 4) = 5 / 4"
    by (rule f64_exact [where m = 5 and e = "- 2"]) (simp_all add: power_int_def power_one_over)
  then show ?thesis by (simp add: capacityEpsilon_def)
qed

lemma capacity_bounds:
  assumes nn: "\<forall>a \<in> set as. 0 \<le> a" and ne: "as \<noteq> []" and tot: "sum_list as \<le> 2 ^ 50"
    and len: "int (length as) \<le> 2 ^ 53"
  defines "mean \<equiv> of_int (sum_list as) / (of_nat (length as) :: rat)"
  shows "mean \<le> of_int (capacityFor as)" "of_int (capacityFor as) \<le> 5 / 4 * mean + 2"
    "1 \<le> capacityFor as"
proof -
  have s0: "0 \<le> sum_list as" using nn by (intro sum_list_nonneg) auto
  have total: "foldl (\<lambda>t a. wrap64 (t + a)) 0 as = sum_list as"
    using foldl_wrap_sum [OF nn, of 0] tot by simp
  have t: "f64_of_int64 (sum_list as) = of_int (sum_list as)"
    using s0 tot by (intro f64_of_int64_exact) simp_all
  have n: "f64_of_int64 (int (length as)) = of_nat (length as)"
    using len by (subst f64_of_int64_exact) simp_all
  have m0: "0 \<le> mean" using s0 by (simp add: mean_def)
  have l1: "1 \<le> (of_nat (length as) :: rat)" using ne by (simp add: Suc_le_eq)
  have m50: "mean \<le> 2 ^ 50"
  proof -
    have "(of_int (sum_list as) :: rat) \<le> of_int (2 ^ 50)" using tot by (simp only: of_int_le_iff)
    then have "of_int (sum_list as) \<le> (2 ^ 50 :: rat)" by simp
    also have "\<dots> \<le> 2 ^ 50 * of_nat (length as)" using l1 by simp
    finally show ?thesis using l1 by (simp add: mean_def divide_le_eq)
  qed
  define avg where "avg = f64 mean"
  have avg: "mean * (1 - 1 / 2 ^ 53) \<le> avg" "avg \<le> mean * (1 + 1 / 2 ^ 53)" "0 \<le> avg"
    using f64_rel_bounds [OF m0] f64_nonneg [OF m0] by (simp_all add: avg_def)
  define p where "p = f64 (avg * (5 / 4))"
  have p: "avg * (5 / 4) * (1 - 1 / 2 ^ 53) \<le> p" "p \<le> avg * (5 / 4) * (1 + 1 / 2 ^ 53)" "0 \<le> p"
    using f64_rel_bounds [of "avg * (5 / 4)"] f64_nonneg [of "avg * (5 / 4)"] avg(3) by (simp_all add: p_def)
  have lo: "mean \<le> p"
  proof -
    have "mean * (1 - 1 / 2 ^ 53) * (5 / 4) * (1 - 1 / 2 ^ 53) \<le> avg * (5 / 4) * (1 - 1 / 2 ^ 53)"
      using avg(1) by (intro mult_right_mono) simp_all
    moreover have "mean \<le> mean * (1 - 1 / 2 ^ 53) * (5 / 4) * (1 - 1 / 2 ^ 53)" using m0 by simp
    ultimately show ?thesis using p(1) by linarith
  qed
  have hi: "p \<le> 5 / 4 * mean + 1"
  proof -
    have "avg * (5 / 4) * (1 + 1 / 2 ^ 53) \<le> mean * (1 + 1 / 2 ^ 53) * (5 / 4) * (1 + 1 / 2 ^ 53)"
      using avg(2) by (intro mult_right_mono) simp_all
    moreover have "mean * (1 + 1 / 2 ^ 53) * (5 / 4) * (1 + 1 / 2 ^ 53) \<le> 5 / 4 * mean + 1"
      using m0 m50 by (simp add: field_simps)
    ultimately show ?thesis using p(2) by linarith
  qed
  define c where "c = \<lceil>p\<rceil>"
  have c: "p \<le> of_int c" "of_int c < p + 1" by (simp_all add: c_def) linarith
  have c_small: "of_int c < (2 ^ 63 :: rat)"
  proof -
    have "(5 / 4 * 2 ^ 50 + 2 :: rat) < 2 ^ 63" by simp
    then show ?thesis using c(2) hi m50 by linarith
  qed
  have "0 \<le> c" using p(3) by (simp add: c_def)
  then have conv: "f64_to_int64 (f64_ceil p) = c"
    using c_small by (subst f64_to_int64_floor) (simp_all add: f64_ceil_def c_def)
  have "f64 (avg * 5 / 4) = p" by (simp add: p_def)
  then have cap: "capacityFor as = (if c < 1 then 1 else c)"
    by (simp add: capacityFor_def total t n mean_def [symmetric] avg_def [symmetric]
        f64_five_fourths conv Let_def)
  show "1 \<le> capacityFor as" by (simp add: cap)
  show "mean \<le> of_int (capacityFor as)"
  proof (cases "c < 1")
    case True
    then have "(of_int c :: rat) \<le> 0" by simp
    then show ?thesis using c lo by (simp add: cap True)
  qed (use c lo in \<open>simp add: cap\<close>)
  show "of_int (capacityFor as) \<le> 5 / 4 * mean + 2"
    using c hi m0 by (auto simp: cap)
qed

section \<open>What the selector needs and keeps\<close>

text \<open>A cached ring of the current version is the ring of the current snapshot.\<close>

definition cache_ok :: "ringCache \<Rightarrow> 'a world_scheme \<Rightarrow> bool" where
  "cache_ok c w \<longleftrightarrow>
     (cacheVersion c = version (snap w) \<longrightarrow> cacheRing c = newRing (names w) (backends (snap w)))"

text \<open>The connection counts are what they count: not negative, and far from overflow.\<close>

definition loads_ok :: "'a world_scheme \<Rightarrow> bool" where
  "loads_ok w \<longleftrightarrow>
     (\<forall>b \<in> set (backends (snap w)). 0 \<le> active (heap w b)) \<and>
     sum_list (map (\<lambda>b. active (heap w b)) (backends (snap w))) \<le> 2 ^ 50 \<and>
     int (length (backends (snap w))) \<le> 2 ^ 53"

definition ch_ok :: "ringCache \<Rightarrow> 'a world_scheme \<Rightarrow> bool" where
  "ch_ok c w \<longleftrightarrow> registry_wf w \<and> cache_ok c w \<and> loads_ok w"

lemma cache_ok_new: "cache_ok (NewConsistentHashBoundedLoads w) w"
  by (simp add: cache_ok_def NewConsistentHashBoundedLoads_def build_cache_def Snapshot_def)

lemma currentRing_spec:
  assumes "cache_ok c w"
  shows "snd (currentRing c w) = newRing (names w) (backends (snap w))"
    and "cache_ok (fst (currentRing c w)) w"
  using assms
  by (auto simp: currentRing_def cache_ok_def build_cache_def Snapshot_def Version_def Let_def)

lemma same_but_circuits_ch_ok:
  assumes "same_but_circuits w w'"
  shows "ch_ok c w' = ch_ok c w"
proof -
  note f = same_but_circuitsD [OF assms]
  have "names w' = names w" by (simp add: names_def fun_eq_iff f)
  then show ?thesis by (simp add: ch_ok_def registry_wf_def cache_ok_def loads_ok_def f)
qed

lemma ch_walk_find:
  assumes "find (admits w cap) bs = Some b"
  shows "ch_walk w cap bs ll = Inr b"
  using assms by (induction bs arbitrary: ll) (auto split: if_splits)

text \<open>Some backend of a non-empty list has at most the mean.\<close>

lemma some_below_mean:
  assumes "xs \<noteq> []" and "of_int (sum_list (map f xs)) / (of_nat (length xs) :: rat) \<le> of_int c"
  shows "\<exists>x \<in> set xs. f x \<le> c"
proof (rule ccontr)
  assume "\<not> ?thesis"
  then have "\<forall>x \<in> set xs. c + 1 \<le> f x" by auto
  then have "int (length xs) * (c + 1) \<le> sum_list (map f xs)"
    by (induction xs) (auto simp: algebra_simps)
  then have "(of_int (int (length xs) * (c + 1)) :: rat) \<le> of_int (sum_list (map f xs))"
    by (simp only: of_int_le_iff)
  also have "\<dots> \<le> of_int c * of_nat (length xs)"
    using assms by (simp add: divide_le_eq)
  finally have "of_nat (length xs) * (of_int c + 1) \<le> (of_int c * of_nat (length xs) :: rat)" by simp
  then have "(of_nat (length xs) :: rat) \<le> 0" by (simp add: algebra_simps)
  with assms(1) show False by simp
qed

definition mean_active :: "'a world_scheme \<Rightarrow> bid list \<Rightarrow> rat" where
  "mean_active w bs = of_int (sum_list (map (\<lambda>b. active (heap w b)) bs)) / of_nat (length bs)"

lemma pool_capacity:
  assumes "loads_ok w" and "pool cd now w \<noteq> []"
  defines "cap \<equiv> capacityFor (map (\<lambda>b. active (heap w b)) (pool cd now w))"
  shows "mean_active w (pool cd now w) \<le> of_int cap"
    and "of_int cap \<le> 5 / 4 * mean_active w (pool cd now w) + 2" and "1 \<le> cap"
proof -
  have nn: "\<forall>a \<in> set (map (\<lambda>b. active (heap w b)) (pool cd now w)). 0 \<le> a"
    using assms(1) by (auto simp: loads_ok_def pool_def)
  have "sum_list (map (\<lambda>b. active (heap w b)) (filter P bs)) \<le> sum_list (map (\<lambda>b. active (heap w b)) bs)"
    if "\<forall>b \<in> set bs. 0 \<le> active (heap w b)" for P bs
    using that by (induction bs) auto
  then have tot: "sum_list (map (\<lambda>b. active (heap w b)) (pool cd now w)) \<le> 2 ^ 50"
    using assms(1) unfolding loads_ok_def pool_def by (meson order_trans)
  have len: "int (length (map (\<lambda>b. active (heap w b)) (pool cd now w))) \<le> 2 ^ 53"
    using assms(1) length_pool [where cd = cd and now = now and w = w] by (simp add: loads_ok_def)
  note b = capacity_bounds [OF nn _ tot len]
  show "mean_active w (pool cd now w) \<le> of_int cap"
    "of_int cap \<le> 5 / 4 * mean_active w (pool cd now w) + 2" "1 \<le> cap"
    using b assms(2) by (simp_all add: cap_def mean_active_def)
qed

lemma ConsistentHash_chooses:
  fixes addr
  assumes ok: "ch_ok c w" and ne: "pool cd now w \<noteq> []"
  defines "cap \<equiv> capacityFor (map (\<lambda>b. active (heap w b)) (pool cd now w))"
    and "cands \<equiv> candidates (newRing (names w) (backends (snap w))) (requestHashKey addr)"
  shows "\<exists>b c' w1. ConsistentHash_Select (with_breaker cd now) c addr w = (c', w1, Inr b)
    \<and> find (admits w cap) cands = Some b \<and> same_but_circuits w w1 \<and> ch_ok c' w1"
proof -
  obtain w1 where s: "Selectable (with_breaker cd now) w = (w1, pool cd now w)" "same_but_circuits w w1"
    by (rule Selectable_breaker_obtain)
  note f = same_but_circuitsD [OF s(2)]
  have nm: "names w1 = names w" by (simp add: names_def fun_eq_iff f)
  have ok1: "ch_ok c w1" using ok same_but_circuits_ch_ok [OF s(2)] by simp
  then have co: "cache_ok c w1" by (simp add: ch_ok_def)
  obtain c' where r: "currentRing c w1 = (c', newRing (names w) (backends (snap w)))"
    using currentRing_spec(1) [OF co] by (cases "currentRing c w1") (simp add: nm f)
  have ok': "ch_ok c' w1" using ok1 currentRing_spec(2) [OF co] by (simp add: ch_ok_def r)
  have adm: "admits w1 = admits w"
    by (simp add: admits_def fun_eq_iff IsHealthy_def IsRemoved_def ActiveConns_def f)
  have "mean_active w (pool cd now w) \<le> of_int cap"
    unfolding cap_def by (rule pool_capacity) (use ok ne in \<open>simp_all add: ch_ok_def\<close>)
  then obtain b0 where b0: "b0 \<in> set (pool cd now w)" "active (heap w b0) \<le> cap"
    using some_below_mean [OF ne] unfolding mean_active_def by blast
  have "admits w cap b0"
    using b0 pool_member [OF b0(1)] ok
    by (auto simp: admits_def IsHealthy_def IsRemoved_def ActiveConns_def ch_ok_def registry_wf_def)
  moreover have "b0 \<in> set cands"
    using candidates_set pool_member [OF b0(1)] by (simp add: cands_def)
  ultimately obtain b where b: "find (admits w cap) cands = Some b"
    using find_exists [of b0 cands "admits w cap"] by auto
  have "ConsistentHash_Select (with_breaker cd now) c addr w = (c', w1, Inr b)"
    using ne ch_walk_find [of w1 cap cands b None] b
    by (simp add: ConsistentHash_Select_def s r adm ActiveConns_def f cap_def [symmetric]
        cands_def [symmetric] Let_def)
  with b s(2) ok' show ?thesis by blast
qed

lemma ConsistentHash_empty:
  assumes "pool cd now w = []"
  shows "\<exists>w1. ConsistentHash_Select (with_breaker cd now) c addr w = (c, w1, Inl ErrNoHealthyBackends)
    \<and> same_but_circuits w w1"
proof -
  obtain w1 where "Selectable (with_breaker cd now) w = (w1, pool cd now w)" "same_but_circuits w w1"
    by (rule Selectable_breaker_obtain)
  with assms show ?thesis by (auto simp: ConsistentHash_Select_def)
qed

interpretation ch: selector "ConsistentHash_Select (with_breaker cd now)" "pool cd now" ch_ok
  for cd now
proof
  fix c :: ringCache and addr b and w :: "'a world_scheme"
  assume ok: "ch_ok c w"
  show "pool cd now w \<noteq> [] \<Longrightarrow> \<exists>b. snd (snd (ConsistentHash_Select (with_breaker cd now) c addr w)) = Inr b"
    using ConsistentHash_chooses [OF ok, of cd now addr] by auto
  show "pool cd now w = [] \<Longrightarrow>
      snd (snd (ConsistentHash_Select (with_breaker cd now) c addr w)) = Inl ErrNoHealthyBackends"
    using ConsistentHash_empty [of cd now w c addr] by auto
  show "same_but_circuits w (fst (snd (ConsistentHash_Select (with_breaker cd now) c addr w)))"
    using ConsistentHash_chooses [OF ok, of cd now addr] ConsistentHash_empty [of cd now w c addr]
    by (cases "pool cd now w = []") auto
  show "ch_ok (fst (ConsistentHash_Select (with_breaker cd now) c addr w))
      (fst (snd (ConsistentHash_Select (with_breaker cd now) c addr w)))"
    using ConsistentHash_chooses [OF ok, of cd now addr] ConsistentHash_empty [of cd now w c addr]
      ok
    by (cases "pool cd now w = []") (auto simp: same_but_circuits_ch_ok)
  assume r: "snd (snd (ConsistentHash_Select (with_breaker cd now) c addr w)) = Inr b"
  then have "pool cd now w \<noteq> []" using ConsistentHash_empty [of cd now w c addr] by auto
  from ConsistentHash_chooses [OF ok this, of addr] r
  have "find (admits w (capacityFor (map (\<lambda>b. active (heap w b)) (pool cd now w))))
      (candidates (newRing (names w) (backends (snap w))) (requestHashKey addr)) = Some b" by auto
  from find_Some_iff_nth [OF this] show "b \<in> set (backends (snap w)) \<and> healthy (heap w b)"
    by (simp add: candidates_set admits_def IsHealthy_def)
qed

text \<open>
  C11. Bounded loads: when something is selectable, \<open>ConsistentHashBoundedLoads\<close> returns the
  first backend of the key's candidate sequence (over the current snapshot's ring, whatever the
  cache held) that is healthy, in the fleet and within capacity; such a candidate always exists,
  so the defensive branch is never reached; and the chosen backend's load is at most 1.25 times
  the mean of the selectable backends, plus 2.
\<close>

theorem bounded_loads_first_admissible:
  fixes addr
  assumes "ch_ok c w" and "pool cd now w \<noteq> []"
  defines "cap \<equiv> capacityFor (map (\<lambda>b. ActiveConns (heap w b)) (pool cd now w))"
    and "cands \<equiv> candidates (newRing (names w) (backends (snap w))) (requestHashKey addr)"
  shows "\<exists>b. snd (snd (ConsistentHash_Select (with_breaker cd now) c addr w)) = Inr b
    \<and> find (admits w cap) cands = Some b
    \<and> of_int (ActiveConns (heap w b)) \<le> 5 / 4 * mean_active w (pool cd now w) + 2"
proof -
  have cap: "cap = capacityFor (map (\<lambda>b. active (heap w b)) (pool cd now w))"
    by (simp add: cap_def ActiveConns_def)
  obtain b where b: "snd (snd (ConsistentHash_Select (with_breaker cd now) c addr w)) = Inr b"
    "find (admits w cap) cands = Some b"
    using ConsistentHash_chooses [OF assms(1,2), of addr] unfolding cap cands_def by auto
  have "active (heap w b) \<le> cap"
    using find_Some_iff_nth [OF b(2)] by (simp add: admits_def ActiveConns_def)
  then have "(of_int (active (heap w b)) :: rat) \<le> of_int cap" by simp
  also have "\<dots> \<le> 5 / 4 * mean_active w (pool cd now w) + 2"
    unfolding cap by (rule pool_capacity) (use assms(1,2) in \<open>simp_all add: ch_ok_def\<close>)
  finally show ?thesis using b by (auto simp: ActiveConns_def)
qed

lemma sample_ch_ok: "ch_ok (NewConsistentHashBoundedLoads sample_world) sample_world"
  using cache_ok_new [of sample_world]
  by (simp add: ch_ok_def registry_wf_def loads_ok_def sample_world_def fresh_backend_def)

theorem bounded_loads_first_admissible_witness:
  "\<exists>b. snd (snd (ConsistentHash_Select (with_breaker 5 (\<lambda>b. 0))
     (NewConsistentHashBoundedLoads sample_world) ''10.0.0.1:4711'' sample_world)) = Inr b"
  using bounded_loads_first_admissible [OF sample_ch_ok, of 5 "\<lambda>b. 0" "''10.0.0.1:4711''"]
  by (auto simp: sample_pool)

section \<open>A backend with an open circuit can be chosen\<close>

text \<open>
  The walk checks health, removal and capacity but not the circuit, so the selector can return a
  backend that is not selectable: the pool only decides whether to fail and what the capacity is.
\<close>

definition one_open :: "bid \<Rightarrow> world" where
  "one_open b = sample_world\<lparr>heap := (heap sample_world)(b := (heap sample_world b)
     \<lparr>circuit := Some (zeroSnapshot\<lparr>state := circuitOpen, openedAt := 0\<rparr>)\<rparr>)\<rparr>"

lemma one_open_fields:
  "snap (one_open b) = snap sample_world" "names (one_open b) = names sample_world"
  "active (heap (one_open b) c) = 0" "healthy (heap (one_open b) c)" "\<not> removed (heap (one_open b) c)"
  by (simp_all add: one_open_def names_def fun_eq_iff) (simp_all add: sample_world_def fresh_backend_def)

lemma one_open_routable: "routable 5 (\<lambda>b. 0) (one_open b) c \<longleftrightarrow> c \<noteq> b"
proof -
  have "bstate (heap (one_open b) c) = (if c = b then Open 0 else Closed 0)"
    by (simp add: one_open_def bstate_def circuit_abs_defs sample_world_def fresh_backend_def)
  then show ?thesis by (simp add: routable_def one_open_fields time_since_def)
qed

text \<open>
  C40. \<open>ConsistentHashBoundedLoads\<close> is not restricted to the selectable backends: in a fleet
  of two, both healthy and idle, with the circuit of one open, there is a client for which it
  returns the open one although the other is selectable.
\<close>

theorem consistent_hash_may_choose_open_circuit:
  "\<exists>w b. pool 5 (\<lambda>b. 0) w \<noteq> [] \<and> b \<notin> set (pool 5 (\<lambda>b. 0) w)
    \<and> (\<exists>t. bstate (heap w b) = Open t)
    \<and> snd (snd (ConsistentHash_Select (with_breaker 5 (\<lambda>b. 0)) (NewConsistentHashBoundedLoads w)
         ''10.0.0.1:4711'' (w :: world))) = Inr b"
proof -
  define cands where "cands = candidates (newRing (names sample_world) [0, 1]) ''10.0.0.1''"
  have set: "set cands = {0, 1}" by (simp add: cands_def candidates_set)
  then obtain b rest where b: "cands = b # rest" by (cases cands) auto
  with set have b01: "b = 0 \<or> b = 1" by auto
  define w where "w = one_open b"
  have sn: "backends (snap w) = [0, 1]" by (simp add: w_def one_open_fields sample_world_def)
  have pool: "pool 5 (\<lambda>b. 0) w = [1 - b]"
    using b01 sn unfolding w_def by (auto simp: pool_def one_open_routable)
  have ok: "ch_ok (NewConsistentHashBoundedLoads w) w"
    using cache_ok_new [of w] sample_ch_ok
    by (simp add: ch_ok_def registry_wf_def loads_ok_def sn w_def one_open_fields)
       (simp add: one_open_def sample_world_def fresh_backend_def)
  have key: "requestHashKey ''10.0.0.1:4711'' = ''10.0.0.1''"
    using requestHashKey_port [of "''10.0.0.1''" "''4711''"] by simp
  have "admits w (capacityFor (map (\<lambda>b. active (heap w b)) (pool 5 (\<lambda>b. 0) w))) b"
    using pool_capacity(3) [of w 5 "\<lambda>b. 0"] ok pool
    by (simp add: admits_def IsHealthy_def IsRemoved_def ActiveConns_def w_def one_open_fields ch_ok_def)
  then have "find (admits w (capacityFor (map (\<lambda>b. active (heap w b)) (pool 5 (\<lambda>b. 0) w))))
      (candidates (newRing (names w) (backends (snap w))) (requestHashKey ''10.0.0.1:4711'')) = Some b"
  proof -
    have "names w = names sample_world" by (simp add: w_def one_open_fields)
    then have "candidates (newRing (names w) (backends (snap w))) (requestHashKey ''10.0.0.1:4711'') = b # rest"
      by (simp only: key sn b [symmetric] cands_def)
    with \<open>admits w _ b\<close> show ?thesis by simp
  qed
  then have "snd (snd (ConsistentHash_Select (with_breaker 5 (\<lambda>b. 0)) (NewConsistentHashBoundedLoads w)
      ''10.0.0.1:4711'' w)) = Inr b"
    using ConsistentHash_chooses [OF ok, of 5 "\<lambda>b. 0" "''10.0.0.1:4711''"] pool by auto
  moreover have "bstate (heap w b) = Open 0"
    by (simp add: w_def one_open_def bstate_def circuit_abs_defs)
  ultimately show ?thesis using pool b01 by (intro exI [of _ w] exI [of _ b]) auto
qed

section \<open>The comparator ignores load and circuit\<close>

lemma naive_walk_find:
  "naive_walk w bs = (case find (\<lambda>b. healthy (heap w b)) bs of
     None \<Rightarrow> Inl ErrNoHealthyBackends | Some b \<Rightarrow> Inr b)"
  by (induction bs) (auto simp: IsHealthy_def)

lemma naive_first_healthy:
  assumes "b \<in> set (All w)" and "healthy (heap w b)"
  shows "\<exists>c. naiveConsistentHash_Select (newNaiveConsistentHash w) addr w =
      (newNaiveConsistentHash w, w, Inr c) \<and> c \<in> set (All w) \<and> healthy (heap w c)"
proof -
  have "b \<in> set (candidates (newNaiveConsistentHash w) (requestHashKey addr))"
    using assms(1) by (simp add: newNaiveConsistentHash_def candidates_set)
  then obtain c where c: "find (\<lambda>b. healthy (heap w b))
      (candidates (newNaiveConsistentHash w) (requestHashKey addr)) = Some c"
    using find_exists [of b _ "\<lambda>b. healthy (heap w b)"] assms(2) by blast
  have "c \<in> set (All w) \<and> healthy (heap w c)"
    using find_Some_iff_nth [OF c] by (simp add: newNaiveConsistentHash_def candidates_set)
  then show ?thesis by (auto simp: naiveConsistentHash_Select_def naive_walk_find c)
qed

section \<open>Every configured selector meets the contract\<close>

text \<open>What the selector in use needs of its state and the world.\<close>

fun selector_ok :: "selector_state \<Rightarrow> 'a world_scheme \<Rightarrow> bool" where
  "selector_ok (SelConsistentHash c) w = (addressable w \<and> ch_ok c w)"
| "selector_ok s w = addressable w"

lemma Selector_Select_lift:
  "Selector_Select g dr (SelRoundRobin c) addr w =
     (SelRoundRobin (fst (RoundRobin_Select g c addr w)), snd (RoundRobin_Select g c addr w))"
  "Selector_Select g dr SelLeastConnections addr w =
     (SelLeastConnections, snd (LeastConnections_Select g () addr w))"
  "Selector_Select g dr (SelConsistentHash ca) addr w =
     (SelConsistentHash (fst (ConsistentHash_Select g ca addr w)), snd (ConsistentHash_Select g ca addr w))"
  "Selector_Select g dr SelP2C addr w = (SelP2C, snd (PowerOfTwoChoicesEWMA_Select g dr () addr w))"
  by (simp_all split: prod.splits)

declare Selector_Select.simps [simp del]

interpretation any: selector "Selector_Select (with_breaker cd now) (\<lambda>k n. d k mod n)" "pool cd now" selector_ok
  for cd now d
proof
  fix s addr b and w :: "'a world_scheme"
  assume ok: "selector_ok s w"
  let ?r = "Selector_Select (with_breaker cd now) (\<lambda>k n. d k mod n) s addr w"
  show f: "same_but_circuits w (fst (snd ?r))"
    using ok by (cases s)
      (simp_all add: Selector_Select_lift rr.select_frame lc.select_frame ch.select_frame p2c.select_frame)
  have a: "addressable (fst (snd ?r))"
    using ok same_but_circuitsD(1) [OF f] by (cases s) (simp_all add: addressable_def)
  then show "selector_ok (fst ?r) (fst (snd ?r))"
    using ok by (cases s) (simp_all add: Selector_Select_lift ch.select_ok)
  show "pool cd now w \<noteq> [] \<Longrightarrow> \<exists>b. snd (snd ?r) = Inr b"
    using ok by (cases s)
      (simp_all add: Selector_Select_lift rr.select_total lc.select_total ch.select_total p2c.select_total)
  show "pool cd now w = [] \<Longrightarrow> snd (snd ?r) = Inl ErrNoHealthyBackends"
    using ok by (cases s)
      (simp_all add: Selector_Select_lift rr.select_empty lc.select_empty ch.select_empty p2c.select_empty)
  show "snd (snd ?r) = Inr b \<Longrightarrow> b \<in> set (backends (snap w)) \<and> healthy (heap w b)"
    using ok by (cases s)
      (auto simp: Selector_Select_lift
        dest: rr.select_served lc.select_served ch.select_served p2c.select_served)
qed

text \<open>
  The factory and the validator agree: for a validated configuration the factory builds a
  selector, in a state that is right for the registry it was built over.
\<close>

theorem NewFromConfig_total:
  assumes "config_ok parse c" and "addressable w" and "registry_wf w" and "loads_ok w"
  shows "\<exists>s. NewFromConfig (resolve c) w = Inr s \<and> selector_ok s w"
  using assms cache_ok_new [of w]
  by (auto simp: config_ok_def NewFromConfig_def implementedAlgorithms_def ch_ok_def algorithm_names)

theorem NewFromConfig_total_witness:
  "\<exists>s. NewFromConfig (resolve sample_config) sample_world = Inr s"
proof -
  have "registry_wf sample_world" "loads_ok sample_world" using sample_ch_ok by (simp_all add: ch_ok_def)
  from NewFromConfig_total [OF config_ok_sample sample_addressable this] show ?thesis by blast
qed

text \<open>
  C7. The selectors are interchangeable: whichever strategy is configured, a call fails exactly
  when no backend is selectable, otherwise returns a healthy backend of the published snapshot,
  and changes no backend except through the pool scan's circuit promotions.
\<close>

theorem any_selector_contract:
  fixes addr d cd now
  assumes "selector_ok s w"
  defines "r \<equiv> Selector_Select (with_breaker cd now) (\<lambda>k n. d k mod n) s addr w"
  shows "(case snd (snd r) of Inl e \<Rightarrow> pool cd now w = []
          | Inr b \<Rightarrow> pool cd now w \<noteq> [] \<and> b \<in> set (backends (snap w)) \<and> healthy (heap w b))
    \<and> same_but_circuits w (fst (snd r)) \<and> selector_ok (fst r) (fst (snd r))"
proof -
  have "case snd (snd r) of Inl e \<Rightarrow> pool cd now w = []
          | Inr b \<Rightarrow> pool cd now w \<noteq> [] \<and> b \<in> set (backends (snap w)) \<and> healthy (heap w b)"
    using any.select_error_iff [OF assms(1), of cd now d addr]
      any.select_served [OF assms(1), of cd now d addr] any.select_empty [OF assms(1), of cd now d addr]
    unfolding r_def by (auto split: sum.splits)
  then show ?thesis unfolding r_def
    using any.select_frame [OF assms(1)] any.select_ok [OF assms(1)] by blast
qed

theorem any_selector_contract_witness:
  "\<exists>b. snd (snd (Selector_Select (with_breaker 5 (\<lambda>b. 0)) (\<lambda>k n. 3 mod n) (SelRoundRobin 0) '''' sample_world)) = Inr b"
proof -
  have ok: "selector_ok (SelRoundRobin 0) sample_world" by (simp add: sample_addressable)
  show ?thesis
    using any_selector_contract [OF ok, where cd = 5 and now = "\<lambda>b. 0" and d = "\<lambda>k. 3" and addr = "''''"]
    by (auto simp: sample_pool split: sum.splits)
qed


text \<open>
  C12. Bounded loads differs from plain consistent hashing only to shed load: on the same key and
  snapshot the load-blind comparator picks some backend \<open>n\<close>, and \<open>ConsistentHashBoundedLoads\<close>
  returns that same backend exactly when \<open>n\<close> is within the capacity; otherwise its choice comes
  later in the candidate sequence and is within the capacity itself.
\<close>

theorem bounded_loads_versus_naive:
  fixes addr
  assumes "ch_ok c w" and "pool cd now w \<noteq> []"
  defines "cap \<equiv> capacityFor (map (\<lambda>b. ActiveConns (heap w b)) (pool cd now w))"
    and "bounded \<equiv> snd (snd (ConsistentHash_Select (with_breaker cd now) c addr w))"
    and "naive \<equiv> snd (snd (naiveConsistentHash_Select (newNaiveConsistentHash w) addr w))"
    and "cands \<equiv> candidates (newNaiveConsistentHash w) (requestHashKey addr)"
  shows "\<exists>n b before mid after. naive = Inr n \<and> bounded = Inr b \<and> ActiveConns (heap w b) \<le> cap \<and>
    (if ActiveConns (heap w n) \<le> cap then b = n else cands = before @ n # mid @ b # after)"
proof -
  have cap: "cap = capacityFor (map (\<lambda>b. active (heap w b)) (pool cd now w))"
    by (simp add: cap_def ActiveConns_def)
  have cs: "cands = candidates (newRing (names w) (backends (snap w))) (requestHashKey addr)"
    by (simp add: cands_def newNaiveConsistentHash_def All_def)
  obtain b where b: "bounded = Inr b" "find (admits w cap) cands = Some b"
    using ConsistentHash_chooses [OF assms(1,2), of addr] unfolding cap cs bounded_def by auto
  have b': "b \<in> set cands" "healthy (heap w b)" "ActiveConns (heap w b) \<le> cap"
    using find_Some_iff_nth [OF b(2)] by (auto simp: admits_def IsHealthy_def)
  then obtain n where n: "find (\<lambda>b. healthy (heap w b)) cands = Some n"
    using find_exists [of b cands "\<lambda>b. healthy (heap w b)"] by blast
  have alive: "\<forall>x \<in> set cands. \<not> removed (heap w x)"
    using assms(1) by (auto simp: cs candidates_set ch_ok_def registry_wf_def)
  have "if ActiveConns (heap w n) \<le> cap then b = n else \<exists>before mid after. cands = before @ n # mid @ b # after"
    using n b(2) alive
  proof (induction cands)
    case (Cons x xs)
    show ?case
    proof (cases "healthy (heap w x)")
      case True
      then have x: "x = n" using Cons.prems(1) by simp
      show ?thesis
      proof (cases "ActiveConns (heap w n) \<le> cap")
        case True
        then have "admits w cap x"
          using Cons.prems(3) \<open>healthy (heap w x)\<close> x by (simp add: admits_def IsHealthy_def IsRemoved_def)
        then show ?thesis using Cons.prems(2) x True by simp
      next
        case False
        then have "\<not> admits w cap n" by (simp add: admits_def)
        then have "find (admits w cap) xs = Some b" using Cons.prems(2) x by simp
        then obtain mid after where "xs = mid @ b # after"
          using find_Some_iff_nth split_list by metis
        then show ?thesis using False x by (metis append_Nil)
      qed
    next
      case False
      then have "\<not> admits w cap x" by (simp add: admits_def IsHealthy_def)
      with False have "if ActiveConns (heap w n) \<le> cap then b = n else \<exists>before mid after. xs = before @ n # mid @ b # after"
        using Cons.prems by (intro Cons.IH) simp_all
      then show ?thesis by (metis append_Cons)
    qed
  qed simp
  moreover have "naive = Inr n"
    using n by (simp add: naive_def naiveConsistentHash_Select_def naive_walk_find cands_def)
  ultimately show ?thesis using b(1) b'(3) by (auto split: if_splits)
qed

theorem bounded_loads_versus_naive_witness:
  "snd (snd (ConsistentHash_Select (with_breaker 5 (\<lambda>b. 0)) (NewConsistentHashBoundedLoads sample_world)
       ''10.0.0.1:4711'' sample_world)) =
   snd (snd (naiveConsistentHash_Select (newNaiveConsistentHash sample_world) ''10.0.0.1:4711'' sample_world))"
proof -
  let ?cap = "capacityFor (map (\<lambda>b. ActiveConns (heap sample_world b)) (pool 5 (\<lambda>b. 0) sample_world))"
  have "loads_ok sample_world" using sample_ch_ok by (simp add: ch_ok_def)
  then have "1 \<le> ?cap" using pool_capacity(3) [of sample_world 5 "\<lambda>b. 0"] by (simp add: sample_pool ActiveConns_def)
  moreover have "ActiveConns (heap sample_world n) = 0" for n
    by (simp add: ActiveConns_def sample_world_def fresh_backend_def)
  ultimately show ?thesis
    using bounded_loads_versus_naive [OF sample_ch_ok, of 5 "\<lambda>b. 0" "''10.0.0.1:4711''"]
    by (auto simp: sample_pool)
qed

end
