(* ===== verification/Outlier.thy ===== *)
theory Outlier
  imports Observer
begin

text \<open>
  Passive outlier detection, \<open>internal/health/outlier.go\<close>: per backend a ring of the
  ten most recent round-trip outcomes and the flag of the current ejection episode. The windows
  are a map from backend addresses, guarded in the code by one mutex that every operation holds
  from start to end, so each operation is one step. The \<open>eject\<close> field is the test seam
  whose production value, \<open>MarkUnhealthy\<close>, is written in.
\<close>

definition outlierWindowSize :: nat where "outlierWindowSize = 10"
definition outlierFailuresBeforeEject :: int where "outlierFailuresBeforeEject = 5"

lemmas outlier_constants = outlierWindowSize_def outlierFailuresBeforeEject_def

record outlierWindow =
  outcomes :: "bool list"
  next_slot :: nat
  filled :: nat
  window_failures :: int
  ejected :: bool

record outlier_world = world +
  windows :: "bid \<rightharpoonup> outlierWindow"

definition new_window :: outlierWindow where
  "new_window = \<lparr>outcomes = replicate outlierWindowSize False, next_slot = 0, filled = 0,
     window_failures = 0, ejected = False\<rparr>"

definition window_observe :: "bool \<Rightarrow> outlierWindow \<Rightarrow> outlierWindow" where
  "window_observe success w =
     (let w1 = (if filled w = outlierWindowSize
                then (if \<not> outcomes w ! next_slot w
                      then w\<lparr>window_failures := window_failures w - 1\<rparr> else w)
                else w\<lparr>filled := filled w + 1\<rparr>);
          w2 = w1\<lparr>outcomes := (outcomes w1)[next_slot w1 := success]\<rparr>;
          w3 = (if \<not> success then w2\<lparr>window_failures := window_failures w2 + 1\<rparr> else w2)
      in w3\<lparr>next_slot := (next_slot w3 + 1) mod outlierWindowSize\<rparr>)"

definition window_reset :: "outlierWindow \<Rightarrow> outlierWindow" where
  "window_reset w = w\<lparr>outcomes := map (\<lambda>_. False) (outcomes w), next_slot := 0, filled := 0,
     window_failures := 0, ejected := False\<rparr>"

definition Forget :: "bid \<Rightarrow> 'a outlier_world_scheme \<Rightarrow> 'a outlier_world_scheme" where
  "Forget b w = w\<lparr>windows := (windows w)(b := None)\<rparr>"

definition Outlier_ObserveRoundTrip ::
  "bid \<Rightarrow> duration \<Rightarrow> bool \<Rightarrow> 'a outlier_world_scheme \<Rightarrow> 'a outlier_world_scheme" where
  "Outlier_ObserveRoundTrip b d success w =
     (let win = (case windows w b of None \<Rightarrow> new_window | Some x \<Rightarrow> x);
          win = (if ejected win \<and> IsHealthy (heap w b) then window_reset win else win);
          win = window_observe success win
      in if \<not> success \<and> \<not> ejected win \<and> window_failures win \<ge> outlierFailuresBeforeEject
         then (let w1 = w\<lparr>windows := (windows w)(b \<mapsto> win\<lparr>ejected := True\<rparr>)\<rparr>;
                   w2 = on_backend b MarkUnhealthy w1;
                   w3 = meter (SetBackendHealthy (Name (heap w2 b)) False) w2
               in log (transition_line LevelWarn ''backend ejected'' (Name (heap w3 b))
                         EventHealthEjected ReasonOutlierWindow) w3)
         else w\<lparr>windows := (windows w)(b \<mapsto> win)\<rparr>)"

section \<open>The ring is a queue of the last ten outcomes\<close>

text \<open>The retained outcomes, oldest first.\<close>

definition recent :: "outlierWindow \<Rightarrow> bool list" where
  "recent w =
     (if filled w < outlierWindowSize then take (filled w) (outcomes w)
      else drop (next_slot w) (outcomes w) @ take (next_slot w) (outcomes w))"

definition push_outcome :: "bool \<Rightarrow> bool list \<Rightarrow> bool list" where
  "push_outcome s xs = (if length xs < outlierWindowSize then xs else tl xs) @ [s]"

definition count_failures :: "bool list \<Rightarrow> int" where
  "count_failures xs = int (length (filter Not xs))"

definition window_wf :: "outlierWindow \<Rightarrow> bool" where
  "window_wf w \<longleftrightarrow>
     length (outcomes w) = outlierWindowSize \<and> next_slot w < outlierWindowSize \<and>
     filled w \<le> outlierWindowSize \<and> (filled w < outlierWindowSize \<longrightarrow> next_slot w = filled w) \<and>
     window_failures w = count_failures (recent w)"

lemma window_wf_new [simp]: "window_wf new_window" "recent new_window = []" "\<not> ejected new_window"
  by (simp_all add: window_wf_def new_window_def recent_def count_failures_def outlier_constants)

lemma window_wf_reset:
  "window_wf w \<Longrightarrow> window_wf (window_reset w) \<and> recent (window_reset w) = [] \<and> \<not> ejected (window_reset w)"
  by (simp add: window_wf_def window_reset_def recent_def count_failures_def outlier_constants)

lemma recent_rotate_step:
  assumes "length xs = n" and "k < n"
  shows "(if Suc k = n then xs[k := s] else drop (Suc k) (xs[k := s]) @ take (Suc k) (xs[k := s])) =
    tl (drop k xs @ take k xs) @ [s]"
proof -
  have t: "take (Suc k) (xs[k := s]) = take k xs @ [s]"
    using assms by (simp add: take_Suc_conv_app_nth)
  have "drop k xs = xs ! k # drop (Suc k) xs" using assms by (simp add: Cons_nth_drop_Suc)
  then have r: "tl (drop k xs @ take k xs) @ [s] = drop (Suc k) xs @ take k xs @ [s]" by simp
  show ?thesis
  proof (cases "Suc k = n")
    case True
    then have "xs[k := s] = take k xs @ [s]" using assms t by (metis length_list_update take_all_iff order_refl)
    then show ?thesis using True assms r by simp
  next
    case False
    then show ?thesis using t r by simp
  qed
qed

lemma window_observe_fields:
  "outcomes (window_observe s w) = (outcomes w)[next_slot w := s]"
  "next_slot (window_observe s w) = (next_slot w + 1) mod outlierWindowSize"
  "filled (window_observe s w) = (if filled w = outlierWindowSize then filled w else filled w + 1)"
  "window_failures (window_observe s w) =
     window_failures w - (if filled w = outlierWindowSize \<and> \<not> outcomes w ! next_slot w then 1 else 0)
       + (if s then 0 else 1)"
  "ejected (window_observe s w) = ejected w"
  by (simp_all add: window_observe_def Let_def)

lemma recent_observe:
  assumes "window_wf w"
  shows "recent (window_observe s w) = push_outcome s (recent w)"
proof -
  define n where "n = outlierWindowSize"
  have n: "0 < n" by (simp add: n_def outlier_constants)
  have wf: "length (outcomes w) = n" "next_slot w < n" "filled w \<le> n" "filled w < n \<Longrightarrow> next_slot w = filled w"
    using assms by (simp_all add: window_wf_def n_def)
  show ?thesis
  proof (cases "filled w < n")
    case True
    have "take (Suc (filled w)) ((outcomes w)[filled w := s]) = take (filled w) (outcomes w) @ [s]"
      using True wf(1) by (simp add: take_Suc_conv_app_nth)
    moreover have "length (take (filled w) (outcomes w)) < n" using True wf(1) by simp
    moreover have "Suc (filled w) = n \<Longrightarrow> (outcomes w)[filled w := s] =
        take (Suc (filled w)) ((outcomes w)[filled w := s])" using wf(1) by simp
    ultimately show ?thesis
      using True wf n
      by (cases "Suc (filled w) = n")
         (simp_all add: recent_def push_outcome_def window_observe_fields n_def [symmetric])
  next
    case False
    then have f: "filled w = n" using wf(3) by simp
    have l: "length (drop (next_slot w) (outcomes w) @ take (next_slot w) (outcomes w)) = n"
      using wf by simp
    show ?thesis
      using recent_rotate_step [OF wf(1,2), of s] f wf(2) l
      by (auto simp: recent_def push_outcome_def window_observe_fields n_def [symmetric] mod_Suc)
  qed
qed

lemma count_failures_push:
  "count_failures (push_outcome s xs) =
     count_failures xs - (if length xs \<ge> outlierWindowSize \<and> xs \<noteq> [] \<and> \<not> hd xs then 1 else 0)
       + (if s then 0 else 1)"
  by (cases xs) (auto simp: push_outcome_def count_failures_def outlier_constants)

lemma window_wf_observe:
  assumes "window_wf w"
  shows "window_wf (window_observe s w)"
proof -
  define n where "n = outlierWindowSize"
  have n: "0 < n" by (simp add: n_def outlier_constants)
  have wf: "length (outcomes w) = n" "next_slot w < n" "filled w \<le> n" "filled w < n \<Longrightarrow> next_slot w = filled w"
    "window_failures w = count_failures (recent w)"
    using assms by (simp_all add: window_wf_def n_def)
  have hd: "n \<le> length (recent w) \<and> recent w \<noteq> [] \<and> \<not> hd (recent w) \<longleftrightarrow>
      filled w = n \<and> \<not> outcomes w ! next_slot w"
  proof (cases "filled w < n")
    case True
    then show ?thesis using wf by (auto simp: recent_def n_def [symmetric])
  next
    case False
    then show ?thesis using wf n
      by (auto simp: recent_def n_def [symmetric] hd_append hd_drop_conv_nth)
  qed
  have "window_failures (window_observe s w) = count_failures (recent (window_observe s w))"
    unfolding recent_observe [OF assms] count_failures_push window_observe_fields(4) wf(5)
    using hd by (simp add: n_def [symmetric])
  then show ?thesis using wf n
    by (auto simp: window_wf_def window_observe_fields n_def [symmetric] mod_Suc)
qed

section \<open>The detector against its specification\<close>

text \<open>
  What the detector is meant to be per backend: the recent outcomes and whether the backend has
  been ejected in this episode. A backend that was ejected and reads healthy has been
  reinstated, which starts a new episode.
\<close>

type_synonym episode = "bool list \<times> bool"

fun spec_outlier :: "bool \<Rightarrow> bool \<Rightarrow> episode \<Rightarrow> episode \<times> bool" where
  "spec_outlier isok s (xs, ej) =
     (let (xs, ej) = (if ej \<and> isok then ([], False) else (xs, ej));
          xs = push_outcome s xs;
          eject = (\<not> s \<and> \<not> ej \<and> count_failures xs \<ge> outlierFailuresBeforeEject)
      in ((xs, ej \<or> eject), eject))"

definition window_of :: "'a outlier_world_scheme \<Rightarrow> bid \<Rightarrow> outlierWindow" where
  "window_of w b = (case windows w b of None \<Rightarrow> new_window | Some x \<Rightarrow> x)"

definition episode_of :: "'a outlier_world_scheme \<Rightarrow> bid \<Rightarrow> episode" where
  "episode_of w b = (recent (window_of w b), ejected (window_of w b))"

definition windows_wf :: "'a outlier_world_scheme \<Rightarrow> bool" where
  "windows_wf w \<longleftrightarrow> (\<forall>b. window_wf (window_of w b))"

lemma Forget_episode: "episode_of (Forget b w) b = ([], False)"
  by (simp add: episode_of_def window_of_def Forget_def)

lemma Outlier_step:
  fixes b s d
  assumes "windows_wf w"
  defines "r \<equiv> spec_outlier (healthy (heap w b)) s (episode_of w b)"
  shows "\<exists>win. window_wf win \<and> recent win = fst (fst r) \<and> ejected win = snd (fst r) \<and>
    Outlier_ObserveRoundTrip b d s w =
      (let w1 = w\<lparr>windows := (windows w)(b \<mapsto> win)\<rparr>
       in if snd r
          then log (transition_line LevelWarn ''backend ejected'' (Name (heap w b))
                      EventHealthEjected ReasonOutlierWindow)
                 (meter (SetBackendHealthy (Name (heap w b)) False) (on_backend b MarkUnhealthy w1))
          else w1)"
proof -
  define win0 where "win0 = window_of w b"
  have wf0: "window_wf win0" using assms(1) by (simp add: windows_wf_def win0_def)
  define win1 where "win1 = (if ejected win0 \<and> healthy (heap w b) then window_reset win0 else win0)"
  have wf1: "window_wf win1" using wf0 window_wf_reset by (simp add: win1_def)
  define win2 where "win2 = window_observe s win1"
  have wf2: "window_wf win2" "recent win2 = push_outcome s (recent win1)" "ejected win2 = ejected win1"
    using window_wf_observe [OF wf1] recent_observe [OF wf1] by (simp_all add: win2_def window_observe_fields)
  have e1: "(recent win1, ejected win1) =
      (if ejected win0 \<and> healthy (heap w b) then ([], False) else (recent win0, ejected win0))"
    using window_wf_reset [OF wf0] by (simp add: win1_def)
  have fails: "window_failures win2 = count_failures (push_outcome s (recent win1))"
    using wf2 by (simp add: window_wf_def)
  define ej where "ej = (\<not> s \<and> \<not> ejected win2 \<and> window_failures win2 \<ge> outlierFailuresBeforeEject)"
  have r: "r = ((recent win2, ejected win2 \<or> ej), ej)"
    using e1 fails wf2 by (auto simp: r_def episode_of_def win0_def [symmetric] ej_def Let_def)
  have code: "Outlier_ObserveRoundTrip b d s w =
      (if ej
       then log (transition_line LevelWarn ''backend ejected'' (Name (heap w b))
                      EventHealthEjected ReasonOutlierWindow)
              (meter (SetBackendHealthy (Name (heap w b)) False)
                (on_backend b MarkUnhealthy (w\<lparr>windows := (windows w)(b \<mapsto> win2\<lparr>ejected := True\<rparr>)\<rparr>)))
       else w\<lparr>windows := (windows w)(b \<mapsto> win2)\<rparr>)"
    unfolding Outlier_ObserveRoundTrip_def Let_def window_of_def [symmetric] win0_def [symmetric]
      IsHealthy_def win1_def [symmetric] win2_def [symmetric] ej_def [symmetric]
    by (simp add: MarkUnhealthy_def)
  define win where "win = (if ej then win2\<lparr>ejected := True\<rparr> else win2)"
  have "window_wf win" "recent win = recent win2" "ejected win = (ejected win2 \<or> ej)"
    using wf2(1) by (auto simp: win_def window_wf_def recent_def)
  then show ?thesis
    by (intro exI [of _ win]) (simp add: r code win_def Let_def)
qed

lemma Outlier_slots: "slots_kept w (Outlier_ObserveRoundTrip b d s w)"
  by (auto simp: Outlier_ObserveRoundTrip_def slots_kept_def MarkUnhealthy_def Let_def)

interpretation outlier_observer: round_trip_observer
  "Outlier_ObserveRoundTrip :: bid \<Rightarrow> duration \<Rightarrow> bool \<Rightarrow> 'a outlier_world_scheme \<Rightarrow> 'a outlier_world_scheme"
proof unfold_locales
  fix b b' d ok and w :: "'a outlier_world_scheme"
  show "slots_kept w (Outlier_ObserveRoundTrip b d ok w)" by (rule Outlier_slots)
  show "b' \<noteq> b \<Longrightarrow> heap (Outlier_ObserveRoundTrip b d ok w) b' = heap w b'"
    by (auto simp: Outlier_ObserveRoundTrip_def Let_def)
qed

text \<open>
  C21. The outlier detector keeps exactly the last ten outcomes since the episode began and
  ejects on the failure that brings the failures among them to five: one observation updates the
  episode as the specification says, keeps every window's bookkeeping consistent, and marks the
  backend unhealthy, writes the gauge and logs one line precisely when the specification
  ejects; no other backend and no other window changes.
\<close>

theorem outlier_refines_window:
  fixes b s d
  assumes "windows_wf w"
  defines "r \<equiv> spec_outlier (healthy (heap w b)) s (episode_of w b)"
    and "w' \<equiv> Outlier_ObserveRoundTrip b d s w"
  shows "windows_wf w' \<and> episode_of w' b = fst r
    \<and> (if snd r
       then \<not> healthy (heap w' b)
         \<and> prom w' = SetBackendHealthy (Name (heap w b)) False (prom w)
         \<and> logs w' = logs w @ [transition_line LevelWarn ''backend ejected'' (Name (heap w b))
                                 EventHealthEjected ReasonOutlierWindow]
       else heap w' = heap w \<and> prom w' = prom w \<and> logs w' = logs w)
    \<and> (\<forall>c. if c = b then True else episode_of w' c = episode_of w c \<and> heap w' c = heap w c)"
proof -
  obtain win where win: "window_wf win" "recent win = fst (fst r)" "ejected win = snd (fst r)"
    "w' = (let w1 = w\<lparr>windows := (windows w)(b \<mapsto> win)\<rparr>
       in if snd r
          then log (transition_line LevelWarn ''backend ejected'' (Name (heap w b))
                      EventHealthEjected ReasonOutlierWindow)
                 (meter (SetBackendHealthy (Name (heap w b)) False) (on_backend b MarkUnhealthy w1))
          else w1)"
    using Outlier_step [OF assms(1)] unfolding w'_def r_def by blast
  have ws: "windows w' = (windows w)(b \<mapsto> win)"
    by (simp add: win(4) Let_def log_def meter_def on_backend_def)
  have "windows_wf w'" using assms(1) win(1) by (auto simp: windows_wf_def window_of_def ws)
  moreover have "episode_of w' b = fst r"
    by (simp only: episode_of_def window_of_def ws fun_upd_same option.case win(2,3) prod.collapse)
  moreover have "c \<noteq> b \<Longrightarrow> episode_of w' c = episode_of w c" for c
    by (simp add: episode_of_def window_of_def ws)
  ultimately show ?thesis by (auto simp: win(4) Let_def MarkUnhealthy_def)
qed

definition sample_outlier :: outlier_world where
  "sample_outlier =
     \<lparr>heap = heap sample_world, nextbid = 2, snap = snap sample_world, prom = [], logs = [],
      windows = Map.empty\<rparr>"

lemma sample_windows_wf: "windows_wf sample_outlier"
  by (simp add: windows_wf_def window_of_def sample_outlier_def)

theorem outlier_refines_window_witness:
  "episode_of (Outlier_ObserveRoundTrip 0 7 False sample_outlier) 0 = ([False], False)"
  using outlier_refines_window [OF sample_windows_wf, where b = 0 and s = False and d = 7]
  by (simp add: episode_of_def window_of_def sample_outlier_def push_outcome_def count_failures_def
      outlier_constants)

text \<open>
  Within an episode the backend is ejected at most once: while it stays unhealthy after an
  ejection, no further failure ejects or logs.
\<close>

lemma ejected_once:
  assumes "windows_wf w" and "snd (episode_of w b)" and "\<not> healthy (heap w b)"
  shows "logs (Outlier_ObserveRoundTrip b d s w) = logs w"
    and "snd (episode_of (Outlier_ObserveRoundTrip b d s w) b)"
proof -
  let ?r = "spec_outlier (healthy (heap w b)) s (episode_of w b)"
  have r: "\<not> snd ?r" "snd (fst ?r)"
    using assms(2,3) by (cases "episode_of w b"; simp add: Let_def)+
  obtain win where win: "ejected win = snd (fst ?r)"
    "Outlier_ObserveRoundTrip b d s w = w\<lparr>windows := (windows w)(b \<mapsto> win)\<rparr>"
    using Outlier_step [OF assms(1), of b s d] r by (auto simp: Let_def)
  show "logs (Outlier_ObserveRoundTrip b d s w) = logs w" by (simp add: win(2))
  show "snd (episode_of (Outlier_ObserveRoundTrip b d s w) b)"
    using win r by (simp add: episode_of_def window_of_def)
qed

end
