(* ===== verification/Checker.thy ===== *)
theory Checker
  imports Registry
begin

text \<open>
  The active health checker, \<open>internal/health/checker.go\<close>. A prober's goroutine is the
  only one to touch its counters, and the checker's map is guarded by a mutex, so the checker is
  a state machine whose steps are: register a prober, stop one, and fold one finished probe in.
  The HTTP exchange is outside: a probe's outcome is the response's status, or none for a
  transport error. \<open>Remove\<close> waits for the prober's goroutine, so a probe in flight is
  either folded in before \<open>Remove\<close> returns or finds its context cancelled.
\<close>

definition probeFailuresBeforeUnhealthy :: int where "probeFailuresBeforeUnhealthy = 3"
definition probeSuccessesBeforeHealthy :: int where "probeSuccessesBeforeHealthy = 2"
definition probeInitialSuccessesBeforeHealthy :: int where "probeInitialSuccessesBeforeHealthy = 1"

lemmas probe_constants = probeFailuresBeforeUnhealthy_def probeSuccessesBeforeHealthy_def
  probeInitialSuccessesBeforeHealthy_def

record prober =
  p_added :: bool
  p_successes :: int
  p_failures :: int
  p_counted :: bool

record Checker =
  backendCount :: int
  probed :: int
  probeRoundComplete :: bool
  probers :: "bid \<rightharpoonup> prober"

definition NewChecker :: "'a world_scheme \<Rightarrow> Checker" where
  "NewChecker w = \<lparr>backendCount = int (length (All w)), probed = 0, probeRoundComplete = False,
     probers = Map.empty\<rparr>"

definition newProber :: prober where
  "newProber = \<lparr>p_added = False, p_successes = 0, p_failures = 0, p_counted = False\<rparr>"

definition checker_add ::
  "bid \<Rightarrow> bool \<Rightarrow> Checker \<times> 'a world_scheme \<Rightarrow> Checker \<times> 'a world_scheme" where
  "checker_add b added cw =
     (let (c, w) = cw
      in case probers c b of
           Some p \<Rightarrow> (c, w)
         | None \<Rightarrow>
             (let c1 = c\<lparr>probers := (probers c)(b \<mapsto> newProber\<lparr>p_added := added\<rparr>)\<rparr>
              in (c1, if added then on_backend b MarkUnhealthy w else w)))"

definition Start :: "Checker \<times> 'a world_scheme \<Rightarrow> Checker \<times> 'a world_scheme" where
  "Start cw = foldl (\<lambda>cw b. checker_add b False cw) cw (All (snd cw))"

definition Add :: "bid \<Rightarrow> Checker \<times> 'a world_scheme \<Rightarrow> Checker \<times> 'a world_scheme" where
  "Add b = checker_add b True"

definition Remove :: "bid \<Rightarrow> Checker \<times> 'a world_scheme \<Rightarrow> Checker \<times> 'a world_scheme" where
  "Remove b cw = (let (c, w) = cw in (c\<lparr>probers := (probers c)(b := None)\<rparr>, w))"

definition ProbeRoundComplete :: "Checker \<Rightarrow> bool" where
  "ProbeRoundComplete c = probeRoundComplete c"

definition probe_outcome :: "nat option \<Rightarrow> bool" where
  "probe_outcome resp = (case resp of None \<Rightarrow> False | Some status \<Rightarrow> 200 \<le> status \<and> status < 300)"

definition markProbed :: "prober \<Rightarrow> Checker \<Rightarrow> prober \<times> Checker" where
  "markProbed p c =
     (if p_counted p then (p, c)
      else let p1 = p\<lparr>p_counted := True\<rparr>; c1 = c\<lparr>probed := wrap32 (probed c + 1)\<rparr>
           in (p1, if probed c1 = backendCount c1 then c1\<lparr>probeRoundComplete := True\<rparr> else c1))"

definition probe_success :: "bid \<Rightarrow> prober \<Rightarrow> 'a world_scheme \<Rightarrow> prober \<times> 'a world_scheme" where
  "probe_success b p w =
     (let p = p\<lparr>p_failures := 0\<rparr>; p = p\<lparr>p_successes := p_successes p + 1\<rparr>;
          (threshold, rs) = (if p_added p then (probeInitialSuccessesBeforeHealthy, ReasonInitialProbe)
                             else (probeSuccessesBeforeHealthy, ReasonProbeRecovered));
          w = (if p_successes p \<ge> threshold \<and> \<not> IsHealthy (heap w b)
               then meter (SetBackendHealthy (Name (heap w b)) True)
                      (log (transition_line LevelInfo ''backend reinstated'' (Name (heap w b))
                              EventHealthReinstated rs) w)
               else w);
          w = (if p_successes p \<ge> threshold then on_backend b MarkHealthy w else w);
          p = (if p_added p then p\<lparr>p_added := False, p_successes := 0\<rparr> else p)
      in (p, w))"

definition probe_failure :: "bid \<Rightarrow> prober \<Rightarrow> 'a world_scheme \<Rightarrow> prober \<times> 'a world_scheme" where
  "probe_failure b p w =
     (let p = p\<lparr>p_successes := 0\<rparr>; p = p\<lparr>p_failures := p_failures p + 1\<rparr>;
          w = (if p_failures p = probeFailuresBeforeUnhealthy \<and> IsHealthy (heap w b)
               then meter (SetBackendHealthy (Name (heap w b)) False)
                      (log (transition_line LevelWarn ''backend ejected'' (Name (heap w b))
                              EventHealthEjected ReasonProbeFailures) w)
               else w);
          w = (if p_failures p \<ge> probeFailuresBeforeUnhealthy then on_backend b MarkUnhealthy w else w)
      in (p, w))"

text \<open>
  \<open>probeOnce\<close> of the prober of \<open>b\<close>: \<open>cancelled\<close> is \<open>ctx.Err() != nil\<close> after the
  exchange, \<open>resp\<close> what the exchange gave.
\<close>

definition probeOnce ::
  "bid \<Rightarrow> nat option \<Rightarrow> bool \<Rightarrow> Checker \<times> 'a world_scheme \<Rightarrow> Checker \<times> 'a world_scheme" where
  "probeOnce b resp cancelled cw =
     (let (c, w) = cw
      in case probers c b of
           None \<Rightarrow> (c, w)
         | Some p \<Rightarrow>
             if cancelled then (c, w)
             else (let (p1, w1) = (if probe_outcome resp then probe_success b p w
                                   else probe_failure b p w);
                       (p2, c1) = markProbed p1 c
                   in (c1\<lparr>probers := (probers c1)(b \<mapsto> p2)\<rparr>, w1)))"

text \<open>
  \<open>run\<close>, the goroutine of the prober of \<open>b\<close>: what it does over the wake-ups of its \<open>select\<close>, and
  for an added backend one probe before the first of them.
\<close>

datatype prober_wake = ProberDone | ProberTick "nat option" bool

fun prober_loop ::
  "bid \<Rightarrow> prober_wake list \<Rightarrow> Checker \<times> 'a world_scheme \<Rightarrow> Checker \<times> 'a world_scheme" where
  "prober_loop b [] cw = cw"
| "prober_loop b (ProberDone # evs) cw = cw"
| "prober_loop b (ProberTick resp cancelled # evs) cw = prober_loop b evs (probeOnce b resp cancelled cw)"

definition prober_run ::
  "bid \<Rightarrow> nat option \<times> bool \<Rightarrow> prober_wake list \<Rightarrow> Checker \<times> 'a world_scheme \<Rightarrow> Checker \<times> 'a world_scheme" where
  "prober_run b at_start evs cw =
     (let added = (case probers (fst cw) b of None \<Rightarrow> False | Some p \<Rightarrow> p_added p)
      in prober_loop b evs (if added then probeOnce b (fst at_start) (snd at_start) cw else cw))"

section \<open>Consecutive outcomes\<close>

text \<open>The length of the run of \<open>x\<close> at the end of a history.\<close>

definition streak :: "bool \<Rightarrow> bool list \<Rightarrow> int" where
  "streak x os = int (length (takeWhile (\<lambda>y. y = x) (rev os)))"

lemma streak_snoc [simp]: "streak x (os @ [y]) = (if y = x then streak x os + 1 else 0)"
  by (simp add: streak_def)

lemma streak_Nil [simp]: "streak x [] = 0"
  by (simp add: streak_def)

lemma streak_nonneg [simp]: "0 \<le> streak x os"
  by (simp add: streak_def)

text \<open>
  What a prober knows after a history of outcomes: the streak of failures, the streak of
  successes, which starts anew when an added backend is admitted by its first success.
\<close>

definition recovery_streak :: "bool \<Rightarrow> bool list \<Rightarrow> int" where
  "recovery_streak was_added os =
     (if was_added then
        (if True \<in> set os then streak True (drop (length (takeWhile Not os) + 1) os) else 0)
      else streak True os)"

definition prober_after :: "bool \<Rightarrow> bool list \<Rightarrow> prober \<Rightarrow> bool" where
  "prober_after was_added os p \<longleftrightarrow>
     p_failures p = streak False os \<and>
     p_added p = (was_added \<and> True \<notin> set os) \<and>
     p_successes p = recovery_streak was_added os"

text \<open>The success threshold in force for the next success.\<close>

definition healthy_threshold :: "bool \<Rightarrow> bool list \<Rightarrow> int" where
  "healthy_threshold was_added os =
     (if was_added \<and> True \<notin> set os then probeInitialSuccessesBeforeHealthy
      else probeSuccessesBeforeHealthy)"

lemma drop_after_first_success:
  assumes "True \<in> set os"
  shows "drop (length (takeWhile Not (os @ [x])) + 1) (os @ [x]) =
    drop (length (takeWhile Not os) + 1) os @ [x]"
proof -
  have "takeWhile Not (os @ [x]) = takeWhile Not os" using assms by (intro takeWhile_append1) auto
  moreover have "length (takeWhile Not os) < length os"
    using assms by (metis length_takeWhile_le le_neq_implies_less takeWhile_eq_all_conv takeWhile_eq_take take_all_iff order_refl)
  ultimately show ?thesis by simp
qed

lemma takeWhile_Not_none: "True \<notin> set os \<Longrightarrow> takeWhile Not os = os"
  by (induction os) auto

lemma prober_after_success:
  assumes "prober_after was_added os p"
  shows "prober_after was_added (os @ [True]) (fst (probe_success b p w))"
proof (cases "True \<in> set os")
  case True
  then show ?thesis using assms drop_after_first_success [OF True, of True]
    by (auto simp: prober_after_def recovery_streak_def probe_success_def Let_def)
next
  case False
  then show ?thesis using assms takeWhile_Not_none [OF False]
    by (auto simp: prober_after_def recovery_streak_def probe_success_def Let_def takeWhile_append)
qed

lemma prober_after_failure:
  assumes "prober_after was_added os p"
  shows "prober_after was_added (os @ [False]) (fst (probe_failure b p w))"
proof (cases "True \<in> set os")
  case True
  then show ?thesis using assms drop_after_first_success [OF True, of False]
    by (auto simp: prober_after_def recovery_streak_def probe_failure_def Let_def)
next
  case False
  then show ?thesis using assms
    by (auto simp: prober_after_def recovery_streak_def probe_failure_def Let_def)
qed

section \<open>What a probe does to health, log and gauge\<close>

definition prober_ok :: "bid \<Rightarrow> prober \<Rightarrow> 'a world_scheme \<Rightarrow> bool" where
  "prober_ok b p w \<longleftrightarrow> (probeFailuresBeforeUnhealthy \<le> p_failures p \<longrightarrow> \<not> healthy (heap w b))"

lemma probeOnce_folds:
  assumes "probers c b = Some p"
  shows "\<exists>c'. probeOnce b resp False (c, w) =
      (c', snd (if probe_outcome resp then probe_success b p w else probe_failure b p w))
    \<and> (\<exists>p'. probers c' b = Some p' \<and>
         (let q = fst (if probe_outcome resp then probe_success b p w else probe_failure b p w)
          in p_added p' = p_added q \<and> p_successes p' = p_successes q \<and> p_failures p' = p_failures q
             \<and> p_counted p'))
    \<and> (\<forall>b'. b' \<noteq> b \<longrightarrow> probers c' b' = probers c b')"
  using assms
  by (cases "if probe_outcome resp then probe_success b p w else probe_failure b p w")
     (auto simp: probeOnce_def markProbed_def Let_def split: prod.splits)

lemma probe_success_world:
  "snd (probe_success b p w) =
     (if p_successes p + 1 \<ge> (if p_added p then probeInitialSuccessesBeforeHealthy else probeSuccessesBeforeHealthy)
      then on_backend b MarkHealthy
        (if healthy (heap w b) then w
         else meter (SetBackendHealthy (Name (heap w b)) True)
                (log (transition_line LevelInfo ''backend reinstated'' (Name (heap w b))
                        EventHealthReinstated (if p_added p then ReasonInitialProbe else ReasonProbeRecovered)) w))
      else w)"
  by (auto simp: probe_success_def Let_def IsHealthy_def split: prod.splits)

lemma probe_failure_world:
  "snd (probe_failure b p w) =
     (if p_failures p + 1 \<ge> probeFailuresBeforeUnhealthy
      then on_backend b MarkUnhealthy
        (if p_failures p + 1 = probeFailuresBeforeUnhealthy \<and> healthy (heap w b)
         then meter (SetBackendHealthy (Name (heap w b)) False)
                (log (transition_line LevelWarn ''backend ejected'' (Name (heap w b))
                        EventHealthEjected ReasonProbeFailures) w)
         else w)
      else w)"
  by (auto simp: probe_failure_def Let_def IsHealthy_def)

text \<open>
  C22. Health follows consecutive outcomes: for a prober whose history is \<open>os\<close>, a probe that
  fails makes the backend unhealthy when it is the third failure in a row or more, one that
  succeeds makes it healthy when it is the second success in a row or more since the last failure
  (the very first success, for a backend a reload has added), and otherwise health stays as it
  was; and the prober's counters stand for the longer history.
\<close>

theorem probe_consecutive_outcomes:
  fixes resp w
  assumes "probers c b = Some p" and "prober_after was_added os p"
  defines "ok \<equiv> probe_outcome resp" and "cw' \<equiv> probeOnce b resp False (c, w)"
  shows "healthy (heap (snd cw') b) =
      (if ok then healthy (heap w b) \<or> recovery_streak was_added os + 1 \<ge> healthy_threshold was_added os
       else healthy (heap w b) \<and> streak False (os @ [False]) < probeFailuresBeforeUnhealthy)
    \<and> (\<exists>p'. probers (fst cw') b = Some p' \<and> prober_after was_added (os @ [ok]) p')"
proof -
  obtain c' p' where cw: "cw' = (c', snd (if ok then probe_success b p w else probe_failure b p w))"
    "probers c' b = Some p'"
    "p_added p' = p_added (fst (if ok then probe_success b p w else probe_failure b p w))"
    "p_successes p' = p_successes (fst (if ok then probe_success b p w else probe_failure b p w))"
    "p_failures p' = p_failures (fst (if ok then probe_success b p w else probe_failure b p w))"
    using probeOnce_folds [OF assms(1), of resp w] unfolding ok_def cw'_def Let_def by blast
  have "prober_after was_added (os @ [ok]) p'"
  proof (cases ok)
    case True
    then show ?thesis using prober_after_success [OF assms(2), of b w] cw
      by (simp add: prober_after_def)
  next
    case False
    then show ?thesis using prober_after_failure [OF assms(2), of b w] cw
      by (simp add: prober_after_def)
  qed
  moreover have "healthy (heap (snd cw') b) =
      (if ok then healthy (heap w b) \<or> recovery_streak was_added os + 1 \<ge> healthy_threshold was_added os
       else healthy (heap w b) \<and> streak False (os @ [False]) < probeFailuresBeforeUnhealthy)"
    using assms(2)
    by (auto simp: cw(1) probe_success_world probe_failure_world prober_after_def healthy_threshold_def
        MarkHealthy_def MarkUnhealthy_def)
  ultimately show ?thesis using cw(1,2) by auto
qed

definition sample_checker :: "Checker \<times> world" where
  "sample_checker = Start (NewChecker sample_world, sample_world)"

lemma sample_checker_eq:
  "sample_checker = (\<lparr>backendCount = 2, probed = 0, probeRoundComplete = False,
     probers = [0 \<mapsto> newProber, 1 \<mapsto> newProber]\<rparr>, sample_world)"
  by (simp add: sample_checker_def Start_def NewChecker_def All_def sample_world_def checker_add_def
      newProber_def)

theorem probe_consecutive_outcomes_witness:
  "healthy (heap (snd (probeOnce 0 (Some 503) False sample_checker)) 0)"
proof -
  have p: "probers (fst sample_checker) 0 = Some newProber" by (simp add: sample_checker_eq)
  have h: "prober_after False [] newProber"
    by (simp add: prober_after_def newProber_def recovery_streak_def)
  show ?thesis
    using probe_consecutive_outcomes [OF p h, of "Some 503" "snd sample_checker"]
    by (simp add: probe_outcome_def probe_constants sample_checker_eq)
       (simp add: sample_world_def fresh_backend_def streak_def)
qed

text \<open>
  Active probes are edge-triggered: a probe that leaves the backend's health as it was writes
  neither log nor gauge; one that flips it appends exactly one line, naming the backend and
  ejection or reinstatement, and a scrape then sees the new health. The invariant it needs (a
  backend past the failure threshold is unhealthy) is kept.
\<close>

theorem probe_edge_triggered:
  fixes resp w
  assumes "probers c b = Some p" and "prober_ok b p w" and "0 \<le> p_failures p" and "gauge_vec_doc rd"
  defines "w' \<equiv> snd (probeOnce b resp False (c, w))"
  shows "(if healthy (heap w' b) = healthy (heap w b) then logs w' = logs w \<and> prom w' = prom w
     else rd (prom w') lb_backend_healthy [Name (heap w b)] = Some (if healthy (heap w' b) then 1 else 0)
        \<and> (\<exists>l. logs w' = logs w @ [l] \<and> log_attr ''backend'' l = Some (VStr (Name (heap w b)))
             \<and> log_attr ''event'' l = Some (VStr (event_name
                 (if healthy (heap w' b) then EventHealthReinstated else EventHealthEjected)))))
    \<and> (\<exists>p'. probers (fst (probeOnce b resp False (c, w))) b = Some p' \<and> prober_ok b p' w'
         \<and> 0 \<le> p_failures p')"
proof -
  obtain c' p' where cw: "probeOnce b resp False (c, w) =
      (c', snd (if probe_outcome resp then probe_success b p w else probe_failure b p w))"
    "probers c' b = Some p'"
    "p_failures p' = p_failures (fst (if probe_outcome resp then probe_success b p w else probe_failure b p w))"
    using probeOnce_folds [OF assms(1), of resp w] unfolding Let_def by blast
  have w': "w' = snd (if probe_outcome resp then probe_success b p w else probe_failure b p w)"
    by (simp add: w'_def cw(1))
  have rd: "rd (SetBackendHealthy n v cs) lb_backend_healthy [n] = Some (if v then 1 else 0)" for n v cs
    by (simp add: SetBackendHealthy_def gauge_vec_docD [OF assms(4)])
  have f: "p_failures p' = (if probe_outcome resp then 0 else p_failures p + 1)"
    by (simp add: cw(3) probe_success_def probe_failure_def Let_def split: prod.splits)
  show ?thesis
  proof (cases "probe_outcome resp")
    case True
    then have "prober_ok b p' w'" "0 \<le> p_failures p'"
      using f by (simp_all add: prober_ok_def probe_constants)
    then show ?thesis using True cw(1,2)
      by (auto simp: w' probe_success_world MarkHealthy_def rd)
  next
    case False
    have "prober_ok b p' w'" "0 \<le> p_failures p'"
      using f False assms(3) by (auto simp: prober_ok_def w' probe_failure_world MarkUnhealthy_def)
    then show ?thesis using False cw(1,2) assms(2)
      by (auto simp: w' probe_failure_world MarkUnhealthy_def rd prober_ok_def)
  qed
qed

theorem probe_edge_triggered_witness:
  "gauge_read (prom (snd (probeOnce 0 (Some 200) False
     (fst sample_checker\<lparr>probers := [0 \<mapsto> newProber\<lparr>p_added := True\<rparr>]\<rparr>,
      on_backend 0 MarkUnhealthy sample_world)))) lb_backend_healthy [''a''] = Some 1"
proof -
  let ?c = "fst sample_checker\<lparr>probers := [0 \<mapsto> newProber\<lparr>p_added := True\<rparr>]\<rparr>"
  let ?w = "on_backend 0 MarkUnhealthy sample_world"
  let ?p = "newProber\<lparr>p_added := True\<rparr>"
  have p: "probers ?c 0 = Some ?p" by simp
  have ok: "prober_ok 0 ?p ?w" "0 \<le> p_failures ?p" by (simp_all add: prober_ok_def MarkUnhealthy_def newProber_def)
  have n: "Name (heap ?w 0) = ''a''" "\<not> healthy (heap ?w 0)"
    by (simp_all add: MarkUnhealthy_def sample_world_def fresh_backend_def)
  have h: "healthy (heap (snd (probeOnce 0 (Some 200) False (?c, ?w))) 0)"
    by (simp add: probeOnce_def probe_outcome_def markProbed_def split_beta probe_success_world
        probe_constants newProber_def MarkHealthy_def)
  show ?thesis
    using probe_edge_triggered [OF p ok gauge_vec_doc_gauge_read, of "Some 200"] n h by simp
qed

section \<open>Uninterrupted runs of equal outcomes\<close>

lemma probeOnce_failure:
  assumes "probers c b = Some p" and "\<not> probe_outcome resp"
  shows "\<exists>c' p'. probeOnce b resp False (c, w) = (c', snd (probe_failure b p w)) \<and> probers c' b = Some p' \<and>
    p_failures p' = p_failures p + 1 \<and> p_added p' = p_added p"
  using probeOnce_folds [OF assms(1), of resp w] assms(2)
  by (auto simp: probe_failure_def Let_def)

lemma failing_ticks:
  assumes "probers c b = Some p" and "\<forall>resp \<in> set rs. \<not> probe_outcome resp" and "rs \<noteq> []"
  shows "healthy (heap (snd (prober_loop b (map (\<lambda>r. ProberTick r False) rs) (c, w))) b) \<longleftrightarrow>
    healthy (heap w b) \<and> p_failures p + int (length rs) < probeFailuresBeforeUnhealthy"
  using assms
proof (induction rs arbitrary: c w p)
  case (Cons resp rs)
  obtain c1 p1 where 1: "probeOnce b resp False (c, w) = (c1, snd (probe_failure b p w))" "probers c1 b = Some p1"
    "p_failures p1 = p_failures p + 1"
    using probeOnce_failure [OF Cons.prems(1), of resp w] Cons.prems(2) by auto
  have h: "healthy (heap (snd (probe_failure b p w)) b) \<longleftrightarrow>
      healthy (heap w b) \<and> p_failures p + 1 < probeFailuresBeforeUnhealthy"
    by (simp add: probe_failure_world MarkUnhealthy_def)
  show ?case
  proof (cases "rs = []")
    case False
    then have "0 < int (length rs)" by simp
    then show ?thesis using Cons.IH [OF 1(2) _ False, of "snd (probe_failure b p w)"] Cons.prems(2) 1 h by auto
  qed (use 1 h in simp)
qed simp

lemma successful_ticks:
  assumes "\<forall>resp \<in> set rs. probe_outcome resp" and "healthy (heap w b)"
  shows "healthy (heap (snd (prober_loop b (map (\<lambda>r. ProberTick r False) rs) (c, w))) b)"
  using assms
proof (induction rs arbitrary: c w)
  case (Cons resp rs)
  obtain c1 w1 where 1: "probeOnce b resp False (c, w) = (c1, w1)" by (cases "probeOnce b resp False (c, w)")
  have "healthy (heap w1 b)"
  proof (cases "probers c b")
    case (Some p)
    then show ?thesis using probeOnce_folds [OF Some, of resp w] 1 Cons.prems
      by (auto simp: probe_success_world MarkHealthy_def)
  qed (use 1 Cons.prems in \<open>simp add: probeOnce_def\<close>)
  then show ?case using Cons 1 by simp
qed simp

section \<open>The first probe round\<close>

text \<open>The checker's life as a sequence of steps.\<close>

datatype checker_event = EvProbe bid "nat option" | EvAdd bid | EvRemove bid

fun checker_step :: "checker_event \<Rightarrow> Checker \<times> 'a world_scheme \<Rightarrow> Checker \<times> 'a world_scheme" where
  "checker_step (EvProbe b resp) cw = probeOnce b resp False cw"
| "checker_step (EvAdd b) cw = Add b cw"
| "checker_step (EvRemove b) cw = Remove b cw"

definition checker_run :: "checker_event list \<Rightarrow> Checker \<times> 'a world_scheme \<Rightarrow> Checker \<times> 'a world_scheme" where
  "checker_run es cw = fold checker_step es cw"

lemma fst_probeOnce:
  "fst (probeOnce b resp False (c, w)) =
     (case probers c b of
        None \<Rightarrow> c
      | Some p \<Rightarrow>
          (let q = fst (if probe_outcome resp then probe_success b p w else probe_failure b p w);
               (p', c') = markProbed q c
           in c'\<lparr>probers := (probers c')(b \<mapsto> p')\<rparr>))"
  by (auto simp: probeOnce_def Let_def split: option.splits prod.splits)

lemma counted_unchanged:
  "p_counted (fst (probe_success b p w)) = p_counted p"
  "p_counted (fst (probe_failure b p w)) = p_counted p"
  by (simp_all add: probe_success_def probe_failure_def Let_def split: prod.splits)

lemma latch_step:
  "probeRoundComplete (fst cw) \<Longrightarrow> probeRoundComplete (fst (checker_step e cw))"
proof (cases cw)
  case (Pair c w)
  assume "probeRoundComplete (fst cw)"
  then show ?thesis
    by (cases e)
       (auto simp: Pair fst_probeOnce Add_def checker_add_def Remove_def markProbed_def Let_def
        split: option.splits prod.splits)
qed

lemma latch_run: "probeRoundComplete (fst cw) \<Longrightarrow> probeRoundComplete (fst (checker_run es cw))"
  unfolding checker_run_def by (induction es arbitrary: cw) (simp_all add: latch_step)

text \<open>
  While probers only probe, the count is the number of backends of \<open>S\<close> (those being probed)
  that have been probed, and the latch is set when it is \<open>N\<close>, the number at construction.
\<close>

definition round_inv :: "nat \<Rightarrow> bid set \<Rightarrow> bid set \<Rightarrow> Checker \<Rightarrow> bool" where
  "round_inv N S done c \<longleftrightarrow>
     dom (probers c) = S \<and> backendCount c = int N \<and> probed c = int (card done) \<and>
     done \<subseteq> S \<and> (\<forall>b \<in> S. p_counted (the (probers c b)) = (b \<in> done)) \<and>
     probeRoundComplete c = (card done = N)"

lemma round_inv_probe:
  assumes "round_inv N S done c" and "finite S" and "card S \<le> N" and "N < 2 ^ 31"
  shows "round_inv N S (done \<union> ({b} \<inter> S)) (fst (probeOnce b resp False (c, w)))"
proof (cases "probers c b")
  case None
  then have "b \<notin> S" using assms(1) by (auto simp: round_inv_def)
  then show ?thesis using None assms(1) by (simp add: fst_probeOnce)
next
  case (Some p)
  define q where "q = fst (if probe_outcome resp then probe_success b p w else probe_failure b p w)"
  have bS: "b \<in> S" using Some assms(1) by (auto simp: round_inv_def)
  have "p_counted (the (probers c b)) = (b \<in> done)"
    using assms(1) bS unfolding round_inv_def by blast
  then have cq: "p_counted q = (b \<in> done)" by (simp add: q_def counted_unchanged Some)
  have r: "fst (probeOnce b resp False (c, w)) =
      (let (p', c') = markProbed q c in c'\<lparr>probers := (probers c')(b \<mapsto> p')\<rparr>)"
    using Some by (simp add: fst_probeOnce q_def [symmetric] Let_def)
  show ?thesis
  proof (cases "b \<in> done")
    case True
    then have "done \<union> ({b} \<inter> S) = done" by auto
    then show ?thesis using True assms(1) bS cq Some
      unfolding r by (auto simp: markProbed_def round_inv_def Let_def)
  next
    case False
    have sub0: "done \<subseteq> S" using assms(1) by (simp add: round_inv_def)
    then have fin: "finite done" using assms(2) finite_subset by blast
    have card: "card (insert b done) = card done + 1" using False fin by simp
    have sub: "insert b done \<subseteq> S" using sub0 bS by auto
    have le: "card (insert b done) \<le> N"
      using card_mono [OF assms(2) sub] assms(3) by linarith
    then have w: "wrap32 (probed c + 1) = int (card (insert b done))"
      using assms(1,4) card by (subst wrap32_id) (auto simp: in_int32_def round_inv_def)
    have "card done \<noteq> N" using le card by linarith
    then have nc: "\<not> probeRoundComplete c" using assms(1) by (simp add: round_inv_def)
    have u: "done \<union> ({b} \<inter> S) = insert b done" using bS by auto
    show ?thesis
      unfolding u r using assms(1) bS cq False Some sub nc w
      by (auto simp: markProbed_def round_inv_def Let_def insert_absorb)
  qed
qed

lemma Start_probers:
  assumes "distinct bs"
  shows "foldl (\<lambda>cw b. checker_add b False cw) (c\<lparr>probers := m\<rparr>, w) bs =
    (c\<lparr>probers := (\<lambda>b. if b \<in> set bs \<and> m b = None then Some newProber else m b)\<rparr>, w)"
  using assms
proof (induction bs arbitrary: m)
  case (Cons b bs)
  have np: "newProber\<lparr>p_added := False\<rparr> = newProber" by (simp add: newProber_def)
  show ?case
  proof (cases "m b")
    case None
    have "foldl (\<lambda>cw b. checker_add b False cw) (c\<lparr>probers := m\<rparr>, w) (b # bs) =
        foldl (\<lambda>cw b. checker_add b False cw) (c\<lparr>probers := m(b \<mapsto> newProber)\<rparr>, w) bs"
      using None by (simp add: checker_add_def np Let_def)
    also have "\<dots> = (c\<lparr>probers := (\<lambda>x. if x \<in> set bs \<and> (m(b \<mapsto> newProber)) x = None then Some newProber
        else (m(b \<mapsto> newProber)) x)\<rparr>, w)" using Cons by simp
    also have "(\<lambda>x. if x \<in> set bs \<and> (m(b \<mapsto> newProber)) x = None then Some newProber
        else (m(b \<mapsto> newProber)) x) =
        (\<lambda>x. if x \<in> set (b # bs) \<and> m x = None then Some newProber else m x)"
      using None by (auto simp: fun_eq_iff)
    finally show ?thesis .
  next
    case (Some p)
    have "foldl (\<lambda>cw b. checker_add b False cw) (c\<lparr>probers := m\<rparr>, w) (b # bs) =
        foldl (\<lambda>cw b. checker_add b False cw) (c\<lparr>probers := m\<rparr>, w) bs"
      using Some by (simp add: checker_add_def)
    also have "\<dots> = (c\<lparr>probers := (\<lambda>x. if x \<in> set bs \<and> m x = None then Some newProber else m x)\<rparr>, w)"
      using Cons by simp
    also have "(\<lambda>x. if x \<in> set bs \<and> m x = None then Some newProber else m x) =
        (\<lambda>x. if x \<in> set (b # bs) \<and> m x = None then Some newProber else m x)"
      using Some by (auto simp: fun_eq_iff)
    finally show ?thesis .
  qed
qed simp

lemma Start_eq:
  assumes "distinct (All w)"
  shows "Start (NewChecker w, w) =
    (NewChecker w\<lparr>probers := (\<lambda>b. if b \<in> set (All w) then Some newProber else None)\<rparr>, w)"
  using Start_probers [OF assms, where c = "NewChecker w" and m = Map.empty and w = w]
  by (simp add: Start_def NewChecker_def)

lemma round_inv_start:
  assumes "distinct (All w)" and "All w \<noteq> []"
  shows "round_inv (length (All w)) (set (All w)) {} (fst (Start (NewChecker w, w)))"
  unfolding Start_eq [OF assms(1)] fst_conv using assms(2) distinct_card [OF assms(1)]
  by (auto simp: round_inv_def NewChecker_def newProber_def split: if_splits)

lemma probes_run:
  assumes "finite S" and "card S \<le> N" and "N < 2 ^ 31" and "round_inv N S done (fst cw)"
  shows "round_inv N S (done \<union> (fst ` set ps \<inter> S)) (fst (checker_run (map (\<lambda>(b, r). EvProbe b r) ps) cw))"
  using assms(4)
proof (induction ps arbitrary: "done" cw)
  case (Cons x ps)
  obtain b r where x: "x = (b, r)" by (cases x)
  obtain c w where cw: "cw = (c, w)" by (cases cw)
  have "round_inv N S (done \<union> ({b} \<inter> S)) (fst (probeOnce b r False cw))"
    using round_inv_probe [OF _ assms(1-3)] Cons.prems by (simp add: cw)
  from Cons.IH [OF this] show ?case
    by (simp add: checker_run_def x Int_insert_left Un_assoc split: if_splits)
qed (simp add: checker_run_def)

text \<open>
  Without reloads the first-round latch means what it says: after the checker has started over
  the registry's backends, and whatever probes have finished since, in any order and with any
  outcome, \<open>ProbeRoundComplete\<close> holds exactly when every backend has been probed at least once.
\<close>

theorem first_round_without_reload:
  assumes "distinct (All w)" and "All w \<noteq> []" and "length (All w) < 2 ^ 31"
  shows "ProbeRoundComplete (fst (checker_run (map (\<lambda>(b, r). EvProbe b r) ps) (Start (NewChecker w, w))))
    \<longleftrightarrow> set (All w) \<subseteq> fst ` set ps"
proof -
  have n: "card (set (All w)) = length (All w)" by (rule distinct_card [OF assms(1)])
  have "round_inv (length (All w)) (set (All w)) (fst ` set ps \<inter> set (All w))
      (fst (checker_run (map (\<lambda>(b, r). EvProbe b r) ps) (Start (NewChecker w, w))))"
    using probes_run [OF _ _ assms(3) round_inv_start [OF assms(1,2)], of ps] n by simp
  moreover have "card (fst ` set ps \<inter> set (All w)) = length (All w) \<longleftrightarrow> set (All w) \<subseteq> fst ` set ps"
    using card_subset_eq [of "set (All w)" "fst ` set ps \<inter> set (All w)"] n by (auto simp: Int_absorb1)
  ultimately show ?thesis by (simp add: round_inv_def ProbeRoundComplete_def)
qed

theorem first_round_without_reload_witness:
  "\<not> ProbeRoundComplete (fst (checker_run (map (\<lambda>(b, r). EvProbe b r) [(0, Some 200), (0, None)])
      (Start (NewChecker sample_world, sample_world))))"
  using first_round_without_reload [of sample_world "[(0, Some 200), (0, None)]"]
  by (simp add: All_def sample_world_def)

section \<open>The first probe round across a reload\<close>

text \<open>
  The count is compared with the number of backends at construction, but it counts probers. A
  reload before the first round is over makes the two disagree: an added backend's first probe
  stands in for one that has not been probed, and a removed one is missing for good.
\<close>

text \<open>
  After a reload that adds a backend, \<open>ProbeRoundComplete\<close> can hold although a backend of
  the start-up file has never been probed.
\<close>

theorem latch_counts_added_backend:
  "let cw = checker_run [EvAdd 2, EvProbe 2 (Some 200), EvProbe 0 (Some 200)]
              (Start (NewChecker sample_world, sample_world))
   in ProbeRoundComplete (fst cw) \<and> 1 \<in> set (All (snd cw)) \<and> probers (fst cw) 1 = Some newProber"
proof -
  have s: "Start (NewChecker sample_world, sample_world) = sample_checker"
    by (simp add: sample_checker_def)
  show ?thesis
    unfolding s sample_checker_eq
    by (simp add: checker_run_def Add_def checker_add_def probeOnce_def probe_outcome_def
        markProbed_def split_beta probe_success_world ProbeRoundComplete_def probe_constants
        newProber_def wrap32_id in_int32_def Let_def)
       (simp add: probe_success_def newProber_def All_def MarkHealthy_def MarkUnhealthy_def
        probe_constants wrap32_id in_int32_def sample_world_def Let_def)
qed



end
