(* ===== verification/Endpoint.thy ===== *)
theory Endpoint
  imports Checker Circuit_Breaker
begin

text \<open>
  The orchestrator probe endpoints, \<open>internal/health/endpoint.go\<close>: \<open>/livez\<close>,
  \<open>/readyz\<close> and \<open>/startupz\<close> as functions from the checker, the registry and the collector
  to a response. A body is the text \<open>encoding/json\<close> writes for the three body structs: the
  fields in declaration order under their tags, a nil \<open>omitempty\<close> pointer left out, a final
  newline. The strings the program puts there are fixed words, so no escaping is modelled.
\<close>

section \<open>Bodies\<close>

definition pathLivez :: string where "pathLivez = ''/livez''"
definition pathReadyz :: string where "pathReadyz = ''/readyz''"
definition pathStartupz :: string where "pathStartupz = ''/startupz''"

lemmas probe_paths = pathLivez_def pathReadyz_def pathStartupz_def

record checksBody =
  ConfigLoaded :: bool
  InitialProbeComplete :: bool
  SelectableBackends :: "nat option"

datatype body = liveBody string | statusBody string checksBody

definition json_bool :: "bool \<Rightarrow> string" where
  "json_bool b = (if b then ''true'' else ''false'')"

definition json_word :: "string \<Rightarrow> string" where
  "json_word s = CHR 0x22 # s @ [CHR 0x22]"

fun json_fields :: "(string \<times> string) list \<Rightarrow> string" where
  "json_fields [] = ''''"
| "json_fields [(k, v)] = json_word k @ '':'' @ v"
| "json_fields ((k, v) # f # fs) = json_word k @ '':'' @ v @ '','' @ json_fields (f # fs)"

definition json_object :: "(string \<times> string) list \<Rightarrow> string" where
  "json_object fs = ''{'' @ json_fields fs @ ''}''"

definition checks_fields :: "checksBody \<Rightarrow> (string \<times> string) list" where
  "checks_fields c =
     [(''config_loaded'', json_bool (ConfigLoaded c)),
      (''initial_probe_complete'', json_bool (InitialProbeComplete c))] @
     (case SelectableBackends c of None \<Rightarrow> [] | Some n \<Rightarrow> [(''selectable_backends'', itoa n)])"

fun json_encode :: "body \<Rightarrow> string" where
  "json_encode (liveBody s) = json_object [(''status'', json_word s)] @ [CHR 0x0A]"
| "json_encode (statusBody s c) =
     json_object [(''status'', json_word s), (''checks'', json_object (checks_fields c))] @ [CHR 0x0A]"

section \<open>Handlers\<close>

record http_response =
  resp_code :: nat
  resp_type :: string
  resp_body :: string

definition writeJSON ::
  "string \<Rightarrow> nat \<Rightarrow> body \<Rightarrow> 'a world_scheme \<Rightarrow> 'a world_scheme \<times> http_response" where
  "writeJSON endpoint code b w =
     (let r = \<lparr>resp_code = code, resp_type = ''application/json'', resp_body = json_encode b\<rparr>
      in (meter (RecordProbe endpoint code) w, r))"

definition writeStatus ::
  "string \<Rightarrow> bool \<Rightarrow> checksBody \<Rightarrow> 'a world_scheme \<Rightarrow> 'a world_scheme \<times> http_response" where
  "writeStatus endpoint ready checks w =
     (let (code, status) = (if ready then (200, ''ready'') else (503, ''not_ready''))
      in writeJSON endpoint code (statusBody status checks) w)"

definition livez :: "'a world_scheme \<Rightarrow> 'a world_scheme \<times> http_response" where
  "livez w = writeJSON pathLivez 200 (liveBody ''alive'') w"

definition startupz :: "bool \<Rightarrow> Checker \<Rightarrow> 'a world_scheme \<Rightarrow> 'a world_scheme \<times> http_response" where
  "startupz configLoaded c w =
     (let initialProbeComplete = ProbeRoundComplete c
      in writeStatus pathStartupz (configLoaded \<and> initialProbeComplete)
           \<lparr>ConfigLoaded = configLoaded, InitialProbeComplete = initialProbeComplete,
            SelectableBackends = None\<rparr> w)"

definition readyz ::
  "'a world_scheme CircuitGate option \<Rightarrow> bool \<Rightarrow> Checker \<Rightarrow> 'a world_scheme
     \<Rightarrow> 'a world_scheme \<times> http_response" where
  "readyz g configLoaded c w =
     (let initialProbeComplete = ProbeRoundComplete c;
          (w, pool) = Selectable g w;
          count = length pool
      in writeStatus pathReadyz (configLoaded \<and> initialProbeComplete \<and> count \<ge> 1)
           \<lparr>ConfigLoaded = configLoaded, InitialProbeComplete = initialProbeComplete,
            SelectableBackends = Some count\<rparr> w)"

text \<open>The routes \<open>NewHandler\<close> registers; the mux answers any other path itself.\<close>

definition NewHandler ::
  "'a world_scheme CircuitGate option \<Rightarrow> bool \<Rightarrow> Checker
     \<Rightarrow> string \<rightharpoonup> ('a world_scheme \<Rightarrow> 'a world_scheme \<times> http_response)" where
  "NewHandler g configLoaded c =
     [pathLivez \<mapsto> livez, pathReadyz \<mapsto> readyz g configLoaded c, pathStartupz \<mapsto> startupz configLoaded c]"

lemma paths_distinct [simp]:
  "pathLivez \<noteq> pathReadyz" "pathLivez \<noteq> pathStartupz" "pathReadyz \<noteq> pathStartupz"
  "pathReadyz \<noteq> pathLivez" "pathStartupz \<noteq> pathLivez" "pathStartupz \<noteq> pathReadyz"
  by (simp_all add: probe_paths)

lemma writeStatus_eq:
  "writeStatus p ok cs w =
     (meter (RecordProbe p (if ok then 200 else 503)) w,
      \<lparr>resp_code = (if ok then 200 else 503), resp_type = ''application/json'',
       resp_body = json_encode (statusBody (if ok then ''ready'' else ''not_ready'') cs)\<rparr>)"
  by (simp add: writeStatus_def writeJSON_def)

lemma startupz_response:
  "snd (startupz ok c w) =
     (let t = ok \<and> probeRoundComplete c
      in \<lparr>resp_code = (if t then 200 else 503), resp_type = ''application/json'',
          resp_body = json_encode (statusBody (if t then ''ready'' else ''not_ready'')
            \<lparr>ConfigLoaded = ok, InitialProbeComplete = probeRoundComplete c, SelectableBackends = None\<rparr>)\<rparr>)"
  by (simp add: startupz_def writeStatus_eq ProbeRoundComplete_def Let_def)

section \<open>What an orchestrator learns\<close>

text \<open>
  \<open>/readyz\<close> answers 200 exactly when the configuration is loaded, the first probe round is
  complete and at least one backend of the published snapshot is healthy with its circuit not
  open at this instant; otherwise 503. The body carries the number of such backends, zero
  included. The hit is counted once, and nothing but circuits and that counter changes.
\<close>

theorem readyz_spec:
  fixes cd now ok c w
  defines "wr \<equiv> readyz (Some (breaker_gate cd now)) ok c w"
    and "pool \<equiv> filter (routable cd now w) (backends (snap w))"
  shows "resp_code (snd wr) = (if ok \<and> ProbeRoundComplete c \<and> pool \<noteq> [] then 200 else 503)
    \<and> resp_body (snd wr) = json_encode (statusBody
         (if ok \<and> ProbeRoundComplete c \<and> pool \<noteq> [] then ''ready'' else ''not_ready'')
         \<lparr>ConfigLoaded = ok, InitialProbeComplete = ProbeRoundComplete c,
          SelectableBackends = Some (length pool)\<rparr>)
    \<and> (\<exists>w1. same_but_circuits w w1 \<and>
         fst wr = meter (RecordProbe ''/readyz'' (resp_code (snd wr))) w1)"
proof -
  have p: "snd (Selectable (Some (breaker_gate cd now)) w) = pool"
    "same_but_circuits w (fst (Selectable (Some (breaker_gate cd now)) w))"
    by (simp_all add: pool_def breaker.Selectable_pool breaker_eligible)
  have n: "Suc 0 \<le> length pool \<longleftrightarrow> pool \<noteq> []" by (cases pool) simp_all
  have r: "fst wr = meter (RecordProbe ''/readyz'' (if ok \<and> ProbeRoundComplete c \<and> pool \<noteq> [] then 200 else 503))
        (fst (Selectable (Some (breaker_gate cd now)) w))"
    "resp_code (snd wr) = (if ok \<and> ProbeRoundComplete c \<and> pool \<noteq> [] then 200 else 503)"
    "resp_body (snd wr) = json_encode (statusBody
         (if ok \<and> ProbeRoundComplete c \<and> pool \<noteq> [] then ''ready'' else ''not_ready'')
         \<lparr>ConfigLoaded = ok, InitialProbeComplete = ProbeRoundComplete c,
          SelectableBackends = Some (length pool)\<rparr>)"
    by (simp_all only: wr_def readyz_def Let_def split_beta writeStatus_eq p(1) n fst_conv snd_conv
        http_response.simps pathReadyz_def One_nat_def)
  show ?thesis unfolding r using p(2) by blast
qed

text \<open>
  \<open>/startupz\<close> is one-way: once it has answered 200 it answers 200 after every further
  sequence of probes and reloads, with the same body.
\<close>

theorem startupz_permanent:
  assumes "resp_code (snd (startupz ok c w)) = 200"
  shows "snd (startupz ok (fst (checker_run es (c, w'))) w'') = snd (startupz ok c w)"
proof -
  have *: "ok" "probeRoundComplete c"
    using assms by (auto simp: startupz_response Let_def split: if_splits)
  then have "probeRoundComplete (fst (checker_run es (c, w')))" using latch_run [of "(c, w')" es] by simp
  with * show ?thesis by (simp only: startupz_response)
qed

theorem startupz_permanent_witness:
  "let c = fst sample_checker\<lparr>probeRoundComplete := True\<rparr>
   in resp_code (snd (startupz True (fst (checker_run [EvRemove 0, EvProbe 1 None] (c, sample_world))) sample_world)) = 200"
proof -
  have *: "resp_code (snd (startupz True (fst sample_checker\<lparr>probeRoundComplete := True\<rparr>) sample_world)) = 200"
    by (simp add: startupz_def writeStatus_eq ProbeRoundComplete_def)
  show ?thesis
    unfolding Let_def using * by (simp only: startupz_permanent [OF *])
qed

text \<open>The bodies, evaluated.\<close>

lemma livez_body:
  "resp_body (snd (livez w)) = json_object [(''status'', json_word ''alive'')] @ [CHR 0x0A]"
  by (simp add: livez_def writeJSON_def)

lemma startupz_omits_pool:
  "checks_fields \<lparr>ConfigLoaded = a, InitialProbeComplete = b, SelectableBackends = None\<rparr> =
     [(''config_loaded'', json_bool a), (''initial_probe_complete'', json_bool b)]"
  by (simp add: checks_fields_def)

end
