(* ===== verification/Proxy.thy ===== *)
theory Proxy
  imports Consistent_Hash Outlier
begin

text \<open>
  The request path, \<open>internal/proxy/proxy.go\<close>. The proxy's hooks are functions on the
  world and on one request's \<open>reqState\<close>; \<open>ServeHTTP\<close> composes them the way
  \<open>net/http/httputil.ReverseProxy\<close> calls them: the director, then either the error handler
  or \<open>ModifyResponse\<close> followed by reads and one \<open>Close\<close> of the wrapped body (a 101 answer,
  whose wrapped body cannot be switched, goes to the error handler after \<open>ModifyResponse\<close>).
  What the backend and the client do is the argument \<open>round_trip\<close>. Message texts of errors
  and latencies in log lines are not modelled.
\<close>

section \<open>Observers and wiring\<close>

definition p2cFailurePenalty :: duration where "p2cFailurePenalty = 2 * second"
definition statusClientClosedRequest :: nat where "statusClientClosedRequest = 499"

definition latencyObserver :: "bid \<Rightarrow> duration \<Rightarrow> bool \<Rightarrow> 'a world_scheme \<Rightarrow> 'a world_scheme" where
  "latencyObserver b d ok w = on_backend b (RecordLatency d) w"

text \<open>What a call reads from outside: the wall clock, the clock per backend, random draws.\<close>

record env =
  wall :: instant
  clock :: "bid \<Rightarrow> instant"
  draws :: "nat \<Rightarrow> nat"

record ('s, 'w) Proxy =
  px_reg :: "env \<Rightarrow> 'w CircuitGate option"
  px_select :: "env \<Rightarrow> ('s, 'w) select_fun"
  px_sel :: 's
  observers :: "(env \<Rightarrow> 'w RoundTripObserver) list"
  px_metrics :: bool

definition NewProxy ::
  "(env \<Rightarrow> 'w CircuitGate option) \<Rightarrow> (env \<Rightarrow> ('s, 'w) select_fun) \<Rightarrow> 's \<Rightarrow> ('s, 'w) Proxy" where
  "NewProxy g f s =
     \<lparr>px_reg = g, px_select = f, px_sel = s, observers = [], px_metrics = False\<rparr>"

definition SetSelector :: "'s \<Rightarrow> ('s, 'w) Proxy \<Rightarrow> ('s, 'w) Proxy" where
  "SetSelector s p = p\<lparr>px_sel := s\<rparr>"

definition RegisterObserver :: "(env \<Rightarrow> 'w RoundTripObserver) \<Rightarrow> ('s, 'w) Proxy \<Rightarrow> ('s, 'w) Proxy" where
  "RegisterObserver obs p = p\<lparr>observers := observers p @ [obs]\<rparr>"

definition SetMetrics :: "('s, 'w) Proxy \<Rightarrow> ('s, 'w) Proxy" where
  "SetMetrics p = p\<lparr>px_metrics := True\<rparr>"

section \<open>Per-request state\<close>

record http_request =
  Method :: string
  Path :: string
  RemoteAddr :: string
  ProtoMajor :: nat
  TLS_conn :: bool

record reqState =
  rs_backend :: "bid option"
  rs_metrics :: bool
  rs_status :: nat
  rs_proto :: string
  released :: bool
  dispatchStart :: instant

text \<open>
  The two contexts a hook consults: whether the client's own is done, and why the outbound one
  was cancelled (the first cause sticks).
\<close>

datatype stop_cause = ContextCanceled | Retired cancel_cause

record req_ctx =
  client_done :: bool
  ctx_cause :: "stop_cause option"

definition live_ctx :: req_ctx where
  "live_ctx = \<lparr>client_done = False, ctx_cause = None\<rparr>"

definition client_leaves :: "req_ctx \<Rightarrow> req_ctx" where
  "client_leaves c = c\<lparr>client_done := True,
     ctx_cause := (case ctx_cause c of None \<Rightarrow> Some ContextCanceled | Some x \<Rightarrow> Some x)\<rparr>"

definition join_fires :: "cancel_cause \<Rightarrow> req_ctx \<Rightarrow> req_ctx" where
  "join_fires x c = c\<lparr>ctx_cause := (case ctx_cause c of None \<Rightarrow> Some (Retired x) | Some y \<Rightarrow> Some y)\<rparr>"

definition drained :: "req_ctx \<Rightarrow> bool" where
  "drained c \<longleftrightarrow> ctx_cause c = Some (Retired ErrDrainWindowExpired)"

definition newReqState :: "bool \<Rightarrow> reqState" where
  "newReqState m = \<lparr>rs_backend = None, rs_metrics = m, rs_status = 0, rs_proto = '''',
     released = False, dispatchStart = 0\<rparr>"

text \<open>A slot operation on the state's backend and, with a collector installed, its gauge.\<close>

definition activate :: "reqState \<Rightarrow> 'a world_scheme \<Rightarrow> 'a world_scheme" where
  "activate s w =
     (case rs_backend s of
        None \<Rightarrow> w
      | Some b \<Rightarrow>
          (let w1 = on_backend b IncActive w
           in if rs_metrics s then meter (IncActiveRequests (Name (heap w1 b))) w1 else w1))"

definition release :: "reqState \<Rightarrow> 'a world_scheme \<Rightarrow> reqState \<times> 'a world_scheme" where
  "release s w =
     (if released s then (s, w)
      else (s\<lparr>released := True\<rparr>,
        (case rs_backend s of
           None \<Rightarrow> w
         | Some b \<Rightarrow>
             (let w1 = on_backend b DecActive w
              in if rs_metrics s then meter (DecActiveRequests (Name (heap w1 b))) w1 else w1))))"

definition observe ::
  "('s, 'a world_scheme) Proxy \<Rightarrow> env \<Rightarrow> reqState \<Rightarrow> duration \<Rightarrow> bool
     \<Rightarrow> 'a world_scheme \<Rightarrow> 'a world_scheme" where
  "observe p e s d success w =
     (case rs_backend s of
        None \<Rightarrow> w
      | Some b \<Rightarrow> fan_out (map (\<lambda>obs. obs e) (observers p)) b d success w)"

section \<open>The hooks\<close>

text \<open>Selection and the circuit gate, up to the point where a denied request is answered.\<close>

definition serve_select ::
  "('s, 'a world_scheme) Proxy \<Rightarrow> env \<Rightarrow> http_request \<Rightarrow> reqState \<Rightarrow> 'a world_scheme
     \<Rightarrow> ('s, 'a world_scheme) Proxy \<times> reqState \<times> 'a world_scheme \<times> bool" where
  "serve_select p e r s w =
     (let (sel1, w1, res) = px_select p e (px_sel p) (RemoteAddr r) w; p1 = p\<lparr>px_sel := sel1\<rparr>
      in case res of
           Inl ErrNoHealthyBackends \<Rightarrow> (p1, s\<lparr>rs_status := 503\<rparr>, w1, False)
         | Inr b \<Rightarrow> (p1, s\<lparr>rs_backend := Some b\<rparr>, w1, True))"

definition serve_allow ::
  "('s, 'a world_scheme) Proxy \<Rightarrow> env \<Rightarrow> http_request \<Rightarrow> reqState \<Rightarrow> 'a world_scheme
     \<Rightarrow> reqState \<times> 'a world_scheme \<times> bool" where
  "serve_allow p e r s w =
     (case rs_backend s of
        None \<Rightarrow> (s, w, False)
      | Some b \<Rightarrow>
          (let (w1, allowed) = Allow (px_reg p e) b w
           in if \<not> allowed
              then (s\<lparr>rs_status := 503\<rparr>,
                    log \<lparr>log_level = LevelWarn, log_msg = ''request denied by circuit breaker'',
                         log_attrs = [(''backend'', VStr (Name (heap w1 b))), (''path'', VStr (Path r))]\<rparr> w1,
                    False)
              else (s, w1, True)))"

text \<open>\<open>stateFrom\<close> found no state in the first clause of each.\<close>

fun director ::
  "env \<Rightarrow> reqState option \<Rightarrow> 'a world_scheme \<Rightarrow> reqState option \<times> (string \<times> string) option" where
  "director e None w = (None, None)"
| "director e (Some s) w =
     (Some (s\<lparr>dispatchStart := wall e\<rparr>),
      map_option (\<lambda>b. (Scheme (URL (heap w b)), Host (URL (heap w b)))) (rs_backend s))"

fun modifyResponse ::
  "('s, 'a world_scheme) Proxy \<Rightarrow> env \<Rightarrow> nat \<Rightarrow> string \<Rightarrow> reqState option \<Rightarrow> 'a world_scheme
     \<Rightarrow> reqState option \<times> 'a world_scheme" where
  "modifyResponse p e code proto None w = (None, w)"
| "modifyResponse p e code proto (Some s) w =
     (let s1 = s\<lparr>rs_status := code, rs_proto := proto\<rparr>
      in (Some s1, observe p e s1 (time_since (wall e) (dispatchStart s1)) (code < 500) w))"

text \<open>The answer's code is the last component.\<close>

fun errorHandler ::
  "('s, 'a world_scheme) Proxy \<Rightarrow> env \<Rightarrow> req_ctx \<Rightarrow> http_request \<Rightarrow> reqState option
     \<Rightarrow> 'a world_scheme \<Rightarrow> reqState option \<times> 'a world_scheme \<times> nat" where
  "errorHandler p e ctx r None w =
     (None, log \<lparr>log_level = LevelWarn, log_msg = ''backend round-trip failed'',
                 log_attrs = [(''err'', VErr), (''path'', VStr (Path r))]\<rparr> w, 502)"
| "errorHandler p e ctx r (Some s) w =
     (let attrs = [(''err'', VErr), (''path'', VStr (Path r))] @
            (case rs_backend s of None \<Rightarrow> [] | Some b \<Rightarrow> [(''backend'', VStr (Name (heap w b)))]);
          (s1, w1, attrs, level) =
            (if drained ctx then
               (let s1 = s\<lparr>rs_status := 502\<rparr>
                in (s1, observe p e s1 p2cFailurePenalty False w,
                    attrs @ [(''reason'', VStr (reason_name ReasonWindowExpired))], LevelWarn))
             else if client_done ctx then
               (s\<lparr>rs_status := statusClientClosedRequest\<rparr>,
                (case rs_backend s of None \<Rightarrow> w | Some b \<Rightarrow> on_backend b RearmTrial w),
                attrs @ [(''reason'', VStr (reason_name ReasonClientCanceled))], LevelInfo)
             else
               (let s1 = s\<lparr>rs_status := 502\<rparr>
                in (s1, observe p e s1 p2cFailurePenalty False w, attrs, LevelWarn)));
          (s2, w2) = release s1 w1
      in (Some s2, log \<lparr>log_level = level, log_msg = ''backend round-trip failed'', log_attrs = attrs\<rparr> w2,
          rs_status s2))"

section \<open>The response body\<close>

datatype read_error = EOF | ReadFailed

text \<open>The wrapper's fields captured by \<open>ModifyResponse\<close>, and its byte count.\<close>

record releaseBody =
  rb_backend :: string
  rb_path :: string
  bytesCopied :: int

definition newReleaseBody :: "reqState \<Rightarrow> http_request \<Rightarrow> 'a world_scheme \<Rightarrow> releaseBody" where
  "newReleaseBody s r w =
     \<lparr>rb_backend = (case rs_backend s of None \<Rightarrow> '''' | Some b \<Rightarrow> Name (heap w b)),
      rb_path = Path r, bytesCopied = 0\<rparr>"

definition canceled :: "req_ctx \<Rightarrow> bool" where
  "canceled ctx = (if drained ctx then True else client_done ctx)"

definition releaseBody_Read ::
  "req_ctx \<Rightarrow> int \<Rightarrow> read_error option \<Rightarrow> releaseBody \<Rightarrow> 'a world_scheme
     \<Rightarrow> releaseBody \<times> 'a world_scheme" where
  "releaseBody_Read ctx n err rb w =
     (let rb1 = rb\<lparr>bytesCopied := wrap64 (bytesCopied rb + n)\<rparr>
      in (rb1,
          if err \<noteq> None \<and> err \<noteq> Some EOF \<and> \<not> canceled ctx
          then log \<lparr>log_level = LevelWarn, log_msg = ''backend died mid-response'',
                    log_attrs = [(''backend'', VStr (rb_backend rb1)), (''path'', VStr (rb_path rb1)),
                      (''bytes_copied'', VInt (bytesCopied rb1)),
                      (''reason'', VStr (reason_name ReasonBackendDiedMidResponse))]\<rparr> w
          else w))"

definition releaseBody_Close :: "reqState \<Rightarrow> 'a world_scheme \<Rightarrow> reqState \<times> 'a world_scheme" where
  "releaseBody_Close s w = release s w"

section \<open>Completion\<close>

definition backendName :: "reqState \<Rightarrow> 'a world_scheme \<Rightarrow> string" where
  "backendName s w = (case rs_backend s of None \<Rightarrow> '''' | Some b \<Rightarrow> Name (heap w b))"

definition protocolLabel :: "http_request \<Rightarrow> ClientProtocol" where
  "protocolLabel r =
     (if ProtoMajor r \<ge> 2 then (if TLS_conn r then ClientProtocolH2 else ClientProtocolH2C)
      else ClientProtocolHTTP11)"

definition observeRequest ::
  "('s, 'a world_scheme) Proxy \<Rightarrow> env \<Rightarrow> instant \<Rightarrow> http_request \<Rightarrow> reqState \<Rightarrow> 'a world_scheme
     \<Rightarrow> 'a world_scheme" where
  "observeRequest p e start r s w =
     (if \<not> px_metrics p then w
      else meter (ObserveRequest (backendName s w) (Method r) (statusClass (rs_status s))
             (protocolLabel r) (time_since (wall e) start)) w)"

definition request_line :: "http_request \<Rightarrow> string \<Rightarrow> reqState \<Rightarrow> log_line" where
  "request_line r name s =
     \<lparr>log_level = (if rs_status s \<ge> 500 then LevelWarn else LevelInfo),
      log_msg = ''request complete'',
      log_attrs = [(''backend'', VStr name), (''method'', VStr (Method r)),
        (''status'', VInt (int (rs_status s))), (''latency_ms'', VDuration),
        (''remote_addr'', VStr (RemoteAddr r)), (''path'', VStr (Path r))] @
        (if rs_proto s \<noteq> '''' then [(''backend_proto'', VStr (rs_proto s))] else [])\<rparr>"

definition logRequest :: "http_request \<Rightarrow> reqState \<Rightarrow> 'a world_scheme \<Rightarrow> 'a world_scheme" where
  "logRequest r s w = log (request_line r (backendName s w) s) w"

definition completeRequest ::
  "('s, 'a world_scheme) Proxy \<Rightarrow> env \<Rightarrow> instant \<Rightarrow> http_request \<Rightarrow> reqState \<Rightarrow> 'a world_scheme
     \<Rightarrow> 'a world_scheme" where
  "completeRequest p e start r s w = logRequest r s (observeRequest p e start r s w)"

section \<open>One request from arrival to completion\<close>

datatype round_trip =
    Failed req_ctx
  | Answered nat string "(int \<times> read_error option \<times> req_ctx) list"
  | Switching string req_ctx

fun read_all ::
  "(int \<times> read_error option \<times> req_ctx) list \<Rightarrow> releaseBody \<Rightarrow> 'a world_scheme
     \<Rightarrow> releaseBody \<times> 'a world_scheme" where
  "read_all [] rb w = (rb, w)"
| "read_all ((n, err, ctx) # reads) rb w =
     (let (rb1, w1) = releaseBody_Read ctx n err rb w in read_all reads rb1 w1)"

text \<open>\<open>p.rp.ServeHTTP\<close> after the director; the last component is the code the client is sent.\<close>

definition reverse_proxy ::
  "('s, 'a world_scheme) Proxy \<Rightarrow> env \<Rightarrow> http_request \<Rightarrow> round_trip \<Rightarrow> reqState option
     \<Rightarrow> 'a world_scheme \<Rightarrow> reqState option \<times> 'a world_scheme \<times> nat" where
  "reverse_proxy p e r rt st w =
     (case rt of
        Failed ctx \<Rightarrow> errorHandler p e ctx r st w
      | Switching proto ctx \<Rightarrow>
          (let (st1, w1) = modifyResponse p e 101 proto st w in errorHandler p e ctx r st1 w1)
      | Answered code proto reads \<Rightarrow>
          (let (st1, w1) = modifyResponse p e code proto st w
           in case st1 of
                None \<Rightarrow> (None, w1, code)
              | Some s1 \<Rightarrow>
                  (let (rb, w2) = read_all reads (newReleaseBody s1 r w1) w1;
                       (s2, w3) = releaseBody_Close s1 w2
                   in (Some s2, w3, code))))"

text \<open>
  \<open>e0\<close> is what selection, the gate and the director read, \<open>e1\<close> what the hooks read when
  the round trip has ended, \<open>e2\<close> what the deferred completion reads.
\<close>

definition ServeHTTP ::
  "env \<Rightarrow> env \<Rightarrow> env \<Rightarrow> http_request \<Rightarrow> round_trip \<Rightarrow> ('s, 'a world_scheme) Proxy \<times> 'a world_scheme
     \<Rightarrow> (('s, 'a world_scheme) Proxy \<times> 'a world_scheme) \<times> reqState \<times> nat" where
  "ServeHTTP e0 e1 e2 r rt pw =
     (let (p, w) = pw;
          start = wall e0;
          s = newReqState (px_metrics p);
          (p1, s, w, found) = serve_select p e0 r s w
      in if \<not> found then ((p1, completeRequest p1 e2 start r s w), s, rs_status s)
         else
           (let (s, w, allowed) = serve_allow p1 e0 r s w
            in if \<not> allowed then ((p1, completeRequest p1 e2 start r s w), s, rs_status s)
               else
                 (let w = activate s w;
                      (st, target) = director e0 (Some s) w;
                      (st, w, code) = reverse_proxy p1 e1 r rt st w;
                      s = (case st of None \<Rightarrow> s | Some s1 \<Rightarrow> s1)
                  in ((p1, completeRequest p1 e2 start r s w), s, code))))"

section \<open>Slot accounts\<close>

text \<open>
  The slot accounts are the backends' active counters and the active-requests gauge, read per
  name with an absent series as 0. The gauge is read by the one reader the documented behaviour
  of a gauge vector allows.
\<close>

lemma gauge_vec_doc_unique: "gauge_vec_doc rd \<Longrightarrow> rd cs m l = gauge_read cs m l"
proof (induction cs rule: rev_induct)
  case Nil
  then show ?case by (simp add: gauge_vec_doc_def gauge_read_def)
next
  case (snoc c cs)
  then show ?case
    by (simp add: gauge_vec_docD [of rd] gauge_vec_docD [OF gauge_vec_doc_gauge_read])
qed

definition slot_gauge :: "'a world_scheme \<Rightarrow> string \<Rightarrow> int" where
  "slot_gauge w n =
     (case gauge_read (prom w) lb_active_requests [n] of None \<Rightarrow> 0 | Some v \<Rightarrow> v)"

definition accounts_kept :: "'a world_scheme \<Rightarrow> 'a world_scheme \<Rightarrow> bool" where
  "accounts_kept w w' \<longleftrightarrow> slots_kept w w' \<and> (\<forall>n. slot_gauge w' n = slot_gauge w n)"

lemma accounts_kept_refl [simp]: "accounts_kept w w"
  by (simp add: accounts_kept_def)

lemma accounts_kept_trans:
  "accounts_kept w1 w2 \<Longrightarrow> accounts_kept w2 w3 \<Longrightarrow> accounts_kept w1 w3"
  by (auto simp: accounts_kept_def intro: slots_kept_trans)

lemma slot_gauge_frame [simp]:
  "slot_gauge (on_backend b f w) n = slot_gauge w n" "slot_gauge (log l w) n = slot_gauge w n"
  by (simp_all add: slot_gauge_def)

lemma gauge_read_snoc [simp]:
  "gauge_read (cs @ [c]) m l = gauge_effect c m l (gauge_read cs m l)"
  by (simp add: gauge_read_def)

lemma slot_gauge_meters [simp]:
  "slot_gauge (meter (IncActiveRequests k) w) n = slot_gauge w n + (if n = k then 1 else 0)"
  "slot_gauge (meter (DecActiveRequests k) w) n = slot_gauge w n - (if n = k then 1 else 0)"
  "slot_gauge (meter (SetBackendHealthy k v) w) n = slot_gauge w n"
  by (simp_all add: slot_gauge_def IncActiveRequests_def DecActiveRequests_def SetBackendHealthy_def
      split: option.split)

lemma slot_gauge_observe [simp]:
  "slot_gauge (meter (ObserveRequest k m c pr d) w) n = slot_gauge w n"
proof -
  have "cs @ [x, y] = (cs @ [x]) @ [y]" for cs and x y :: prom_call by simp
  then show ?thesis by (simp only: slot_gauge_def ObserveRequest_def meter_fields gauge_read_snoc gauge_effect.simps)
qed

lemma slot_gauge_circuit [simp]:
  "slot_gauge (meter (SetCircuitState k s) w) n = slot_gauge w n"
proof (cases "circuit_state_valid s")
  case True
  then show ?thesis
    using SetCircuitState_read [OF gauge_vec_doc_gauge_read True]
    by (simp add: slot_gauge_def)
qed (simp add: slot_gauge_def SetCircuitState_def)

lemma accounts_kept_log_meter [simp]:
  "accounts_kept w (log l w') = accounts_kept w w'"
  by (simp add: accounts_kept_def slots_kept_def)

locale slot_neutral_observer = round_trip_observer +
  assumes observe_gauge: "slot_gauge (observe b d ok w) n = slot_gauge w n"

lemma Breaker_slot_gauge: "slot_gauge (Breaker_ObserveRoundTrip now b d ok w) n = slot_gauge w n"
  by (auto simp: Breaker_ObserveRoundTrip_def ask_backend_eq Let_def split: CircuitTransition.splits)

interpretation neutral_breaker: slot_neutral_observer "Breaker_ObserveRoundTrip now" for now
  by unfold_locales (rule Breaker_slot_gauge)

lemma Outlier_slot_gauge: "slot_gauge (Outlier_ObserveRoundTrip b d ok w) n = slot_gauge w n"
  by (simp add: Outlier_ObserveRoundTrip_def Let_def) (simp add: slot_gauge_def SetBackendHealthy_def)

interpretation neutral_outlier: slot_neutral_observer Outlier_ObserveRoundTrip
  by unfold_locales (rule Outlier_slot_gauge)

interpretation neutral_latency: slot_neutral_observer latencyObserver
  by unfold_locales (simp_all add: latencyObserver_def slots_kept_def RecordLatency_def)

lemma fan_out_accounts:
  assumes "\<forall>obs \<in> set os. slot_neutral_observer obs"
  shows "accounts_kept w (fan_out os b d ok w)"
proof -
  have "accounts_kept w (fold (\<lambda>obs. obs b d ok) os w)"
    using assms
  proof (induction os arbitrary: w)
    case (Cons obs os)
    then have o: "slot_neutral_observer obs" by simp
    have "accounts_kept w (obs b d ok w)"
      by (simp add: accounts_kept_def slot_neutral_observer.observe_gauge [OF o]
          round_trip_observer.observe_keeps [OF slot_neutral_observer.axioms(1) [OF o]])
    moreover have "accounts_kept (obs b d ok w) (fold (\<lambda>obs. obs b d ok) os (obs b d ok w))"
      using Cons by simp
    ultimately show ?case by (auto intro: accounts_kept_trans)
  qed simp
  then show ?thesis by (simp add: fan_out_def)
qed

section \<open>What the proxy relies on, and what its hooks do to the accounts\<close>

text \<open>
  The gate, the selector and the observers a proxy is wired with leave the slot accounts alone;
  \<open>p0\<close> is the proxy as built, of which only the selector changes while it serves.
\<close>

locale proxy_wiring =
  fixes p0 :: "('s, 'a world_scheme) Proxy"
  assumes gate_accounts: "accounts_kept w (fst (Allow (px_reg p0 e) b w))"
    and select_accounts: "accounts_kept w (fst (snd (px_select p0 e s addr w)))"
    and observers_neutral: "obs \<in> set (observers p0) \<Longrightarrow> slot_neutral_observer (obs e)"
begin

definition wired :: "('s, 'a world_scheme) Proxy \<Rightarrow> bool" where
  "wired p \<longleftrightarrow> px_reg p = px_reg p0 \<and> px_select p = px_select p0 \<and> observers p = observers p0 \<and>
     px_metrics p = px_metrics p0"

lemma wired_fields:
  "wired p \<Longrightarrow> px_reg p = px_reg p0" "wired p \<Longrightarrow> px_select p = px_select p0"
  "wired p \<Longrightarrow> observers p = observers p0" "wired p \<Longrightarrow> px_metrics p = px_metrics p0"
  by (simp_all add: wired_def)

lemma wired_base [simp]: "wired p0"
  by (simp add: wired_def)

lemma wired_SetSelector [simp]: "wired (SetSelector s p) = wired p"
  by (simp add: wired_def SetSelector_def)

lemma observe_accounts:
  assumes "wired p"
  shows "accounts_kept w (observe p e s d ok w)"
proof (cases "rs_backend s")
  case (Some b)
  have "\<forall>obs \<in> set (map (\<lambda>obs. obs e) (observers p)). slot_neutral_observer obs"
    using observers_neutral by (simp add: wired_fields(3) [OF assms])
  from fan_out_accounts [OF this] show ?thesis by (simp only: observe_def Some option.case)
qed (simp add: observe_def)

lemma select_step:
  assumes "wired p" and "serve_select p e r s w = (p1, s1, w1, found)"
  shows "wired p1" "accounts_kept w w1"
    "if found then \<exists>b. s1 = s\<lparr>rs_backend := Some b\<rparr> else s1 = s\<lparr>rs_status := 503\<rparr>"
proof -
  obtain sel1 wx res where sel: "px_select p e (px_sel p) (RemoteAddr r) w = (sel1, wx, res)"
    by (cases "px_select p e (px_sel p) (RemoteAddr r) w") auto
  have acc: "accounts_kept w wx"
    using select_accounts [of w e "px_sel p" "RemoteAddr r"]
    by (simp add: wired_fields(2) [OF assms(1), symmetric] sel)
  have "wired (p\<lparr>px_sel := sel1\<rparr>)" using assms(1) by (simp add: wired_def)
  moreover have "if found then p1 = p\<lparr>px_sel := sel1\<rparr> \<and> w1 = wx \<and> (\<exists>b. s1 = s\<lparr>rs_backend := Some b\<rparr>)
      else p1 = p\<lparr>px_sel := sel1\<rparr> \<and> w1 = wx \<and> s1 = s\<lparr>rs_status := 503\<rparr>"
    using assms(2) by (cases res) (auto simp: serve_select_def sel split: select_error.splits)
  ultimately show "wired p1" "accounts_kept w w1"
    "if found then \<exists>b. s1 = s\<lparr>rs_backend := Some b\<rparr> else s1 = s\<lparr>rs_status := 503\<rparr>"
    using acc by (simp_all split: if_splits)
qed

lemma allow_step:
  assumes "wired p" and "serve_allow p e r s w = (s1, w1, allowed)"
  shows "accounts_kept w w1" "if allowed then s1 = s else \<exists>c. s1 = s\<lparr>rs_status := c\<rparr>"
proof -
  have n: "\<exists>c. s = s\<lparr>rs_status := c\<rparr>" by (rule exI [where x = "rs_status s"]) simp
  have "accounts_kept w w1 \<and> (if allowed then s1 = s else \<exists>c. s1 = s\<lparr>rs_status := c\<rparr>)"
  proof (cases "rs_backend s")
    case None
    then show ?thesis using assms(2) n by (auto simp: serve_allow_def)
  next
    case (Some b)
    obtain wx ok where a: "Allow (px_reg p e) b w = (wx, ok)" by (cases "Allow (px_reg p e) b w")
    have "accounts_kept w wx"
      using gate_accounts [of w e b] by (simp add: wired_fields(1) [OF assms(1), symmetric] a)
    then show ?thesis using assms(2) by (cases ok) (auto simp: serve_allow_def Some a)
  qed
  then show "accounts_kept w w1" "if allowed then s1 = s else \<exists>c. s1 = s\<lparr>rs_status := c\<rparr>"
    by blast+
qed

lemma respond_step:
  assumes "wired p" and "modifyResponse p e code proto (Some s) w = (st1, w1)"
  shows "accounts_kept w w1" "st1 = Some (s\<lparr>rs_status := code, rs_proto := proto\<rparr>)"
  using assms observe_accounts by (auto simp: Let_def)

text \<open>Whichever tier it takes, the error handler is a release after a step off the accounts.\<close>

lemma error_step:
  assumes "wired p" and "errorHandler p e ctx r (Some s) w = (st1, w1, code)"
  obtains c wx l where "accounts_kept w wx" "st1 = Some (fst (release (s\<lparr>rs_status := c\<rparr>) wx))"
    "w1 = log l (snd (release (s\<lparr>rs_status := c\<rparr>) wx))" "code = c"
proof -
  have rel: "rs_status (fst (release s' w')) = rs_status s'" for s' and w' :: "'a world_scheme"
    by (simp add: release_def)
  have rearm: "accounts_kept w (on_backend b RearmTrial w)" for b
    by (auto simp: accounts_kept_def slots_kept_def RearmTrial_def)
  have rm: "accounts_kept w (case rs_backend s of None \<Rightarrow> w | Some b \<Rightarrow> on_backend b RearmTrial w)"
    by (cases "rs_backend s") (simp_all add: rearm)
  consider "drained ctx" | "\<not> drained ctx" "client_done ctx" | "\<not> drained ctx" "\<not> client_done ctx"
    by blast
  then show ?thesis
  proof cases
    case 1
    with assms(2) show ?thesis
      by (intro that [OF observe_accounts [OF assms(1)], where c = 502])
        (auto simp: Let_def rel split_beta)
  next
    case 2
    with assms(2) show ?thesis
      by (intro that [OF rm, where c = statusClientClosedRequest])
        (auto simp: Let_def rel split_beta)
  next
    case 3
    with assms(2) show ?thesis
      by (intro that [OF observe_accounts [OF assms(1)], where c = 502])
        (auto simp: Let_def rel split_beta)
  qed
qed

end

end
