(* ===== verification/Proxy_Concurrent.thy ===== *)
theory Proxy_Concurrent
  imports Proxy
begin

text \<open>
  Requests in parallel. Each request goroutine is at a point of \<open>ServeHTTP\<close>, and one step of
  the system runs one hook of one request to its end, lets a client leave or a backend's
  retirement reach a request, replaces the selector, or is a step of some other goroutine
  (probes, reloads, drains). After the round trip has been dispatched the reverse proxy may call
  the hooks in any order and as often as it likes; it returns only after the body was closed or
  the error handler ran. The slot accounting must survive every interleaving of this.
\<close>

datatype phase = Selecting | Gating | Admitted | Dispatched | Responded | Refused | Completed

record request_run =
  rq :: http_request
  ph :: phase
  rst :: reqState
  cx :: req_ctx
  rbody :: releaseBody
  started :: instant

record ('s, 'w) system =
  prox :: "('s, 'w) Proxy"
  wrld :: 'w
  runs :: "nat \<rightharpoonup> request_run"

definition arrival :: "('s, 'w) Proxy \<Rightarrow> env \<Rightarrow> http_request \<Rightarrow> request_run" where
  "arrival p e r =
     \<lparr>rq = r, ph = Selecting, rst = newReqState (px_metrics p), cx = live_ctx,
      rbody = \<lparr>rb_backend = '''', rb_path = '''', bytesCopied = 0\<rparr>, started = wall e\<rparr>"

definition dispatched :: "request_run \<Rightarrow> bool" where
  "dispatched q \<longleftrightarrow> ph q = Dispatched \<or> ph q = Responded"

text \<open>
  What another goroutine may do to the accounts: nothing, except that an address no request
  refers to may become a fresh backend, and that the gauge of a name no slot is held under may
  be reset or deleted.
\<close>

definition holds_slot :: "request_run \<Rightarrow> bid \<Rightarrow> bool" where
  "holds_slot q b \<longleftrightarrow> dispatched q \<and> \<not> released (rst q) \<and> rs_backend (rst q) = Some b"

definition holders :: "(nat \<rightharpoonup> request_run) \<Rightarrow> (bid \<Rightarrow> bool) \<Rightarrow> nat set" where
  "holders rs P = {i. \<exists>q b. rs i = Some q \<and> holds_slot q b \<and> P b}"

definition other_step :: "(nat \<rightharpoonup> request_run) \<Rightarrow> 'a world_scheme \<Rightarrow> 'a world_scheme \<Rightarrow> bool" where
  "other_step rs w w' \<longleftrightarrow>
     (\<forall>b. Name (heap w' b) = Name (heap w b) \<and> active (heap w' b) = active (heap w b) \<or>
          (\<forall>i q. rs i = Some q \<longrightarrow> rs_backend (rst q) \<noteq> Some b) \<and> active (heap w' b) = 0) \<and>
     (\<forall>n. slot_gauge w' n = slot_gauge w n \<or>
          holders rs (\<lambda>b. Name (heap w b) = n) = {} \<and> slot_gauge w' n = 0)"

definition set_run ::
  "nat \<Rightarrow> request_run \<Rightarrow> 'w \<Rightarrow> ('s, 'w) system \<Rightarrow> ('s, 'w) system" where
  "set_run i q w S = S\<lparr>wrld := w, runs := (runs S)(i \<mapsto> q)\<rparr>"

inductive proxy_step :: "('s, 'a world_scheme) system \<Rightarrow> ('s, 'a world_scheme) system \<Rightarrow> bool" where
  arrive: "runs S i = None \<Longrightarrow> proxy_step S (set_run i (arrival (prox S) e r) (wrld S) S)"
| select: "runs S i = Some q \<Longrightarrow> ph q = Selecting \<Longrightarrow>
     serve_select (prox S) e (rq q) (rst q) (wrld S) = (p1, s1, w1, found) \<Longrightarrow>
     proxy_step S (set_run i (q\<lparr>rst := s1, ph := if found then Gating else Refused\<rparr>) w1 (S\<lparr>prox := p1\<rparr>))"
| allow: "runs S i = Some q \<Longrightarrow> ph q = Gating \<Longrightarrow>
     serve_allow (prox S) e (rq q) (rst q) (wrld S) = (s1, w1, ok) \<Longrightarrow>
     proxy_step S (set_run i (q\<lparr>rst := s1, ph := if ok then Admitted else Refused\<rparr>) w1 S)"
| activate: "runs S i = Some q \<Longrightarrow> ph q = Admitted \<Longrightarrow>
     proxy_step S (set_run i (q\<lparr>ph := Dispatched\<rparr>) (activate (rst q) (wrld S)) S)"
| direct: "runs S i = Some q \<Longrightarrow> ph q = Dispatched \<Longrightarrow>
     director e (Some (rst q)) (wrld S) = (Some s1, tgt) \<Longrightarrow>
     proxy_step S (set_run i (q\<lparr>rst := s1\<rparr>) (wrld S) S)"
| respond: "runs S i = Some q \<Longrightarrow> ph q = Dispatched \<Longrightarrow>
     modifyResponse (prox S) e code proto (Some (rst q)) (wrld S) = (Some s1, w1) \<Longrightarrow>
     proxy_step S (set_run i (q\<lparr>rst := s1, ph := Responded, rbody := newReleaseBody s1 (rq q) w1\<rparr>) w1 S)"
| read: "runs S i = Some q \<Longrightarrow> ph q = Responded \<Longrightarrow>
     releaseBody_Read (cx q) n err (rbody q) (wrld S) = (rb1, w1) \<Longrightarrow>
     proxy_step S (set_run i (q\<lparr>rbody := rb1\<rparr>) w1 S)"
| close: "runs S i = Some q \<Longrightarrow> ph q = Responded \<Longrightarrow>
     releaseBody_Close (rst q) (wrld S) = (s1, w1) \<Longrightarrow>
     proxy_step S (set_run i (q\<lparr>rst := s1\<rparr>) w1 S)"
| error: "runs S i = Some q \<Longrightarrow> dispatched q \<Longrightarrow>
     errorHandler (prox S) e (cx q) (rq q) (Some (rst q)) (wrld S) = (Some s1, w1, code) \<Longrightarrow>
     proxy_step S (set_run i (q\<lparr>rst := s1\<rparr>) w1 S)"
| complete: "runs S i = Some q \<Longrightarrow> ph q = Refused \<or> dispatched q \<and> released (rst q) \<Longrightarrow>
     proxy_step S (set_run i (q\<lparr>ph := Completed\<rparr>)
       (completeRequest (prox S) e (started q) (rq q) (rst q) (wrld S)) S)"
| leave: "runs S i = Some q \<Longrightarrow> proxy_step S (set_run i (q\<lparr>cx := client_leaves (cx q)\<rparr>) (wrld S) S)"
| joined: "runs S i = Some q \<Longrightarrow> dispatched q \<Longrightarrow> rs_backend (rst q) = Some b \<Longrightarrow>
     RetiredContext (heap (wrld S) b) = Some x \<Longrightarrow>
     proxy_step S (set_run i (q\<lparr>cx := join_fires x (cx q)\<rparr>) (wrld S) S)"
| swap: "proxy_step S (S\<lparr>prox := SetSelector s (prox S)\<rparr>)"
| other: "other_step (runs S) (wrld S) w' \<Longrightarrow> proxy_step S (S\<lparr>wrld := w'\<rparr>)"

section \<open>Counting slot holders\<close>

definition held :: "(nat \<rightharpoonup> request_run) \<Rightarrow> (bid \<Rightarrow> bool) \<Rightarrow> int" where
  "held rs P = int (card (holders rs P))"

text \<open>Does this run hold a slot of a backend in \<open>P\<close>?\<close>

definition holds_in :: "request_run \<Rightarrow> (bid \<Rightarrow> bool) \<Rightarrow> bool" where
  "holds_in q P \<longleftrightarrow> dispatched q \<and> \<not> released (rst q) \<and> (\<exists>b. rs_backend (rst q) = Some b \<and> P b)"

lemma holders_eq: "holders rs P = {i. \<exists>q. rs i = Some q \<and> holds_in q P}"
  by (auto simp: holders_def holds_slot_def holds_in_def)

lemma finite_holders: "finite (dom rs) \<Longrightarrow> finite (holders rs P)"
  by (rule finite_subset [of _ "dom rs"]) (auto simp: holders_eq)

lemma held_update:
  assumes "finite (dom rs)"
  shows "held (rs(i \<mapsto> q')) P = held rs P + of_bool (holds_in q' P)
    - (case rs i of None \<Rightarrow> 0 | Some q \<Rightarrow> of_bool (holds_in q P))"
proof -
  define A where "A = holders rs P - {i}"
  have f: "finite A" using finite_holders [OF assms] by (simp add: A_def)
  have i: "i \<notin> A" by (simp add: A_def)
  have new: "holders (rs(i \<mapsto> q')) P = (if holds_in q' P then insert i A else A)"
    by (auto simp: A_def holders_eq)
  have old: "holders rs P =
      (if (case rs i of None \<Rightarrow> False | Some q \<Rightarrow> holds_in q P) then insert i A else A)"
    by (auto simp: A_def holders_eq split: option.splits)
  show ?thesis
    unfolding held_def new old using f i by (auto split: option.splits)
qed

lemma held_same:
  assumes "finite (dom rs)" and "rs i = Some q" and "holds_in q' P \<longleftrightarrow> holds_in q P"
  shows "held (rs(i \<mapsto> q')) P = held rs P"
  using held_update [OF assms(1), of i q' P] assms(2,3) by simp

section \<open>The invariant\<close>

text \<open>
  Every backend's counter is the number of requests holding one of its slots, every name's gauge
  the number holding a slot of a backend of that name; a request not yet dispatched has not
  released, and every request reports to the collector if the proxy does.
\<close>

definition run_ok :: "request_run \<Rightarrow> bool" where
  "run_ok q \<longleftrightarrow> rs_metrics (rst q) \<and>
     (ph q \<in> {Selecting, Gating, Admitted} \<longrightarrow> \<not> released (rst q)) \<and>
     (ph q \<in> {Gating, Admitted, Dispatched, Responded} \<longrightarrow> rs_backend (rst q) \<noteq> None)"

definition slots_inv :: "('s, 'a world_scheme) system \<Rightarrow> bool" where
  "slots_inv S \<longleftrightarrow> finite (dom (runs S)) \<and> px_metrics (prox S) \<and>
     (\<forall>b. active (heap (wrld S) b) = wrap64 (held (runs S) (\<lambda>c. c = b))) \<and>
     (\<forall>n. slot_gauge (wrld S) n = held (runs S) (\<lambda>c. Name (heap (wrld S) c) = n)) \<and>
     (\<forall>i q. runs S i = Some q \<longrightarrow> run_ok q)"

lemma slots_inv_run: "slots_inv S \<Longrightarrow> runs S i = Some q \<Longrightarrow> run_ok q"
  by (simp add: slots_inv_def)

lemma run_ok_backend:
  "run_ok q \<Longrightarrow> ph q = Admitted \<or> dispatched q \<Longrightarrow> \<exists>b. rs_backend (rst q) = Some b"
  by (cases "rs_backend (rst q)") (auto simp: run_ok_def dispatched_def)

text \<open>A step of one run that leaves the accounts and the run's hold alone.\<close>

lemma slots_inv_quiet:
  assumes inv: "slots_inv S" and q: "runs S i = Some q"
    and w: "accounts_kept (wrld S) w'"
    and hold: "\<And>P. holds_in q' P \<longleftrightarrow> holds_in q P"
    and "run_ok q'"
  shows "slots_inv (set_run i q' w' S)"
proof -
  have f: "finite (dom (runs S))" using inv by (simp add: slots_inv_def)
  have h: "held ((runs S)(i \<mapsto> q')) P = held (runs S) P" for P
    by (rule held_same [OF f q hold])
  have n: "Name (heap w' c) = Name (heap (wrld S) c)" "active (heap w' c) = active (heap (wrld S) c)"
    "slot_gauge w' m = slot_gauge (wrld S) m" for c m
    using w by (simp_all add: accounts_kept_def slots_kept_def)
  show ?thesis
    using inv assms(5) by (simp add: slots_inv_def set_run_def h n)
qed

text \<open>Taking a slot and giving it back, on both accounts at once.\<close>

lemma activate_accounts:
  assumes "rs_backend s = Some b" and "rs_metrics s"
  shows "active (heap (activate s w) c) = (if c = b then wrap64 (active (heap w c) + 1) else active (heap w c))"
    and "Name (heap (activate s w) c) = Name (heap w c)"
    and "slot_gauge (activate s w) n = slot_gauge w n + (if n = Name (heap w b) then 1 else 0)"
  using assms by (simp_all add: activate_def IncActive_def)

lemma release_accounts:
  assumes "rs_backend s = Some b" and "rs_metrics s" and "\<not> released s"
  shows "active (heap (snd (release s w)) c) =
      (if c = b then wrap64 (active (heap w c) + - 1) else active (heap w c))"
    and "Name (heap (snd (release s w)) c) = Name (heap w c)"
    and "slot_gauge (snd (release s w)) n = slot_gauge w n - (if n = Name (heap w b) then 1 else 0)"
    and "fst (release s w) = s\<lparr>released := True\<rparr>"
  using assms by (simp_all add: release_def DecActive_def)

lemma wrap64_plus: "wrap64 (wrap64 a + b) = wrap64 (a + b)"
proof -
  have "take_bit 64 (wrap64 a + b) = take_bit 64 (take_bit 64 (wrap64 a) + b)"
    by (simp add: take_bit_eq_mod mod_add_left_eq)
  also have "\<dots> = take_bit 64 (take_bit 64 a + b)" by (simp add: wrap64_def take_bit_signed_take_bit)
  also have "\<dots> = take_bit 64 (a + b)" by (simp add: take_bit_eq_mod mod_add_left_eq)
  finally have "take_bit (Suc 63) (wrap64 a + b) = take_bit (Suc 63) (a + b)" by simp
  then show ?thesis unfolding wrap64_def [of "wrap64 a + b"] wrap64_def [of "a + b"]
    by (simp only: signed_take_bit_eq_iff_take_bit_eq)
qed

lemma wrap64_minus: "wrap64 (wrap64 a - b) = wrap64 (a - b)"
  using wrap64_plus [of a "- b"] by simp

lemma slots_inv_activate:
  assumes inv: "slots_inv S" and q: "runs S i = Some q" "ph q = Admitted"
  shows "slots_inv (set_run i (q\<lparr>ph := Dispatched\<rparr>) (activate (rst q) (wrld S)) S)"
proof -
  have ok: "run_ok q" by (rule slots_inv_run [OF inv q(1)])
  obtain b where b: "rs_backend (rst q) = Some b" "rs_metrics (rst q)" "\<not> released (rst q)"
    using run_ok_backend [OF ok] ok q(2) by (auto simp: run_ok_def)
  have f: "finite (dom (runs S))" using inv by (simp add: slots_inv_def)
  have h: "held ((runs S)(i \<mapsto> q\<lparr>ph := Dispatched\<rparr>)) P = held (runs S) P + of_bool (P b)" for P
    using held_update [OF f, of i "q\<lparr>ph := Dispatched\<rparr>" P] q b by (simp add: holds_in_def dispatched_def)
  show ?thesis
    using inv b activate_accounts [OF b(1,2), of "wrld S"]
    by (auto simp: slots_inv_def set_run_def h wrap64_plus run_ok_def)
qed

lemma slots_inv_release:
  assumes inv: "slots_inv S" and q: "runs S i = Some q" "dispatched q" and s: "s = (rst q)\<lparr>rs_status := c\<rparr>"
    and w: "accounts_kept (wrld S) w"
  shows "slots_inv (set_run i (q\<lparr>rst := fst (release s w)\<rparr>) (snd (release s w)) S)"
proof (cases "released (rst q)")
  case True
  have ok: "run_ok q" by (rule slots_inv_run [OF inv q(1)])
  have "release s w = (s, w)" using True by (simp add: release_def s)
  then show ?thesis
    using slots_inv_quiet [OF inv q(1) w, of "q\<lparr>rst := s\<rparr>"] ok q(2) True
    by (auto simp: holds_in_def dispatched_def run_ok_def s)
next
  case False
  obtain b where b: "rs_backend s = Some b" "rs_metrics s" "\<not> released s"
    using run_ok_backend [OF slots_inv_run [OF inv q(1)]] slots_inv_run [OF inv q(1)] q(2) False
    by (auto simp: run_ok_def s)
  have f: "finite (dom (runs S))" using inv by (simp add: slots_inv_def)
  define q' where "q' = q\<lparr>rst := s\<lparr>released := True\<rparr>\<rparr>"
  have h: "held ((runs S)(i \<mapsto> q')) P = held (runs S) P - of_bool (P b)" for P
    using held_update [OF f, of i q' P] q b False
    by (simp add: q'_def holds_in_def dispatched_def s)
  have ok: "run_ok q'"
    using slots_inv_run [OF inv q(1)] b q(2) by (auto simp: q'_def run_ok_def dispatched_def)
  have n: "Name (heap w c) = Name (heap (wrld S) c)" "active (heap w c) = active (heap (wrld S) c)"
    "slot_gauge w m = slot_gauge (wrld S) m" for c m
    using w by (simp_all add: accounts_kept_def slots_kept_def)
  show ?thesis
    unfolding release_accounts(4) [OF b] q'_def [symmetric]
    using inv ok release_accounts(1-3) [OF b, of w]
    by (auto simp: slots_inv_def set_run_def h wrap64_minus n)
qed

lemma slots_inv_other:
  assumes inv: "slots_inv S" and o: "other_step (runs S) (wrld S) w'"
  shows "slots_inv (S\<lparr>wrld := w'\<rparr>)"
proof -
  have nm: "Name (heap w' b) = Name (heap (wrld S) b)" if "holds_slot q b" "runs S i = Some q" for q b i
    using o that by (auto simp: other_step_def holds_slot_def)
  have same: "holders (runs S) (\<lambda>c. Name (heap w' c) = n) = holders (runs S) (\<lambda>c. Name (heap (wrld S) c) = n)" for n
    using nm by (force simp: holders_def)
  have act: "active (heap w' b) = wrap64 (held (runs S) (\<lambda>c. c = b))" for b
  proof (cases "active (heap w' b) = active (heap (wrld S) b)")
    case True
    then show ?thesis using inv by (simp add: slots_inv_def)
  next
    case False
    then have "active (heap w' b) = 0" "holders (runs S) (\<lambda>c. c = b) = {}"
      using o by (auto simp: other_step_def holders_def holds_slot_def)
    then show ?thesis by (simp add: held_def wrap64_def)
  qed
  have gauge: "slot_gauge w' n = held (runs S) (\<lambda>c. Name (heap w' c) = n)" for n
  proof (cases "slot_gauge w' n = slot_gauge (wrld S) n")
    case True
    then show ?thesis using inv by (simp add: slots_inv_def held_def same)
  next
    case False
    then have "slot_gauge w' n = 0" "holders (runs S) (\<lambda>c. Name (heap (wrld S) c) = n) = {}"
      using o by (auto simp: other_step_def)
    then show ?thesis by (simp add: held_def same)
  qed
  show ?thesis using inv act gauge by (simp add: slots_inv_def)
qed

section \<open>Every step keeps it\<close>

lemma accounts_meter_request [simp]:
  "accounts_kept w (meter (ObserveRequest k m c pr d) w') = accounts_kept w w'"
  by (simp add: accounts_kept_def slots_kept_def)

lemma completeRequest_accounts: "accounts_kept w (completeRequest p e start r s w)"
  by (simp add: completeRequest_def logRequest_def observeRequest_def)

lemma releaseBody_Read_accounts:
  "releaseBody_Read ctx n err rb w = (rb1, w1) \<Longrightarrow> accounts_kept w w1"
  by (auto simp: releaseBody_Read_def Let_def split: if_splits)

lemma status_self: "s = s\<lparr>rs_status := rs_status s\<rparr>"
  by simp

context proxy_wiring
begin

lemma step_inv:
  assumes "proxy_step S S'" and "slots_inv S" and "wired (prox S)"
  shows "slots_inv S' \<and> wired (prox S')"
  using assms
proof (induction rule: proxy_step.induct)
  case (arrive S i e r)
  have f: "finite (dom (runs S))" using arrive.prems by (simp add: slots_inv_def)
  have h: "held ((runs S)(i \<mapsto> arrival (prox S) e r)) P = held (runs S) P" for P
    using held_update [OF f, of i "arrival (prox S) e r" P] arrive.hyps
    by (simp add: holds_in_def dispatched_def arrival_def)
  have "px_metrics (prox S)" using arrive.prems by (simp add: slots_inv_def)
  then have "run_ok (arrival (prox S) e r)" by (simp add: run_ok_def arrival_def newReqState_def)
  then show ?case using arrive.prems by (simp add: slots_inv_def set_run_def h)
next
  case (select S i q e p1 s1 w1 found)
  note st = select_step [OF select.prems(2) select.hyps(3)]
  let ?q = "q\<lparr>rst := s1, ph := if found then Gating else Refused\<rparr>"
  have inv: "slots_inv (S\<lparr>prox := p1\<rparr>)"
    using select.prems st(1) by (simp add: slots_inv_def wired_def)
  have ok: "run_ok ?q"
    using slots_inv_run [OF select.prems(1) select.hyps(1)] select.hyps(2) st(3)
    by (auto simp: run_ok_def split: if_splits)
  have r: "runs (S\<lparr>prox := p1\<rparr>) i = Some q" using select.hyps(1) by simp
  have w: "accounts_kept (wrld (S\<lparr>prox := p1\<rparr>)) w1" using st(2) by simp
  have h: "holds_in ?q P = holds_in q P" for P
    using select.hyps(2) by (simp add: holds_in_def dispatched_def)
  show ?case
    using slots_inv_quiet [OF inv r w h ok] st(1) by (simp add: set_run_def)
next
  case (allow S i q e s1 w1 ok)
  note st = allow_step [OF allow.prems(2) allow.hyps(3)]
  have "run_ok (q\<lparr>rst := s1, ph := if ok then Admitted else Refused\<rparr>)"
    using slots_inv_run [OF allow.prems(1) allow.hyps(1)] allow.hyps(2) st(2)
    by (auto simp: run_ok_def split: if_splits)
  then show ?case
    using slots_inv_quiet [OF allow.prems(1) allow.hyps(1) st(1)] allow.hyps(2) allow.prems(2)
    by (simp add: holds_in_def dispatched_def set_run_def)
next
  case (activate S i q)
  then show ?case using slots_inv_activate by (simp add: set_run_def)
next
  case (direct S i q e s1 tgt)
  then have "s1 = (rst q)\<lparr>dispatchStart := wall e\<rparr>" by simp
  then show ?case
    using slots_inv_quiet [OF direct.prems(1) direct.hyps(1), of "wrld S" "q\<lparr>rst := s1\<rparr>"]
      slots_inv_run [OF direct.prems(1) direct.hyps(1)] direct.prems(2)
    by (simp add: holds_in_def dispatched_def run_ok_def set_run_def)
next
  case (respond S i q e code proto s1 w1)
  note st = respond_step [OF respond.prems(2) respond.hyps(3)]
  show ?case
    using slots_inv_quiet [OF respond.prems(1) respond.hyps(1) st(1),
        of "q\<lparr>rst := s1, ph := Responded, rbody := newReleaseBody s1 (rq q) w1\<rparr>"]
      slots_inv_run [OF respond.prems(1) respond.hyps(1)] respond.hyps(2) st(2) respond.prems(2)
    by (simp add: holds_in_def dispatched_def run_ok_def set_run_def)
next
  case (read S i q n err rb1 w1)
  show ?case
    using slots_inv_quiet [OF read.prems(1) read.hyps(1) releaseBody_Read_accounts [OF read.hyps(3)],
        of "q\<lparr>rbody := rb1\<rparr>"]
      slots_inv_run [OF read.prems(1) read.hyps(1)] read.prems(2)
    by (simp add: holds_in_def dispatched_def run_ok_def set_run_def)
next
  case (close S i q s1 w1)
  then have r: "s1 = fst (release (rst q) (wrld S))" "w1 = snd (release (rst q) (wrld S))"
    by (simp_all add: releaseBody_Close_def)
  have "dispatched q" using close.hyps by (simp add: dispatched_def)
  then show ?case
    using slots_inv_release [OF close.prems(1) close.hyps(1) _ status_self accounts_kept_refl] close.prems(2)
    by (simp add: r set_run_def)
next
  case (error S i q e s1 w1 code)
  obtain c wx l where x: "accounts_kept (wrld S) wx" "s1 = fst (release ((rst q)\<lparr>rs_status := c\<rparr>) wx)"
    "w1 = log l (snd (release ((rst q)\<lparr>rs_status := c\<rparr>) wx))"
    using error_step [OF error.prems(2) error.hyps(3)] by (metis option.inject)
  define S1 where "S1 = set_run i (q\<lparr>rst := s1\<rparr>) (snd (release ((rst q)\<lparr>rs_status := c\<rparr>) wx)) S"
  have "slots_inv S1"
    using slots_inv_release [OF error.prems(1) error.hyps(1,2) refl x(1)] by (simp add: S1_def x(2))
  then have "slots_inv (set_run i (q\<lparr>rst := s1\<rparr>) w1 S)"
    by (simp add: S1_def slots_inv_def set_run_def x(3))
  then show ?case using error.prems(2) by (simp add: set_run_def)
next
  case (complete S i q e)
  let ?q = "q\<lparr>ph := Completed\<rparr>"
  have ok: "run_ok ?q" using slots_inv_run [OF complete.prems(1) complete.hyps(1)] by (simp add: run_ok_def)
  have "\<not> dispatched q \<or> released (rst q)" using complete.hyps(2) by (auto simp: dispatched_def)
  then have h: "holds_in ?q P = holds_in q P" for P by (auto simp: holds_in_def dispatched_def)
  show ?case
    using slots_inv_quiet [OF complete.prems(1) complete.hyps(1) completeRequest_accounts h ok]
      complete.prems(2)
    by (simp add: set_run_def)
next
  case (leave S i q)
  show ?case
    using slots_inv_quiet [OF leave.prems(1) leave.hyps(1) accounts_kept_refl,
        of "q\<lparr>cx := client_leaves (cx q)\<rparr>"]
      slots_inv_run [OF leave.prems(1) leave.hyps(1)] leave.prems(2)
    by (simp add: holds_in_def dispatched_def run_ok_def set_run_def)
next
  case (joined S i q b x)
  show ?case
    using slots_inv_quiet [OF joined.prems(1) joined.hyps(1) accounts_kept_refl,
        of "q\<lparr>cx := join_fires x (cx q)\<rparr>"]
      slots_inv_run [OF joined.prems(1) joined.hyps(1)] joined.prems(2)
    by (simp add: holds_in_def dispatched_def run_ok_def set_run_def)
next
  case (swap S s)
  then show ?case by (simp add: slots_inv_def SetSelector_def wired_def)
next
  case (other S w')
  then show ?case using slots_inv_other by simp
qed

lemma run_inv:
  assumes "proxy_step\<^sup>*\<^sup>* S S'" and "slots_inv S" and "wired (prox S)"
  shows "slots_inv S' \<and> wired (prox S')"
  using assms by (induction rule: rtranclp_induct) (auto dest: step_inv)

end

end
