(* ===== verification/Build.thy ===== *)
theory Build
  imports Proxy_Concurrent Checker
begin

text \<open>
  How \<open>internal/app/app.go\<close> puts the load balancer together: the seeded gauges, the proxy
  with the breaker as gate and observer, the backend transport's and the client server's
  settings, and \<open>Build\<close>. Reading a nil pointer of the configuration panics in Go, so the
  parts that dereference return \<open>None\<close> for a panic; a validated configuration never does.
  Loading the certificate pair is a parameter.
\<close>

section \<open>The wired proxy\<close>

definition production_gate :: "duration \<Rightarrow> env \<Rightarrow> 'a world_scheme CircuitGate option" where
  "production_gate cd e = with_breaker cd (clock e)"

definition production_select :: "duration \<Rightarrow> env \<Rightarrow> (selector_state, 'a world_scheme) select_fun" where
  "production_select cd e =
     Selector_Select (production_gate cd e) (\<lambda>k n. draws e k mod n)"

text \<open>The proxy \<open>Build\<close> assembles: collector, then the three observers in this order.\<close>

definition build_proxy ::
  "duration \<Rightarrow> selector_state \<Rightarrow> (selector_state, 'a outlier_world_scheme) Proxy" where
  "build_proxy cd sel =
     RegisterObserver (\<lambda>e. Breaker_ObserveRoundTrip (clock e))
      (RegisterObserver (\<lambda>e. Outlier_ObserveRoundTrip)
       (RegisterObserver (\<lambda>e. latencyObserver)
        (SetMetrics (NewProxy (production_gate cd) (production_select cd) sel))))"

lemma build_proxy_fields [simp]:
  "px_reg (build_proxy cd sel) = production_gate cd"
  "px_select (build_proxy cd sel) = production_select cd"
  "px_sel (build_proxy cd sel) = sel" "px_metrics (build_proxy cd sel)"
  "observers (build_proxy cd sel) =
     [\<lambda>e. latencyObserver, \<lambda>e. Outlier_ObserveRoundTrip, \<lambda>e. Breaker_ObserveRoundTrip (clock e)]"
  by (simp_all add: build_proxy_def RegisterObserver_def SetMetrics_def NewProxy_def)

lemma Breaker_Open_accounts: "accounts_kept w (fst (Breaker_Open cd now b w))"
proof -
  have "slots_kept w (fst (Breaker_Open cd now b w))"
    using breaker.open_frame [of b w cd now]
    by (intro slots_kept_circuits) (simp add: same_but_circuit_def breaker_gate_def)
  then show ?thesis by (simp add: accounts_kept_def Breaker_Open_eq)
qed

lemma Breaker_Allow_accounts: "accounts_kept w (fst (Breaker_Allow cd now b w))"
proof -
  have "slots_kept w (fst (Breaker_Allow cd now b w))"
    using breaker.allow_frame [of b w cd now]
    by (intro slots_kept_circuits) (simp add: same_but_circuit_def breaker_gate_def)
  moreover have "slot_gauge (fst (Breaker_Allow cd now b w)) n = slot_gauge w n" for n
    by (simp add: Breaker_Allow_def ask_backend_eq Let_def split: prod.split)
  ultimately show ?thesis by (simp add: accounts_kept_def)
qed

lemma Selectable_accounts: "accounts_kept w (fst (Selectable (with_breaker cd now) w))"
proof -
  have "accounts_kept w (fst (selectable_loop (with_breaker cd now) bs w acc))" for bs acc
  proof (induction bs arbitrary: w acc)
    case (Cons b bs)
    have o: "accounts_kept w (fst (GateOpen (breaker_gate cd now) b w))"
      using Breaker_Open_accounts by (simp add: breaker_gate_def)
    show ?case
      using Cons accounts_kept_trans [OF o] by (simp add: split_beta Let_def)
  qed simp
  then show ?thesis by (simp add: Selectable_def)
qed

lemma select_world:
  "fst (snd (RoundRobin_Select g c addr w)) = fst (Selectable g w)"
  "fst (snd (LeastConnections_Select g u addr w)) = fst (Selectable g w)"
  "fst (snd (PowerOfTwoChoicesEWMA_Select g dr u addr w)) = fst (Selectable g w)"
  "fst (snd (ConsistentHash_Select g ca addr w)) = fst (Selectable g w)"
  by (simp_all add: RoundRobin_Select_def LeastConnections_Select_def PowerOfTwoChoicesEWMA_Select_def
      ConsistentHash_Select_def Let_def split_beta split: nat.split)

lemma Selector_Select_world:
  "fst (snd (Selector_Select g dr s addr w)) = fst (Selectable g w)"
  by (cases s) (simp_all add: Selector_Select_lift select_world)

interpretation production: proxy_wiring "build_proxy cd sel" for cd sel
proof (rule proxy_wiring.intro)
  fix w :: "'a outlier_world_scheme" and e b
  show "accounts_kept w (fst (Allow (px_reg (build_proxy cd sel) e) b w))"
    by (simp add: production_gate_def Allow_def breaker_gate_def Breaker_Allow_accounts)
next
  fix w :: "'a outlier_world_scheme" and e s addr
  show "accounts_kept w (fst (snd (px_select (build_proxy cd sel) e s addr w)))"
    by (simp add: production_select_def production_gate_def Selector_Select_world Selectable_accounts)
next
  fix obs :: "env \<Rightarrow> 'a outlier_world_scheme RoundTripObserver" and e
  assume "obs \<in> set (observers (build_proxy cd sel))"
  then show "slot_neutral_observer (obs e)"
    using neutral_latency.slot_neutral_observer_axioms neutral_outlier.slot_neutral_observer_axioms
      neutral_breaker.slot_neutral_observer_axioms
    by auto
qed

section \<open>Slot conservation in the running system\<close>

text \<open>The system before its first request.\<close>

definition idle_world :: "'a outlier_world_scheme \<Rightarrow> bool" where
  "idle_world w \<longleftrightarrow> (\<forall>b. active (heap w b) = 0) \<and> (\<forall>n. slot_gauge w n = 0)"

definition fresh_system ::
  "duration \<Rightarrow> selector_state \<Rightarrow> 'a outlier_world_scheme \<Rightarrow> (selector_state, 'a outlier_world_scheme) system" where
  "fresh_system cd sel w = \<lparr>prox = build_proxy cd sel, wrld = w, runs = Map.empty\<rparr>"

lemma fresh_system_inv: "idle_world w \<Longrightarrow> slots_inv (fresh_system cd sel w)"
  by (simp add: idle_world_def slots_inv_def fresh_system_def held_def holders_def wrap64_def)


definition sample_env :: env where
  "sample_env = \<lparr>wall = 0, clock = (\<lambda>b. 0), draws = (\<lambda>k. 0)\<rparr>"

definition sample_request :: http_request where
  "sample_request = \<lparr>Method = ''GET'', Path = ''/'', RemoteAddr = ''10.0.0.1:4711'', ProtoMajor = 1,
     TLS_conn = False\<rparr>"

lemma sample_Open [simp]:
  "Breaker_Open 5 (\<lambda>b. 0) b sample_outlier = (sample_outlier, False)"
  "Breaker_Allow 5 (\<lambda>b. 0) b sample_outlier = (sample_outlier, True)"
proof -
  have o: "heap sample_outlier b = fresh_backend (if b = 0 then ''a'' else ''b'') sample_url"
    by (simp add: sample_outlier_def sample_world_def)
  have "CircuitOpen 5 0 (heap sample_outlier b) = (heap sample_outlier b, False)"
    "CircuitAllow 5 0 (heap sample_outlier b) = (heap sample_outlier b, True, CircuitNoChange)"
    unfolding o
    by (simp_all add: CircuitOpen_def currentCircuit_def CircuitAllow_def on_circuit_def run_once_def
        currentCircuit_body_def CircuitAllow_body_def fresh_backend_def deref_snapshot_def zeroSnapshot_def)
  then show "Breaker_Open 5 (\<lambda>b. 0) b sample_outlier = (sample_outlier, False)"
    "Breaker_Allow 5 (\<lambda>b. 0) b sample_outlier = (sample_outlier, True)"
    by (simp_all add: Breaker_Open_def Breaker_Allow_def ask_backend_def on_backend_def)
qed

lemma sample_healthy: "healthy (heap sample_outlier b)" "backends (snap sample_outlier) = [0, 1]"
  by (simp_all add: sample_outlier_def sample_world_def fresh_backend_def)

lemma sample_select:
  "Selectable (with_breaker 5 (\<lambda>b. 0)) sample_outlier = (sample_outlier, [0, 1])"
  by (simp add: Selectable_def breaker_gate_def IsHealthy_def sample_healthy)

lemma sample_idle: "idle_world sample_outlier"
  by (simp add: idle_world_def slot_gauge_def sample_outlier_def sample_world_def fresh_backend_def
      gauge_read_def)

text \<open>One request, from its arrival to its dispatch to the first backend.\<close>

lemma sample_run:
  "\<exists>S. proxy_step\<^sup>*\<^sup>* (fresh_system 5 (SelRoundRobin 0) sample_outlier) S \<and> held (runs S) (\<lambda>c. c = 0) = 1"
proof -
  define S0 :: "(selector_state, outlier_world) system" where
    "S0 = fresh_system 5 (SelRoundRobin 0) sample_outlier"
  define q where "q = arrival (prox S0) sample_env sample_request"
  define S1 where "S1 = set_run 0 q sample_outlier S0"
  have 1: "proxy_step S0 S1"
    using proxy_step.arrive [of S0 0 sample_env sample_request]
    by (simp add: S0_def S1_def q_def fresh_system_def)
  define p1 :: "(selector_state, outlier_world) Proxy" where "p1 = build_proxy 5 (SelRoundRobin 1)"
  have b1: "(prox S0)\<lparr>px_sel := SelRoundRobin 1\<rparr> = p1"
    by (simp add: S0_def fresh_system_def p1_def build_proxy_def RegisterObserver_def SetMetrics_def NewProxy_def)
  define s1 where "s1 = (rst q)\<lparr>rs_backend := Some 0\<rparr>"
  have "serve_select (prox S0) sample_env (rq q) (rst q) sample_outlier = (p1, s1, sample_outlier, True)"
    unfolding serve_select_def
    by (simp add: b1 [symmetric] s1_def)
       (simp add: S0_def fresh_system_def production_select_def production_gate_def
        Selector_Select_lift RoundRobin_Select_def sample_env_def sample_select)
  then have 2: "proxy_step S1 (set_run 0 (q\<lparr>rst := s1, ph := Gating\<rparr>) sample_outlier (S1\<lparr>prox := p1\<rparr>))"
    (is "proxy_step S1 ?S2")
    using proxy_step.select [of S1 0 q sample_env p1 s1 sample_outlier True]
    by (simp add: S1_def set_run_def S0_def fresh_system_def q_def arrival_def)
  have "serve_allow p1 sample_env (rq q) s1 sample_outlier = (s1, sample_outlier, True)"
    by (simp add: serve_allow_def s1_def p1_def production_gate_def Allow_def breaker_gate_def sample_env_def)
  then have 3: "proxy_step ?S2 (set_run 0 (q\<lparr>rst := s1, ph := Admitted\<rparr>) sample_outlier ?S2)"
    (is "proxy_step ?S2 ?S3")
    using proxy_step.allow [of ?S2 0 "q\<lparr>rst := s1, ph := Gating\<rparr>" sample_env s1 sample_outlier True]
    by (simp add: set_run_def)
  have 4: "proxy_step ?S3 (set_run 0 (q\<lparr>rst := s1, ph := Dispatched\<rparr>) (activate s1 sample_outlier) ?S3)"
    (is "proxy_step ?S3 ?S4")
    using proxy_step.activate [of ?S3 0 "q\<lparr>rst := s1, ph := Admitted\<rparr>"]
    by (simp add: set_run_def)
  have "holders (runs ?S4) (\<lambda>c. c = 0) = {0}"
    by (auto simp: holders_eq set_run_def S1_def S0_def fresh_system_def holds_in_def dispatched_def
        s1_def q_def arrival_def newReqState_def)
  then have h: "held (runs ?S4) (\<lambda>c. c = 0) = 1" by (simp add: held_def)
  note snoc = rtranclp.rtrancl_into_rtrancl [where r = proxy_step]
  have run: "proxy_step\<^sup>*\<^sup>* S0 ?S4"
    using snoc [OF snoc [OF snoc [OF snoc [OF rtranclp.rtrancl_refl 1] 2] 3] 4] by this
  show ?thesis using run h unfolding S0_def by (intro exI conjI)
qed


end
