(* ===== verification/Request.thy ===== *)
theory Request
  imports Build
begin

text \<open>
  One request through the wired proxy, from arrival to completion: what each way a round trip
  can end does to the backend's estimate, outlier window and circuit; that a half-open trial is
  always resolved; and that every request is counted and logged once, with the status the
  client was sent.
\<close>

section \<open>A reported round trip\<close>

definition circuits_wf :: "'a world_scheme \<Rightarrow> bool" where
  "circuits_wf w \<longleftrightarrow> (\<forall>b. circuit_wf circuitFailuresBeforeOpen (circuit (heap w b)))"

text \<open>
  The world after the three observers have folded in one round trip of \<open>b\<close>: the latency estimate,
  the outlier episode (with the ejection it may cause) and the circuit have moved as their
  specifications say, and no other backend has changed.
\<close>

definition folded_in ::
  "env \<Rightarrow> bid \<Rightarrow> duration \<Rightarrow> bool \<Rightarrow> 'a outlier_world_scheme \<Rightarrow> 'a outlier_world_scheme \<Rightarrow> bool" where
  "folded_in e b d ok w w' \<longleftrightarrow>
     (let r = spec_outlier (healthy (heap w b)) ok (episode_of w b)
      in latencyEWMA (heap w' b) = latencyEWMA (RecordLatency d (heap w b)) \<and>
         episode_of w' b = fst r \<and> healthy (heap w' b) = (healthy (heap w b) \<and> \<not> snd r) \<and>
         bstate (heap w' b) = spec_outcome ok (clock e b) (bstate (heap w b)) \<and>
         (\<forall>c. c \<noteq> b \<longrightarrow> heap w' c = heap w c \<and> windows w' c = windows w c))"

text \<open>No backend's health, estimate, outlier window or circuit has changed.\<close>

definition untouched :: "'a outlier_world_scheme \<Rightarrow> 'a outlier_world_scheme \<Rightarrow> bool" where
  "untouched w w' \<longleftrightarrow> windows w' = windows w \<and>
     (\<forall>b. healthy (heap w' b) = healthy (heap w b) \<and> latencyEWMA (heap w' b) = latencyEWMA (heap w b) \<and>
          circuit (heap w' b) = circuit (heap w b))"

lemma untouched_refl [simp]: "untouched w w"
  by (simp add: untouched_def)

lemma untouched_trans: "untouched w1 w2 \<Longrightarrow> untouched w2 w3 \<Longrightarrow> untouched w1 w3"
  by (simp add: untouched_def)

lemma windows_frame [simp]:
  "windows (on_backend b f w) = windows w" "windows (log l w) = windows w" "windows (meter g w) = windows w"
  by (simp_all add: on_backend_def log_def meter_def)

lemma untouched_log [simp]:
  "untouched w (log l w') = untouched w w'" "untouched w (meter g w') = untouched w w'"
  by (simp_all add: untouched_def)

lemma release_untouched: "untouched w (snd (release s w))"
  by (simp add: release_def untouched_def DecActive_def Let_def split: option.split)

lemma activate_untouched: "untouched w (activate s w)"
  by (simp add: activate_def untouched_def IncActive_def Let_def split: option.split)

lemma windows_circuits: "same_but_circuits w w' \<Longrightarrow> windows w' = windows (w :: 'a outlier_world_scheme)"
proof -
  assume "same_but_circuits w w'"
  then have "world.more w' = world.more w" by (rule same_but_circuitsD)
  then show ?thesis by (cases w; cases w') simp
qed

lemma episode_windows: "windows w' b = windows w b \<Longrightarrow> episode_of w' b = episode_of w b"
  by (simp add: episode_of_def window_of_def)

lemma windows_wf_same: "windows w' = windows w \<Longrightarrow> windows_wf w' = windows_wf w"
  by (simp add: windows_wf_def window_of_def)

lemma observers_fold:
  fixes w :: "'a outlier_world_scheme"
  assumes "observers p = observers (build_proxy cd sel)" and "rs_backend s = Some b"
  shows "observe p e s d ok w =
    (if removed (heap w b) then w
     else Breaker_ObserveRoundTrip (clock e) b d ok (Outlier_ObserveRoundTrip b d ok (latencyObserver b d ok w)))"
  using assms by (simp add: observe_def fan_out_def IsRemoved_def)

lemma latency_step:
  fixes w :: "'a outlier_world_scheme"
  shows "heap (latencyObserver b d ok w) = (heap w)(b := RecordLatency d (heap w b))"
    "windows (latencyObserver b d ok w) = windows w"
  by (simp_all add: latencyObserver_def)

lemma RecordLatency_keeps:
  "healthy (RecordLatency d bk) = healthy bk" "circuit (RecordLatency d bk) = circuit bk"
  by (simp_all add: RecordLatency_def)

lemma Outlier_heap:
  fixes w :: "'a outlier_world_scheme" and b d ok
  assumes "windows_wf w"
  defines "w' \<equiv> Outlier_ObserveRoundTrip b d ok w" and "r \<equiv> spec_outlier (healthy (heap w b)) ok (episode_of w b)"
  shows "windows_wf w'" "episode_of w' b = fst r"
    "heap w' = (if snd r then (heap w)(b := MarkUnhealthy (heap w b)) else heap w)"
    "c \<noteq> b \<Longrightarrow> windows w' c = windows w c"
proof -
  obtain win where win: "window_wf win" "recent win = fst (fst r)" "ejected win = snd (fst r)"
    "w' = (let w1 = w\<lparr>windows := (windows w)(b \<mapsto> win)\<rparr>
       in if snd r
          then log (transition_line LevelWarn ''backend ejected'' (Name (heap w b))
                      EventHealthEjected ReasonOutlierWindow)
                 (meter (SetBackendHealthy (Name (heap w b)) False) (on_backend b MarkUnhealthy w1))
          else w1)"
    using Outlier_step [OF assms(1)] unfolding w'_def r_def by blast
  have ws: "windows w' = (windows w)(b \<mapsto> win)" by (simp add: win(4) Let_def)
  show "windows_wf w'" using assms(1) win(1) by (simp add: windows_wf_def window_of_def ws)
  show "episode_of w' b = fst r" using win(2,3) by (simp add: episode_of_def window_of_def ws)
  show "heap w' = (if snd r then (heap w)(b := MarkUnhealthy (heap w b)) else heap w)"
    by (simp add: win(4) Let_def)
  show "c \<noteq> b \<Longrightarrow> windows w' c = windows w c" by (simp add: ws)
qed

lemma observed:
  fixes w :: "'a outlier_world_scheme" and b d ok p s e
  assumes "observers p = observers (build_proxy cd sel)" and "rs_backend s = Some b"
    and "windows_wf w" and "circuits_wf w"
  defines "w' \<equiv> observe p e s d ok w"
  shows "windows_wf w'" "circuits_wf w'"
    "if removed (heap w b) then w' = w else folded_in e b d ok w w'"
proof -
  define w1 where "w1 = latencyObserver b d ok w"
  define w2 where "w2 = Outlier_ObserveRoundTrip b d ok w1"
  define w3 where "w3 = Breaker_ObserveRoundTrip (clock e) b d ok w2"
  have w': "w' = (if removed (heap w b) then w else w3)"
    using observers_fold [OF assms(1,2)] by (simp add: w'_def w1_def w2_def w3_def)
  have h1: "heap w1 = (heap w)(b := RecordLatency d (heap w b))" "windows w1 = windows w"
    by (simp_all add: w1_def latency_step)
  have wf1: "windows_wf w1" using assms(3) windows_wf_same [OF h1(2)] by simp
  define r where "r = spec_outlier (healthy (heap w b)) ok (episode_of w b)"
  have r1: "r = spec_outlier (healthy (heap w1 b)) ok (episode_of w1 b)"
    using episode_windows [of w1 b w] by (simp add: r_def h1 RecordLatency_keeps)
  note o = Outlier_heap [OF wf1, where b = b and d = d and ok = ok, folded w2_def r1]
  have c2: "circuit (heap w2 c) = circuit (heap w c)" for c
    by (simp add: o(3) h1 MarkUnhealthy_def RecordLatency_keeps)
  have cwf: "circuit_wf circuitFailuresBeforeOpen (circuit (heap w2 b))"
    using assms(4) by (simp add: c2 circuits_wf_def)
  note br = Breaker_observe_steps [OF cwf, where ok = ok and now = "clock e" and d = d, folded w3_def]
  have sc: "same_but_circuit b w2 w3" unfolding w3_def by (rule Breaker_observe_circuit)
  then have others: "c \<noteq> b \<Longrightarrow> heap w3 c = heap w2 c" for c by (simp add: same_but_circuit_def)
  have scs: "same_but_circuits w2 w3" using sc by (simp add: same_but_circuit_def)
  note f = same_but_circuitsD [OF scs]
  have win3: "windows w3 = windows w2" by (rule windows_circuits [OF scs])
  have wf3: "windows_wf w3" using o(1) windows_wf_same [OF win3] by simp
  have cwf3: "circuits_wf w3"
    using assms(4) br(2) others unfolding circuits_wf_def by (metis c2)
  have bs: "bstate (heap w2 b) = bstate (heap w b)" by (simp add: bstate_def c2)
  have br1: "bstate (heap w3 b) = spec_outcome ok (clock e b) (bstate (heap w b))"
    by (simp only: br(1) bs)
  have fold: "folded_in e b d ok w w3"
    unfolding folded_in_def Let_def r_def [symmetric]
    using others win3 br1 f(6,8) o episode_windows [OF arg_cong [OF win3, of "\<lambda>m. m b"]]
    by (auto simp: h1 MarkUnhealthy_def RecordLatency_keeps)
  show "windows_wf w'" "circuits_wf w'"
    "if removed (heap w b) then w' = w else folded_in e b d ok w w'"
    using wf3 cwf3 fold assms(3,4) by (simp_all add: w')
qed

section \<open>The three ways a round trip fails\<close>

lemma folded_in_release:
  assumes "folded_in e b d ok w w1" and "rs_backend s = Some b"
  shows "folded_in e b d ok w (log l (snd (release s w1)))"
proof -
  have h: "heap (snd (release s w1)) c = (if c = b \<and> \<not> released s then DecActive (heap w1 b) else heap w1 c)" for c
    using assms(2) by (simp add: release_def Let_def)
  have ws: "windows (snd (release s w1)) = windows w1"
    using release_untouched [of w1 s] by (simp add: untouched_def)
  have "episode_of (log l (snd (release s w1))) b = episode_of w1 b"
    by (rule episode_windows) (simp add: ws)
  then show ?thesis
    using assms(1) by (simp add: folded_in_def Let_def h ws DecActive_def bstate_def)
qed

lemma release_status: "rs_status (fst (release s w)) = rs_status s"
  by (simp add: release_def)

lemma error_tiers:
  fixes e ctx req s b cd sel and w :: "'a outlier_world_scheme"
  assumes "rs_backend s = Some b" and "windows_wf w" and "circuits_wf w"
  defines "res \<equiv> errorHandler (build_proxy cd sel) e ctx req (Some s) w"
  shows "fst res = Some (s\<lparr>rs_status := snd (snd res), released := True\<rparr>)
    \<and> (if \<not> drained ctx \<and> client_done ctx
       then snd (snd res) = 499 \<and> windows (fst (snd res)) = windows w
         \<and> (\<forall>c. healthy (heap (fst (snd res)) c) = healthy (heap w c)
              \<and> latencyEWMA (heap (fst (snd res)) c) = latencyEWMA (heap w c)
              \<and> bstate (heap (fst (snd res)) c) =
                  (if c = b then spec_rearm (bstate (heap w b)) else bstate (heap w c)))
       else snd (snd res) = 502
         \<and> (if removed (heap w b) then untouched w (fst (snd res))
            else folded_in e b p2cFailurePenalty False w (fst (snd res))))"
proof (cases "\<not> drained ctx \<and> client_done ctx")
  case True
  define w1 where "w1 = on_backend b RearmTrial w"
  have res: "\<exists>l. res = (Some (fst (release (s\<lparr>rs_status := 499\<rparr>) w1)),
      log l (snd (release (s\<lparr>rs_status := 499\<rparr>) w1)), 499)"
    using True assms(1)
    by (simp add: res_def w1_def Let_def split_beta statusClientClosedRequest_def release_status)
      (rule exI, rule refl)
  have f: "fst (release (s\<lparr>rs_status := 499\<rparr>) w1) = s\<lparr>rs_status := 499, released := True\<rparr>"
    by (cases "released s") (simp_all add: release_def)
  have u: "untouched w1 (snd (release (s\<lparr>rs_status := 499\<rparr>) w1))" by (rule release_untouched)
  have h: "healthy (heap w1 c) = healthy (heap w c)" "latencyEWMA (heap w1 c) = latencyEWMA (heap w c)"
    "bstate (heap w1 c) = (if c = b then spec_rearm (bstate (heap w b)) else bstate (heap w c))"
    "windows w1 = windows w" for c
    by (auto simp: w1_def RearmTrial_bstate) (simp_all add: RearmTrial_def)
  show ?thesis
    using True res f u h by (auto simp: untouched_def bstate_def)
next
  case False
  define s1 where "s1 = s\<lparr>rs_status := 502\<rparr>"
  define w1 where "w1 = observe (build_proxy cd sel) e s1 p2cFailurePenalty False w"
  have res: "\<exists>l. res = (Some (fst (release s1 w1)), log l (snd (release s1 w1)), 502)"
    using False assms(1)
    by (auto simp: res_def s1_def w1_def Let_def split_beta release_status)
  have f: "fst (release s1 w1) = s\<lparr>rs_status := 502, released := True\<rparr>"
    by (cases "released s") (simp_all add: release_def s1_def)
  have b: "rs_backend s1 = Some b" using assms(1) by (simp add: s1_def)
  have ob: "if removed (heap w b) then w1 = w else folded_in e b p2cFailurePenalty False w w1"
    using observed(3) [OF refl b assms(2,3)] by (simp add: w1_def)
  have u: "untouched w1 (snd (release s1 w1))" by (rule release_untouched)
  show ?thesis
    using False res f ob u folded_in_release [OF _ b] by (auto split: if_splits)
qed


lemma sample_circuits_wf: "circuits_wf sample_outlier"
  by (simp add: circuits_wf_def sample_outlier_def sample_world_def fresh_backend_def)

definition sample_state :: reqState where
  "sample_state = (newReqState True)\<lparr>rs_backend := Some 0\<rparr>"


section \<open>A half-open trial never stays taken\<close>

definition trial_taken :: "'a world_scheme \<Rightarrow> bid \<Rightarrow> bool" where
  "trial_taken w b \<longleftrightarrow> bstate (heap w b) = HalfOpen True"

lemma promote_trial: "spec_promote cd now s = HalfOpen True \<longleftrightarrow> s = HalfOpen True"
  by (cases s) auto

lemma outcome_no_trial: "spec_outcome ok now s \<noteq> HalfOpen True"
  by (cases s) (auto simp: spec_outcome_def)

lemma rearm_no_trial: "spec_rearm s \<noteq> HalfOpen True"
  by (cases s) auto

lemma Open_trial: "trial_taken (fst (Breaker_Open cd now b w)) c = trial_taken w c"
  by (simp add: trial_taken_def Breaker_Open_eq CircuitOpen_bstate promote_trial)

lemma Selectable_trial: "trial_taken (fst (Selectable (with_breaker cd now) w)) c = trial_taken w c"
proof -
  have "trial_taken (fst (selectable_loop (with_breaker cd now) bs w acc)) c = trial_taken w c" for bs acc
    by (induction bs arbitrary: w acc) (simp_all add: split_beta Let_def breaker_gate_def Open_trial)
  then show ?thesis by (simp add: Selectable_def)
qed

lemma Allow_trial:
  "c \<noteq> b \<Longrightarrow> trial_taken (fst (Breaker_Allow cd now b w)) c = trial_taken w c"
  "\<not> snd (Breaker_Allow cd now b w) \<Longrightarrow> trial_taken (fst (Breaker_Allow cd now b w)) b \<Longrightarrow> trial_taken w b"
proof -
  have h: "heap (fst (Breaker_Allow cd now b w)) = (heap w)(b := fst (CircuitAllow cd (now b) (heap w b)))"
    by (simp add: Breaker_Allow_def ask_backend_eq Let_def split: prod.split)
  show "c \<noteq> b \<Longrightarrow> trial_taken (fst (Breaker_Allow cd now b w)) c = trial_taken w c"
    by (simp add: trial_taken_def h)
  show "\<not> snd (Breaker_Allow cd now b w) \<Longrightarrow> trial_taken (fst (Breaker_Allow cd now b w)) b \<Longrightarrow> trial_taken w b"
    by (cases "spec_promote cd (now b) (bstate (heap w b))")
      (auto simp: trial_taken_def h CircuitAllow_bstate Breaker_Allow_answer promote_trial
        dest: promote_trial [THEN iffD1])
qed

lemma untouched_trial: "untouched w w' \<Longrightarrow> trial_taken w' c = trial_taken w c"
  by (simp add: untouched_def trial_taken_def bstate_def)

lemma folded_in_trial:
  "folded_in e b d ok w w' \<Longrightarrow> trial_taken w' c \<Longrightarrow> c \<noteq> b \<and> trial_taken w c"
  by (cases "c = b") (auto simp: folded_in_def Let_def trial_taken_def outcome_no_trial)

lemma build_proxy_reselect [simp]:
  "(build_proxy cd sel)\<lparr>px_sel := s\<rparr> = (build_proxy cd s :: (selector_state, 'a outlier_world_scheme) Proxy)"
  by (simp add: build_proxy_def RegisterObserver_def SetMetrics_def NewProxy_def)

lemma read_all_untouched:
  fixes w :: "'a outlier_world_scheme"
  shows "untouched w (snd (read_all reads rb w))"
proof (induction reads rb w rule: read_all.induct)
  case (2 n err ctx reads rb w)
  have "untouched w (snd (releaseBody_Read ctx n err rb w))"
    by (simp add: releaseBody_Read_def Let_def)
  moreover have "untouched (snd (releaseBody_Read ctx n err rb w)) (snd (read_all reads
      (fst (releaseBody_Read ctx n err rb w)) (snd (releaseBody_Read ctx n err rb w))))"
    by (rule "2.IH" [OF refl]) simp
  ultimately show ?case by (auto simp: split_beta Let_def intro: untouched_trans)
qed simp

lemma error_resolves:
  fixes w :: "'a outlier_world_scheme"
  assumes "rs_backend s = Some b" and "windows_wf w" and "circuits_wf w"
    and "errorHandler (build_proxy cd sel) e ctx req (Some s) w = (st, w1, code)"
    and "trial_taken w1 c"
  shows "trial_taken w c \<and> (c = b \<longrightarrow> removed (heap w b))"
proof (cases "\<not> drained ctx \<and> client_done ctx")
  case True
  then have "bstate (heap w1 c) = (if c = b then spec_rearm (bstate (heap w b)) else bstate (heap w c))"
    using error_tiers [OF assms(1-3), where e = e and ctx = ctx and req = req and cd = cd and sel = sel]
    by (simp add: assms(4) del: errorHandler.simps)
  then show ?thesis using assms(5) rearm_no_trial by (auto simp: trial_taken_def split: if_splits)
next
  case False
  then have "if removed (heap w b) then untouched w w1 else folded_in e b p2cFailurePenalty False w w1"
    using error_tiers [OF assms(1-3), where e = e and ctx = ctx and req = req and cd = cd and sel = sel]
    unfolding if_not_P [OF False] assms(4) fst_conv snd_conv by blast
  then show ?thesis
    using assms(5) untouched_trial [of w w1 c] folded_in_trial [of e b _ _ w w1 c] by (auto split: if_splits)
qed

lemma reverse_proxy_resolves:
  fixes w :: "'a outlier_world_scheme"
  assumes "rs_backend s = Some b" and "windows_wf w" and "circuits_wf w"
    and "reverse_proxy (build_proxy cd sel) e req rt (Some s) w = (st, w', code)"
    and "trial_taken w' c"
  shows "trial_taken w c \<and> (c = b \<longrightarrow> removed (heap w b))"
proof -
  have responded: "windows_wf w1 \<and> circuits_wf w1 \<and> rs_backend s1 = Some b \<and> removed (heap w1 b) = removed (heap w b) \<and>
      (trial_taken w1 c \<longrightarrow> trial_taken w c \<and> (c = b \<longrightarrow> removed (heap w b)))"
    if m: "modifyResponse (build_proxy cd sel) e k proto (Some s) w = (Some s1, w1)" for k proto s1 w1
  proof -
    define s0 where "s0 = s\<lparr>rs_status := k, rs_proto := proto\<rparr>"
    have b0: "rs_backend s0 = Some b" using assms(1) by (simp add: s0_def)
    have e1: "s1 = s0" "w1 = observe (build_proxy cd sel) e s0 (time_since (wall e) (dispatchStart s0)) (k < 500) w"
      using m by (auto simp: s0_def Let_def)
    note ob = observed [OF refl b0 assms(2,3), where cd = cd and sel = sel and e = e
        and d = "time_since (wall e) (dispatchStart s0)" and ok = "k < 500", folded e1(2)]
    have "accounts_kept w w1"
      using production.observe_accounts [OF production.wired_base, of w cd sel] by (simp add: e1(2))
    then have "removed (heap w1 b) = removed (heap w b)" by (simp add: accounts_kept_def slots_kept_def)
    then show ?thesis
      using ob b0 folded_in_trial [of e b _ _ w w1 c] by (auto simp: e1(1) split: if_splits)
  qed
  show ?thesis
  proof (cases rt)
    case (Failed ctx)
    then show ?thesis using assms error_resolves [OF assms(1-3)] by (simp add: reverse_proxy_def)
  next
    case (Answered k proto reads)
    obtain s1 w1 where m: "modifyResponse (build_proxy cd sel) e k proto (Some s) w = (Some s1, w1)"
      by (cases "modifyResponse (build_proxy cd sel) e k proto (Some s) w") (simp add: Let_def)
    have w': "w' = snd (release s1 (snd (read_all reads (newReleaseBody s1 req w1) w1)))"
      using assms(4)
      by (simp add: reverse_proxy_def Answered m releaseBody_Close_def split_beta Let_def
          del: modifyResponse.simps)
    have "untouched w1 w'"
      unfolding w' by (rule untouched_trans [OF read_all_untouched release_untouched])
    then show ?thesis using responded [OF m] assms(5) untouched_trial by blast
  next
    case (Switching proto ctx)
    obtain s1 w1 where m: "modifyResponse (build_proxy cd sel) e 101 proto (Some s) w = (Some s1, w1)"
      by (cases "modifyResponse (build_proxy cd sel) e 101 proto (Some s) w") (simp add: Let_def)
    have "errorHandler (build_proxy cd sel) e ctx req (Some s1) w1 = (st, w', code)"
      using assms(4) by (simp add: reverse_proxy_def Switching m del: modifyResponse.simps errorHandler.simps)
    then have "trial_taken w1 c"
      using error_resolves assms(5) responded [OF m] by blast
    then show ?thesis using responded [OF m] by blast
  qed
qed

lemma scan_keeps:
  fixes w :: "'a outlier_world_scheme"
  assumes "same_but_circuits w w'" and "windows_wf w"
  shows "windows_wf w'" "removed (heap w' b) = removed (heap w b)" "Name (heap w' b) = Name (heap w b)"
  using same_but_circuitsD [OF assms(1)] windows_wf_same [OF windows_circuits [OF assms(1)]] assms(2)
  by simp_all

lemma Open_circuits_wf: "circuits_wf w \<Longrightarrow> circuits_wf (fst (Breaker_Open cd now b w))"
  by (simp add: circuits_wf_def Breaker_Open_eq circuit_methods_wf(1))

lemma Allow_circuits_wf: "circuits_wf w \<Longrightarrow> circuits_wf (fst (Breaker_Allow cd now b w))"
proof -
  have h: "heap (fst (Breaker_Allow cd now b w)) = (heap w)(b := fst (CircuitAllow cd (now b) (heap w b)))"
    by (simp add: Breaker_Allow_def ask_backend_eq Let_def split: prod.split)
  show "circuits_wf w \<Longrightarrow> circuits_wf (fst (Breaker_Allow cd now b w))"
    by (simp add: circuits_wf_def h circuit_methods_wf(2))
qed

lemma Selectable_circuits_wf:
  "circuits_wf w \<Longrightarrow> circuits_wf (fst (Selectable (with_breaker cd now) w))"
proof -
  have "circuits_wf w \<Longrightarrow> circuits_wf (fst (selectable_loop (with_breaker cd now) bs w acc))" for bs acc
    by (induction bs arbitrary: w acc) (simp_all add: split_beta Let_def breaker_gate_def Open_circuits_wf)
  then show "circuits_wf w \<Longrightarrow> circuits_wf (fst (Selectable (with_breaker cd now) w))"
    by (simp add: Selectable_def)
qed

text \<open>What the production proxy's selection and gate steps are.\<close>

lemma serve_select_production:
  fixes w :: "'a outlier_world_scheme"
  assumes "serve_select (build_proxy cd sel) e r s w = (p1, s1, w1, found)"
  obtains sel1 where "p1 = build_proxy cd sel1" "w1 = fst (Selectable (with_breaker cd (clock e)) w)"
    "if found then \<exists>b. s1 = s\<lparr>rs_backend := Some b\<rparr> else s1 = s\<lparr>rs_status := 503\<rparr>"
proof -
  obtain sel1 wx res where sel: "px_select (build_proxy cd sel) e sel (RemoteAddr r) w = (sel1, wx, res)"
    by (cases "px_select (build_proxy cd sel) e sel (RemoteAddr r) w") auto
  have wx: "wx = fst (Selectable (with_breaker cd (clock e)) w)"
    using Selector_Select_world [of "production_gate cd e" "\<lambda>k n. draws e k mod n" sel "RemoteAddr r" w] sel
    by (simp add: production_select_def production_gate_def)
  show ?thesis
    using assms sel wx by (intro that [of sel1])
      (cases res; auto simp: serve_select_def split: select_error.splits)+
qed

lemma errorHandler_some: "\<exists>s1. fst (errorHandler p e ctx r (Some s) w) = Some s1"
  by (simp add: Let_def split_beta)

lemma reverse_proxy_some:
  "\<exists>s1 w1 code. reverse_proxy p e r rt (Some s) w = (Some s1, w1, code)"
proof -
  have "\<exists>s1. fst (reverse_proxy p e r rt (Some s) w) = Some s1"
    using errorHandler_some by (cases rt) (simp_all add: reverse_proxy_def Let_def split_beta del: errorHandler.simps)
  then show ?thesis by (metis prod.collapse)
qed

text \<open>The three courses a request can take; \<open>scanned\<close> is the world after the selector's scan.\<close>

abbreviation scanned :: "duration \<Rightarrow> env \<Rightarrow> 'a outlier_world_scheme \<Rightarrow> 'a outlier_world_scheme" where
  "scanned cd e w \<equiv> fst (Selectable (with_breaker cd (clock e)) w)"

definition denied_line :: "http_request \<Rightarrow> string \<Rightarrow> log_line" where
  "denied_line r name = \<lparr>log_level = LevelWarn, log_msg = ''request denied by circuit breaker'',
     log_attrs = [(''backend'', VStr name), (''path'', VStr (Path r))]\<rparr>"

lemma ServeHTTP_cases:
  fixes w :: "'a outlier_world_scheme"
  obtains (refused) p1 where
    "ServeHTTP e0 e1 e2 r rt (build_proxy cd sel, w) =
       ((p1, completeRequest p1 e2 (wall e0) r ((newReqState True)\<lparr>rs_status := 503\<rparr>) (scanned cd e0 w)),
        (newReqState True)\<lparr>rs_status := 503\<rparr>, 503)" "px_metrics p1"
  | (denied) p1 b w2 where "Breaker_Allow cd (clock e0) b (scanned cd e0 w) = (w2, False)"
    "ServeHTTP e0 e1 e2 r rt (build_proxy cd sel, w) =
       ((p1, completeRequest p1 e2 (wall e0) r ((newReqState True)\<lparr>rs_backend := Some b, rs_status := 503\<rparr>)
             (log (denied_line r (Name (heap w2 b))) w2)),
        (newReqState True)\<lparr>rs_backend := Some b, rs_status := 503\<rparr>, 503)" "px_metrics p1"
  | (served) sel1 b w2 s w4 code where "Breaker_Allow cd (clock e0) b (scanned cd e0 w) = (w2, True)"
    "reverse_proxy (build_proxy cd sel1) e1 r rt
       (Some ((newReqState True)\<lparr>rs_backend := Some b, dispatchStart := wall e0\<rparr>))
       (activate ((newReqState True)\<lparr>rs_backend := Some b\<rparr>) w2) = (Some s, w4, code)"
    "ServeHTTP e0 e1 e2 r rt (build_proxy cd sel, w) =
       ((build_proxy cd sel1, completeRequest (build_proxy cd sel1) e2 (wall e0) r s w4), s, code)"
proof -
  define s0 where "s0 = newReqState True"
  obtain p1 s1 w1 found where sel: "serve_select (build_proxy cd sel) e0 r s0 w = (p1, s1, w1, found)"
    by (cases "serve_select (build_proxy cd sel) e0 r s0 w") auto
  obtain sel1 where p1: "p1 = build_proxy cd sel1" "w1 = scanned cd e0 w"
    "if found then \<exists>b. s1 = s0\<lparr>rs_backend := Some b\<rparr> else s1 = s0\<lparr>rs_status := 503\<rparr>"
    using serve_select_production [OF sel] by blast
  note sel' = sel [unfolded s0_def]
  show ?thesis
  proof (cases found)
    case False
    then show ?thesis
      using p1 by (intro refused [of p1]) (simp_all add: ServeHTTP_def Let_def sel' s0_def)
  next
    case True
    then obtain b where b: "s1 = s0\<lparr>rs_backend := Some b\<rparr>" using p1(3) by auto
    obtain w2 ok where al: "Breaker_Allow cd (clock e0) b (scanned cd e0 w) = (w2, ok)"
      by (cases "Breaker_Allow cd (clock e0) b (scanned cd e0 w)")
    have al': "Allow (px_reg p1 e0) b w1 = (w2, ok)"
      using al by (simp add: p1(1,2) production_gate_def Allow_def breaker_gate_def)
    show ?thesis
    proof (cases ok)
      case False
      then show ?thesis using True al al' p1(1)
        by (intro denied [of b w2 p1])
          (simp_all add: ServeHTTP_def Let_def sel' b serve_allow_def denied_line_def s0_def)
    next
      case ok: True
      obtain s w4 code where rp: "reverse_proxy p1 e1 r rt (Some (s1\<lparr>dispatchStart := wall e0\<rparr>)) (activate s1 w2) =
          (Some s, w4, code)"
        using reverse_proxy_some by blast
      then show ?thesis using True ok al al' p1(1)
        by (intro served [of b w2 sel1 s w4 code])
          (simp_all add: ServeHTTP_def Let_def sel' b serve_allow_def s0_def)
    qed
  qed
qed

text \<open>
  C10. A half-open trial never stays taken: if no live backend's trial slot is taken when a request
  arrives, none is taken once the request has completed, whichever backend was selected, whether
  it was admitted (as the trial or not), and however its round trip ended (answer of any status,
  transport failure, drain, a client that left, a protocol switch). So a backend behind a
  half-open circuit can always be tried again.
\<close>

theorem ServeHTTP_resolves_trial:
  fixes w :: "'a outlier_world_scheme"
  assumes "windows_wf w" and "circuits_wf w"
    and "\<not> removed (heap w c)" and "\<not> trial_taken w c"
  shows "\<not> trial_taken (snd (fst (ServeHTTP e0 e1 e2 r rt (build_proxy cd sel, w)))) c"
proof -
  define w1 where "w1 = scanned cd e0 w"
  have sc1: "same_but_circuits w w1" unfolding w1_def by (rule Selectable_breaker)
  have t1: "\<not> trial_taken w1 c" using assms(4) by (simp add: w1_def Selectable_trial)
  have wf1: "windows_wf w1" "circuits_wf w1" "removed (heap w1 c) = removed (heap w c)"
    using scan_keeps(1,2) [OF sc1 assms(1)] Selectable_circuits_wf [OF assms(2)] by (simp_all add: w1_def)
  have done_same: "trial_taken (completeRequest p1 e2 i r s' w') c = trial_taken w' c" for p1 :: "(selector_state, 'a outlier_world_scheme) Proxy" and i s' w'
    by (simp add: completeRequest_def logRequest_def observeRequest_def trial_taken_def)
  show ?thesis
  proof (cases rule: ServeHTTP_cases [of e0 e1 e2 r rt cd sel w])
    case (refused p1)
    then show ?thesis using t1 done_same by (simp add: w1_def)
  next
    case (denied p1 b w2)
    have "\<not> trial_taken w2 c"
      using t1 Allow_trial(1) [of c b cd "clock e0" w1] Allow_trial(2) [of cd "clock e0" b w1] denied(1)
      by (auto simp: w1_def)
    then show ?thesis using done_same by (simp add: denied(2)) (simp add: trial_taken_def)
  next
    case (served sel1 b w2 s w4 code)
    have sc2: "same_but_circuits w1 w2"
      using breaker.allow_frame [of b w1 cd "clock e0"] served(1)
      by (simp add: same_but_circuit_def breaker_gate_def w1_def)
    have wf2: "windows_wf w2" "circuits_wf w2" "removed (heap w2 c) = removed (heap w c)"
      using scan_keeps(1,2) [OF sc2 wf1(1)] Allow_circuits_wf [OF wf1(2), of cd "clock e0" b] served(1) wf1(3)
      by (simp_all add: w1_def)
    have t2: "trial_taken w2 c \<Longrightarrow> c = b"
      using t1 Allow_trial(1) [of c b cd "clock e0" w1] served(1) by (auto simp: w1_def)
    define w3 where "w3 = activate ((newReqState True)\<lparr>rs_backend := Some b\<rparr>) w2"
    have u3: "untouched w2 w3" unfolding w3_def by (rule activate_untouched)
    have wf3: "windows_wf w3" "circuits_wf w3"
      using wf2 u3 windows_wf_same [of w3 w2] by (simp_all add: untouched_def circuits_wf_def)
    have r3: "removed (heap w3 c) = removed (heap w c)"
      using wf2(3) by (auto simp: w3_def activate_def IncActive_def Let_def)
    have "\<not> trial_taken w4 c"
      using reverse_proxy_resolves [OF _ wf3 served(2) [folded w3_def], of b c] t2 untouched_trial [OF u3] assms(3) r3
      by auto
    then show ?thesis using done_same by (simp add: served(3))
  qed
qed

theorem ServeHTTP_resolves_trial_witness:
  "\<not> trial_taken (snd (fst (ServeHTTP sample_env sample_env sample_env sample_request
      (Failed (client_leaves live_ctx)) (build_proxy 5 SelP2C, sample_outlier)))) 0"
proof -
  have "\<not> removed (heap sample_outlier 0)" "\<not> trial_taken sample_outlier 0"
    by (simp_all add: trial_taken_def sample_outlier_def sample_world_def fresh_backend_def bstate_def
        circuit_abs_defs)
  then show ?thesis by (rule ServeHTTP_resolves_trial [OF sample_windows_wf sample_circuits_wf])
qed

section \<open>Counted once, logged once\<close>

definition is_request_line :: "log_line \<Rightarrow> bool" where
  "is_request_line l \<longleftrightarrow> log_msg l = ''request complete''"

fun is_request_call :: "prom_call \<Rightarrow> bool" where
  "is_request_call (CounterInc m ls) = (m = lb_requests_total)"
| "is_request_call (HistObserve m ls d) = (m = lb_request_duration_seconds)"
| "is_request_call c = False"

text \<open>No request was recorded between the two worlds, and no backend changed its name.\<close>

definition quiet :: "'a world_scheme \<Rightarrow> 'a world_scheme \<Rightarrow> bool" where
  "quiet w w' \<longleftrightarrow> filter is_request_line (logs w') = filter is_request_line (logs w) \<and>
     filter is_request_call (prom w') = filter is_request_call (prom w) \<and>
     (\<forall>b. Name (heap w' b) = Name (heap w b))"

lemma quiet_refl [simp]: "quiet w w"
  by (simp add: quiet_def)

lemma quiet_trans [trans]: "quiet w1 w2 \<Longrightarrow> quiet w2 w3 \<Longrightarrow> quiet w1 w3"
  by (simp add: quiet_def)

lemma quiet_log: "log_msg l \<noteq> ''request complete'' \<Longrightarrow> quiet w (log l w') = quiet w w'"
  by (simp add: quiet_def is_request_line_def)

lemma quiet_transition [simp]:
  "msg \<noteq> ''request complete'' \<Longrightarrow> quiet w (log (transition_line lv msg n ev rs) w') = quiet w w'"
  by (rule quiet_log) (simp add: transition_line_def)

lemma quiet_meter [simp]:
  "quiet w (meter (SetBackendHealthy n v) w') = quiet w w'"
  "quiet w (meter (SetCircuitState n s) w') = quiet w w'"
  "quiet w (meter (IncActiveRequests n) w') = quiet w w'"
  "quiet w (meter (DecActiveRequests n) w') = quiet w w'"
  by (simp_all add: quiet_def collector_defs circuitStates_def)

lemma quiet_on_backend: "Name (f (heap w b)) = Name (heap w b) \<Longrightarrow> quiet w (on_backend b f w)"
  by (simp add: quiet_def)

lemma circuit_quiet:
  assumes "\<exists>c. f (heap w b) = (heap w b)\<lparr>circuit := c\<rparr>"
  shows "quiet w (on_backend b f w)"
  using assms by (auto intro!: quiet_on_backend)

lemma Breaker_Open_quiet: "quiet w (fst (Breaker_Open cd now b w))"
  by (simp add: Breaker_Open_eq circuit_quiet circuit_frame)

lemma Breaker_Allow_quiet: "quiet w (fst (Breaker_Allow cd now b w))"
  by (auto simp: Breaker_Allow_def ask_backend_eq Let_def intro!: circuit_quiet circuit_frame
      split: prod.split)

lemma Breaker_observe_quiet: "quiet w (Breaker_ObserveRoundTrip now b d ok w)"
  by (auto simp: Breaker_ObserveRoundTrip_def ask_backend_eq Let_def
      intro!: circuit_quiet circuit_frame split: CircuitTransition.splits)

lemma Selectable_quiet: "quiet w (fst (Selectable (with_breaker cd now) w))"
proof -
  have "quiet w (fst (selectable_loop (with_breaker cd now) bs w acc))" for bs acc
  proof (induction bs arbitrary: w acc)
    case (Cons b bs)
    then show ?case
      using Breaker_Open_quiet [of w cd now b] by (auto simp: split_beta Let_def breaker_gate_def intro: quiet_trans)
  qed simp
  then show ?thesis by (simp add: Selectable_def)
qed

lemma Outlier_quiet: "quiet w (Outlier_ObserveRoundTrip b d ok w)"
proof -
  have "quiet w (w\<lparr>windows := m\<rparr>)" for m by (simp add: quiet_def)
  moreover have "quiet w (on_backend b MarkUnhealthy (w\<lparr>windows := m\<rparr>))" for m
    by (simp add: quiet_def MarkUnhealthy_def)
  ultimately show ?thesis by (simp add: Outlier_ObserveRoundTrip_def Let_def)
qed

lemma observe_quiet: "quiet w (observe (build_proxy cd sel) e s d ok w)"
proof (cases "rs_backend s")
  case (Some b)
  have "quiet w (latencyObserver b d ok w)"
    by (simp add: latencyObserver_def quiet_on_backend RecordLatency_def)
  also have "quiet \<dots> (Outlier_ObserveRoundTrip b d ok (latencyObserver b d ok w))"
    by (rule Outlier_quiet)
  also have "quiet \<dots> (Breaker_ObserveRoundTrip (clock e) b d ok (Outlier_ObserveRoundTrip b d ok (latencyObserver b d ok w)))"
    by (rule Breaker_observe_quiet)
  finally show ?thesis using observers_fold [OF refl Some, of cd sel e d ok w] by simp
qed (simp add: observe_def)

lemma slot_quiet: "quiet w (activate s w)" "quiet w (snd (release s w))"
  by (simp_all add: activate_def release_def Let_def quiet_on_backend IncActive_def DecActive_def
      split: option.split)

lemma read_all_quiet: "quiet w (snd (read_all reads rb w))"
proof (induction reads rb w rule: read_all.induct)
  case (2 n err ctx reads rb w)
  have "quiet w (snd (releaseBody_Read ctx n err rb w))"
    by (simp add: releaseBody_Read_def Let_def quiet_log)
  moreover have "quiet (snd (releaseBody_Read ctx n err rb w)) (snd (read_all reads
      (fst (releaseBody_Read ctx n err rb w)) (snd (releaseBody_Read ctx n err rb w))))"
    by (rule "2.IH" [OF refl]) simp
  ultimately show ?case by (auto simp: split_beta Let_def intro: quiet_trans)
qed simp

lemma errorHandler_quiet:
  assumes "errorHandler (build_proxy cd sel) e ctx r (Some s) w = (Some s1, w1, code)"
  shows "quiet w w1" "code = rs_status s1" "rs_backend s1 = rs_backend s"
proof -
  have rm: "quiet w (case rs_backend s of None \<Rightarrow> w | Some b \<Rightarrow> on_backend b RearmTrial w)"
    by (auto simp: RearmTrial_def intro!: quiet_on_backend split: option.split)
  show "quiet w w1"
    using assms rm by (auto simp: Let_def split_beta quiet_log split: if_splits
        intro: quiet_trans [OF observe_quiet slot_quiet(2)] quiet_trans [OF _ slot_quiet(2)])
  show "code = rs_status s1" "rs_backend s1 = rs_backend s"
    using assms by (auto simp: Let_def split_beta release_def split: if_splits)
qed

lemma reverse_proxy_quiet:
  assumes "reverse_proxy (build_proxy cd sel) e r rt (Some s) w = (Some s1, w1, code)"
  shows "quiet w w1 \<and> code = rs_status s1 \<and> rs_backend s1 = rs_backend s"
proof -
  have m: "quiet w w'" "rs_backend s' = rs_backend s" "rs_status s' = k"
    if "modifyResponse (build_proxy cd sel) e k proto (Some s) w = (Some s', w')" for k proto s' w'
    using that observe_quiet by (auto simp: Let_def)
  show ?thesis
  proof (cases rt)
    case (Failed ctx)
    then have y: "errorHandler (build_proxy cd sel) e ctx r (Some s) w = (Some s1, w1, code)"
      using assms by (simp add: reverse_proxy_def del: errorHandler.simps)
    show ?thesis using errorHandler_quiet [OF y] by blast
  next
    case (Answered k proto reads)
    obtain s' w' where x: "modifyResponse (build_proxy cd sel) e k proto (Some s) w = (Some s', w')"
      by (cases "modifyResponse (build_proxy cd sel) e k proto (Some s) w") (simp add: Let_def)
    have "quiet w (snd (read_all reads (newReleaseBody s' r w') w'))"
      by (rule quiet_trans [OF m(1) [OF x] read_all_quiet])
    then have "quiet w (snd (release s' (snd (read_all reads (newReleaseBody s' r w') w'))))"
      by (rule quiet_trans [OF _ slot_quiet(2)])
    moreover have "w1 = snd (release s' (snd (read_all reads (newReleaseBody s' r w') w')))" "code = k"
      "s1 = fst (release s' (snd (read_all reads (newReleaseBody s' r w') w')))"
      using assms by (simp_all add: reverse_proxy_def Answered x releaseBody_Close_def split_beta Let_def
          del: modifyResponse.simps)
    ultimately show ?thesis using m(2,3) [OF x] by (simp add: release_def)
  next
    case (Switching proto ctx)
    obtain s' w' where x: "modifyResponse (build_proxy cd sel) e 101 proto (Some s) w = (Some s', w')"
      by (cases "modifyResponse (build_proxy cd sel) e 101 proto (Some s) w") (simp add: Let_def)
    have y: "errorHandler (build_proxy cd sel) e ctx r (Some s') w' = (Some s1, w1, code)"
      using assms by (simp add: reverse_proxy_def Switching x del: modifyResponse.simps errorHandler.simps)
    show ?thesis using errorHandler_quiet [OF y] m [OF x] quiet_trans by auto
  qed
qed

lemma completeRequest_records:
  assumes "px_metrics p" and "quiet w w1"
  shows "filter is_request_line (logs (completeRequest p e i r s w1)) =
      filter is_request_line (logs w) @ [request_line r (backendName s w) s]"
    and "filter is_request_call (prom (completeRequest p e i r s w1)) =
      filter is_request_call (prom w) @
        [CounterInc lb_requests_total [backendName s w, Method r, statusClass (rs_status s),
           protocol_string (protocolLabel r)],
         HistObserve lb_request_duration_seconds [backendName s w, Method r, statusClass (rs_status s)]
           (time_since (wall e) i)]"
proof -
  have n: "backendName s w1 = backendName s w"
    using assms(2) by (simp add: backendName_def quiet_def split: option.split)
  have n': "backendName s (meter g w1) = backendName s w1" for g
    by (simp add: backendName_def split: option.split)
  show "filter is_request_line (logs (completeRequest p e i r s w1)) =
      filter is_request_line (logs w) @ [request_line r (backendName s w) s]"
    "filter is_request_call (prom (completeRequest p e i r s w1)) =
      filter is_request_call (prom w) @
        [CounterInc lb_requests_total [backendName s w, Method r, statusClass (rs_status s),
           protocol_string (protocolLabel r)],
         HistObserve lb_request_duration_seconds [backendName s w, Method r, statusClass (rs_status s)]
           (time_since (wall e) i)]"
    using assms by (simp_all add: completeRequest_def logRequest_def observeRequest_def ObserveRequest_def
        quiet_def n n' is_request_line_def request_line_def)
qed


section \<open>A departure can open a second trial\<close>

text \<open>
  C34. A client that leaves re-arms the trial slot even when the trial is another request's: with a
  trial in flight (the slot is taken and nobody is admitted), the error handler of an older
  request to the same backend, whose client has left, frees the slot, and the next request is
  admitted as a second trial beside the first.
\<close>

theorem stale_departure_admits_second_trial:
  fixes w :: "'a outlier_world_scheme"
  assumes "windows_wf w" and "circuits_wf w" and "trial_taken w b" and "rs_backend old = Some b"
    and "client_done ctx" and "\<not> drained ctx"
  shows "\<not> snd (Breaker_Allow cd now b w) \<and>
    snd (Breaker_Allow cd now b (fst (snd (errorHandler (build_proxy cd sel) e ctx r (Some old) w))))"
proof -
  have "bstate (heap (fst (snd (errorHandler (build_proxy cd sel) e ctx r (Some old) w))) b) = HalfOpen False"
    using error_tiers [OF assms(4,1,2), where e = e and ctx = ctx and req = r and cd = cd and sel = sel]
      assms(3,5,6) by (simp add: trial_taken_def del: errorHandler.simps)
  then show ?thesis
    using assms(3) by (simp add: Breaker_Allow_answer CircuitAllow_bstate trial_taken_def del: errorHandler.simps)
qed

definition sample_trial :: outlier_world where
  "sample_trial = on_backend 0
     (\<lambda>bk. bk\<lparr>circuit := Some \<lparr>state = circuitHalfOpen, failures = 0, trial = True, openedAt = 0\<rparr>\<rparr>)
     sample_outlier"

theorem stale_departure_admits_second_trial_witness:
  "snd (Breaker_Allow 5 (\<lambda>b. 0) 0 (fst (snd (errorHandler (build_proxy 5 SelP2C) sample_env
     (client_leaves live_ctx) sample_request (Some sample_state) sample_trial))))"
proof -
  have a: "windows_wf sample_trial"
    using sample_windows_wf windows_wf_same [of sample_trial sample_outlier] by (simp add: sample_trial_def)
  have b: "circuits_wf sample_trial"
    using sample_circuits_wf
    by (auto simp: circuits_wf_def sample_trial_def circuit_wf_def deref_snapshot_def)
  have c: "trial_taken sample_trial 0"
    by (simp add: trial_taken_def sample_trial_def circuit_abs_defs)
  have d: "rs_backend sample_state = Some 0" "client_done (client_leaves live_ctx)" "\<not> drained (client_leaves live_ctx)"
    by (simp_all add: sample_state_def live_ctx_def client_leaves_def drained_def)
  show ?thesis
    using stale_departure_admits_second_trial [OF a b c d, where cd = 5 and now = "\<lambda>b. 0" and sel = SelP2C
        and e = sample_env and r = sample_request]
    by (simp del: errorHandler.simps)
qed

end
