(* ===== verification/Drain.thy ===== *)
theory Drain
  imports Request
begin

text \<open>
  Draining a removed backend, \<open>internal/app/drain.go\<close>. A drain goroutine does something
  only when its \<open>select\<close> wakes up, so it is a machine over wake-ups, each run in the world the
  other goroutines have left: shutdown, the end of the window (with what \<open>ctx.Err()\<close> says
  when the timer is read and when \<open>drainBackend\<close> looks again), or a tick of the poll ticker.
\<close>

definition drainPollInterval :: duration where "drainPollInterval = 100000000"

section \<open>Waiting for the active count\<close>

datatype wake = CtxDone | WindowElapsed bool bool | Tick

text \<open>One turn of the loop of \<open>waitActiveZero\<close>; \<open>None\<close> goes around again.\<close>

fun wait_turn :: "wake \<Rightarrow> int \<Rightarrow> bool option" where
  "wait_turn CtxDone act = Some False"
| "wait_turn (WindowElapsed err later) act = Some (if err then False else act = 0)"
| "wait_turn Tick act = (if act = 0 then Some True else None)"

text \<open>
  \<open>waitActiveZero\<close> over the wake-ups it sees, each with the count it then reads; \<open>None\<close> while it
  has not returned. Without a timeout there is no timer to wake it.
\<close>

fun wait_loop :: "duration \<Rightarrow> (wake \<times> int) list \<Rightarrow> bool option" where
  "wait_loop timeout [] = None"
| "wait_loop timeout ((WindowElapsed err later, act) # evs) =
     (if timeout > 0 then wait_turn (WindowElapsed err later) act else wait_loop timeout evs)"
| "wait_loop timeout ((ev, act) # evs) =
     (case wait_turn ev act of Some r \<Rightarrow> Some r | None \<Rightarrow> wait_loop timeout evs)"

definition waitActiveZero :: "duration \<Rightarrow> int \<Rightarrow> (wake \<times> int) list \<Rightarrow> bool option" where
  "waitActiveZero timeout act evs = (if act = 0 then Some True else wait_loop timeout evs)"

section \<open>Finishing a drain\<close>

fun name_loop :: "string \<Rightarrow> bid list \<Rightarrow> 'a world_scheme \<Rightarrow> bool" where
  "name_loop name [] w = False"
| "name_loop name (b # bs) w = (if Name (heap w b) = name then True else name_loop name bs w)"

definition backendNameInUse :: "string \<Rightarrow> 'a world_scheme \<Rightarrow> bool" where
  "backendNameInUse name w = name_loop name (All w) w"

lemma backendNameInUse_iff: "backendNameInUse name w \<longleftrightarrow> (\<exists>b \<in> set (All w). Name (heap w b) = name)"
proof -
  have "name_loop name bs w \<longleftrightarrow> (\<exists>b \<in> set bs. Name (heap w b) = name)" for bs
    by (induction bs) auto
  then show ?thesis by (simp add: backendNameInUse_def)
qed

definition drained_line :: "string \<Rightarrow> reason \<Rightarrow> int \<Rightarrow> log_line" where
  "drained_line name rs cancelled =
     \<lparr>log_level = (if rs = ReasonWindowExpired then LevelWarn else LevelInfo),
      log_msg = ''backend drained'',
      log_attrs = [(''event'', VStr (event_name EventBackendDrained)), (''backend'', VStr name),
                   (''reason'', VStr (reason_name rs)), (''cancelled'', VInt cancelled)]\<rparr>"

definition completeDrain :: "bid \<Rightarrow> reason \<Rightarrow> int \<Rightarrow> 'a world_scheme \<Rightarrow> 'a world_scheme" where
  "completeDrain b rs cancelled w =
     (let name = Name (heap w b);
          w1 = (if \<not> backendNameInUse name w then meter (DeleteActiveRequests name) w else w)
      in log (drained_line name rs cancelled) w1)"

section \<open>The drain machine\<close>

datatype drain_phase = Draining | Cutting int | Drained | Abandoned

text \<open>Entering a wait: the count is read before the loop.\<close>

definition drain_retire :: "bid \<Rightarrow> 'a world_scheme \<Rightarrow> drain_phase \<times> 'a world_scheme" where
  "drain_retire b w =
     (let cancelled = ActiveConns (heap w b);
          w1 = on_backend b Retire w
      in if ActiveConns (heap w1 b) = 0
         then (Drained, completeDrain b ReasonWindowExpired cancelled w1)
         else (Cutting cancelled, w1))"

definition drain_begin :: "bid \<Rightarrow> 'a world_scheme \<Rightarrow> drain_phase \<times> 'a world_scheme" where
  "drain_begin b w =
     (if ActiveConns (heap w b) = 0 then (Drained, completeDrain b ReasonIdle 0 w) else (Draining, w))"

text \<open>
  One wake-up of \<open>drainBackend\<close> with drain window \<open>window\<close>.
\<close>

fun ctx_err_after :: "wake \<Rightarrow> bool" where
  "ctx_err_after CtxDone = True"
| "ctx_err_after (WindowElapsed err later) = (err \<or> later)"
| "ctx_err_after Tick = False"

fun drain_wake ::
  "bid \<Rightarrow> duration \<Rightarrow> wake \<Rightarrow> drain_phase \<times> 'a world_scheme \<Rightarrow> drain_phase \<times> 'a world_scheme" where
  "drain_wake b window ev (Draining, w) =
     (case wait_loop window [(ev, ActiveConns (heap w b))] of
        None \<Rightarrow> (Draining, w)
      | Some True \<Rightarrow> (Drained, completeDrain b ReasonIdle 0 w)
      | Some False \<Rightarrow> if ctx_err_after ev then (Abandoned, w) else drain_retire b w)"
| "drain_wake b window ev (Cutting cancelled, w) =
     (case wait_loop 0 [(ev, ActiveConns (heap w b))] of
        None \<Rightarrow> (Cutting cancelled, w)
      | Some True \<Rightarrow> (Drained, completeDrain b ReasonWindowExpired cancelled w)
      | Some False \<Rightarrow> (Abandoned, w))"
| "drain_wake b window ev (Drained, w) = (Drained, w)"
| "drain_wake b window ev (Abandoned, w) = (Abandoned, w)"

text \<open>\<open>wait_loop\<close> goes through its wake-ups one at a time, as the machine does.\<close>

lemma wait_loop_step:
  "wait_loop t (ev # evs) = (case wait_loop t [ev] of Some r \<Rightarrow> Some r | None \<Rightarrow> wait_loop t evs)"
proof (cases ev)
  case (Pair k a)
  then show ?thesis by (cases k) auto
qed

section \<open>What a drain does and when\<close>

text \<open>
  The outcome a drain has reported: \<open>None\<close> while it waits or when it was abandoned.
\<close>

definition finishes :: "bid \<Rightarrow> 'a world_scheme \<Rightarrow> reason \<Rightarrow> int \<Rightarrow> 'a world_scheme \<Rightarrow> bool" where
  "finishes b w rs n w' \<longleftrightarrow>
     logs w' = logs w @ [drained_line (Name (heap w b)) rs n] \<and>
     prom w' = (if backendNameInUse (Name (heap w b)) w then prom w
                else DeleteActiveRequests (Name (heap w b)) (prom w))"

lemma completeDrain_finishes:
  "finishes b w rs n (completeDrain b rs n w)" "heap (completeDrain b rs n w) = heap w"
  by (simp_all add: finishes_def completeDrain_def Let_def)

text \<open>
  What one wake-up of a drain does. It reports \<open>idle\<close> exactly when it wakes, not for shutdown,
  before the window is known to have expired and finds no active request; it retires the backend
  exactly when the window has elapsed, the process is not shutting down and requests are still
  active, and then reports those as cancelled as soon as a wake-up finds none left; shutdown
  abandons the drain without a report. It never touches health, circuit, estimate or slots.
\<close>

theorem drain_wake_spec:
  fixes b window ev d and w :: "'a outlier_world_scheme"
  assumes "0 < window"
  defines "d' \<equiv> fst (drain_wake b window ev (d, w))" and "w' \<equiv> snd (drain_wake b window ev (d, w))"
    and "n \<equiv> active (heap w b)"
  shows "untouched w w' \<and> slots_kept w (w'\<lparr>heap := \<lambda>c. (heap w' c)\<lparr>retiredCtx := retiredCtx (heap w c)\<rparr>\<rparr>)
    \<and> (case d of
         Draining \<Rightarrow>
           (case ev of
              CtxDone \<Rightarrow> d' = Abandoned \<and> w' = w
            | WindowElapsed err later \<Rightarrow>
                if \<not> err \<and> n = 0 then d' = Drained \<and> heap w' = heap w \<and> finishes b w ReasonIdle 0 w'
                else if err \<or> later then d' = Abandoned \<and> w' = w
                else d' = Cutting n \<and> w' = on_backend b Retire w
            | Tick \<Rightarrow>
                if n = 0 then d' = Drained \<and> heap w' = heap w \<and> finishes b w ReasonIdle 0 w'
                else d' = Draining \<and> w' = w)
       | Cutting c \<Rightarrow>
           (case ev of
              CtxDone \<Rightarrow> d' = Abandoned \<and> w' = w
            | WindowElapsed err later \<Rightarrow> d' = Cutting c \<and> w' = w
            | Tick \<Rightarrow>
                if n = 0 then d' = Drained \<and> heap w' = heap w \<and> finishes b w ReasonWindowExpired c w'
                else d' = Cutting c \<and> w' = w)
       | _ \<Rightarrow> d' = d \<and> w' = w)"
proof -
  have c: "untouched w (completeDrain b rs m w)" "slots_kept w (completeDrain b rs m w)" for rs m
    by (simp_all add: completeDrain_def Let_def untouched_def slots_kept_def)
  have r: "untouched w (on_backend b Retire w)" by (simp add: untouched_def)
  have u: "untouched w w'"
    using assms(1) c r by (cases d; cases ev)
      (auto simp: w'_def drain_retire_def ActiveConns_def Let_def split: bool.split)
  have s: "slots_kept w (w'\<lparr>heap := \<lambda>c. (heap w' c)\<lparr>retiredCtx := retiredCtx (heap w c)\<rparr>\<rparr>)"
    using assms(1) by (cases d; cases ev)
      (auto simp: w'_def drain_retire_def ActiveConns_def Let_def completeDrain_def slots_kept_def split: bool.split)
  show ?thesis
    using assms(1) u s
    by (cases d; cases ev)
      (auto simp: w'_def d'_def n_def drain_retire_def ActiveConns_def completeDrain_finishes Let_def split: bool.split)
qed

theorem drain_wake_spec_witness:
  "drain_wake 0 5 Tick (Draining, sample_outlier) = (Drained, completeDrain 0 ReasonIdle 0 sample_outlier) \<and>
   finishes 0 sample_outlier ReasonIdle 0 (snd (drain_wake 0 5 Tick (Draining, sample_outlier)))"
proof -
  have a: "active (heap sample_outlier 0) = 0"
    by (simp add: sample_outlier_def sample_world_def fresh_backend_def)
  have "(0 :: duration) < 5" by simp
  from drain_wake_spec [OF this, where b = 0 and ev = Tick and d = Draining and w = sample_outlier]
  show ?thesis using a by (simp add: ActiveConns_def)
qed

section \<open>Retirement reaches the requests\<close>


definition sample_draining :: outlier_world where
  "sample_draining = on_backend 0 (\<lambda>bk. bk\<lparr>removed := True, active := 1, retiredCtx := Some None\<rparr>) sample_outlier"


section \<open>A release that straddles the end of a drain\<close>

text \<open>
  C35. A slot is given back in two steps, the counter and then the gauge. If the drain of the last
  slot's backend polls between them, it finds the count at zero, deletes the series and ends; the
  gauge step then recreates the series at \<open>-1\<close>, and nothing deletes it again.
\<close>

theorem drain_race_leaves_negative_gauge:
  fixes w :: "'a outlier_world_scheme" and b s window
  assumes "gauge_vec_doc rd" and "active (heap w b) = 1" and "\<not> backendNameInUse (Name (heap w b)) w"
    and "rs_backend s = Some b" and "rs_metrics s" and "\<not> released s"
  defines "w1 \<equiv> on_backend b DecActive w"
    and "dr \<equiv> drain_wake b window Tick (Draining, on_backend b DecActive w)"
    and "last_step \<equiv> meter (DecActiveRequests (Name (heap w b)))"
  shows "release s w = (s\<lparr>released := True\<rparr>, last_step w1)
    \<and> fst dr = Drained \<and> rd (prom (last_step (snd dr))) lb_active_requests [Name (heap w b)] = Some (- 1)"
proof -
  have z: "active (heap w1 b) = 0" "Name (heap w1 b) = Name (heap w b)"
    using assms(2) wrap64_id [of 0] by (simp_all add: w1_def DecActive_def in_int64_def)
  have nu: "\<not> backendNameInUse (Name (heap w b)) w1"
    using assms(3) by (auto simp: backendNameInUse_iff All_def w1_def DecActive_def)
  have d: "dr = (Drained, completeDrain b ReasonIdle 0 w1)"
    using z(1) by (simp add: dr_def w1_def [symmetric] ActiveConns_def)
  have p: "prom (snd dr) = DeleteActiveRequests (Name (heap w b)) (prom w1)"
    using nu by (simp add: d completeDrain_def z Let_def)
  have r: "rd (prom (last_step (snd dr))) lb_active_requests [Name (heap w b)] = Some (- 1)"
    by (simp add: last_step_def p DeleteActiveRequests_def DecActiveRequests_def gauge_vec_doc_append [OF assms(1)])
  have "release s w = (s\<lparr>released := True\<rparr>, last_step w1)"
    using assms(4-6) by (simp add: release_def w1_def last_step_def Let_def) (simp add: DecActive_def)
  with r d show ?thesis by simp
qed

theorem drain_race_leaves_negative_gauge_witness:
  "gauge_read (prom (meter (DecActiveRequests ''a'') (snd (drain_wake 0 5 Tick (Draining,
     on_backend 0 DecActive (sample_draining\<lparr>snap := \<lparr>version = 2, backends = [1]\<rparr>\<rparr>))))))
     lb_active_requests [''a''] = Some (- 1)"
proof -
  let ?w = "sample_draining\<lparr>snap := \<lparr>version = 2, backends = [1]\<rparr>\<rparr>"
  have n: "Name (heap ?w 0) = ''a''" "active (heap ?w 0) = 1" "\<not> backendNameInUse (Name (heap ?w 0)) ?w"
    by (auto simp: backendNameInUse_iff All_def sample_draining_def sample_outlier_def sample_world_def
        fresh_backend_def)
  have s: "rs_backend sample_state = Some 0" "rs_metrics sample_state" "\<not> released sample_state"
    by (simp_all add: sample_state_def newReqState_def)
  show ?thesis
    using drain_race_leaves_negative_gauge [OF gauge_vec_doc_gauge_read n(2,3) s, where window = 5]
    unfolding n(1) by blast
qed

end
