(* ===== verification/App.thy ===== *)
theory App
  imports Drain
begin

text \<open>
  The application, \<open>internal/app/app.go\<close>: building the whole graph from a validated
  configuration, and the reload operation that replaces the running backend set. A reload holds
  one mutex from start to end, so it is one operation; the drains it starts are listed and run as
  machines of their own. Dereferencing a nil pointer of the configuration is a panic, the value
  \<open>None\<close>. The texts of errors and the HTTP servers' sockets are not modelled.
\<close>

section \<open>Settings of the client server and the backend transport\<close>

definition shutdownTimeout :: duration where "shutdownTimeout = 10 * second"
definition readHeaderTimeout :: duration where "readHeaderTimeout = 5 * second"

datatype server_handler = ProxyHandler | H2CHandler | MetricsHandler | HealthHandler

record 'c http_server =
  Addr :: string
  Handler :: server_handler
  ReadHeaderTimeout :: duration
  SrvIdleTimeout :: duration
  SrvReadTimeout :: duration
  Certificate :: "'c option"

datatype build_error = RegistryBuild registry_error | SelectorBuild string | KeyPairLoad string string

definition buildClientServer ::
  "(string \<Rightarrow> string \<Rightarrow> 'c option) \<Rightarrow> Config \<Rightarrow> server_handler \<Rightarrow> (build_error + 'c http_server) option" where
  "buildClientServer loadPair cfg handler =
     (case IdleTimeout (Server cfg) of
        None \<Rightarrow> None
      | Some idle \<Rightarrow>
          (let srv = \<lparr>Addr = Listen cfg, Handler = handler, ReadHeaderTimeout = readHeaderTimeout,
                      SrvIdleTimeout = idle, SrvReadTimeout = 0, Certificate = None\<rparr>
           in case TLS cfg of
                Some t \<Rightarrow>
                  (case loadPair (CertFile t) (KeyFile t) of
                     None \<Rightarrow> Some (Inl (KeyPairLoad (CertFile t) (KeyFile t)))
                   | Some cert \<Rightarrow> Some (Inr (srv\<lparr>Certificate := Some cert\<rparr>)))
              | None \<Rightarrow>
                  if H2C cfg then Some (Inr srv)
                  else case ReadTimeout (Server cfg) of
                         None \<Rightarrow> None
                       | Some rt \<Rightarrow> Some (Inr (srv\<lparr>SrvReadTimeout := rt\<rparr>))))"

record http_transport =
  DialerTimeout :: duration
  HeaderTimeout :: duration
  IdlePerHost :: int
  IdleTotal :: int
  IdleTimeoutConn :: duration
  ForceAttemptHTTP2 :: bool
  InsecureSkipVerify :: bool

definition buildTransport :: "Config \<Rightarrow> http_transport option" where
  "buildTransport cfg =
     (let t = Transport cfg
      in case (MaxIdleConnsPerHost t, DialTimeout t, ResponseHeaderTimeout t, IdleConnTimeout t, ForceHTTP2 t) of
           (Some perHost, Some dial, Some header, Some idle, Some h2) \<Rightarrow>
             Some \<lparr>DialerTimeout = dial, HeaderTimeout = header, IdlePerHost = perHost,
                   IdleTotal = wrap64 (perHost * int (length (Backends cfg))), IdleTimeoutConn = idle,
                   ForceAttemptHTTP2 = h2, InsecureSkipVerify = TLSSkipVerify t\<rparr>
         | _ \<Rightarrow> None)"

text \<open>The other two listeners: always plain, nothing set but the address and the header timeout.\<close>

definition plain_server :: "string \<Rightarrow> server_handler \<Rightarrow> 'c http_server" where
  "plain_server addr handler =
     \<lparr>Addr = addr, Handler = handler, ReadHeaderTimeout = readHeaderTimeout, SrvIdleTimeout = 0,
      SrvReadTimeout = 0, Certificate = None\<rparr>"

text \<open>A server with a certificate serves TLS.\<close>

definition serves_tls :: "'c http_server \<Rightarrow> bool" where
  "serves_tls srv \<longleftrightarrow> Certificate srv \<noteq> None"

section \<open>The application\<close>

definition seedMetrics :: "'a world_scheme \<Rightarrow> 'a world_scheme" where
  "seedMetrics w =
     foldl (\<lambda>w b. meter (SetCircuitState (Name (heap w b)) CircuitStateClosed)
                   (meter (SetBackendHealthy (Name (heap w b)) True)
                     (meter (SetActiveRequests (Name (heap w b)) 0) w))) w (All w)"

datatype reload_error =
    LoadFailed
  | ValidationFailed config_error
  | NonBackendFields "string list"
  | ReloadSelector string
  | ReloadApply registry_error

datatype reload_result = ReloadResultNone | ReloadResultSuccess | ReloadResultRejected

record ReloadStatus =
  Result :: reload_result
  ReloadTime :: "instant option"
  ReloadError :: "reload_error option"

record ('c, 'w) app =
  proxy :: "(selector_state, 'w) Proxy"
  checker :: Checker
  loadedCfg :: Config
  lastReload :: "ReloadStatus option"
  runCtx :: bool
  drains :: "(bid \<times> duration) list"
  clientSrv :: "'c http_server"
  metricsSrv :: "'c http_server"
  healthSrv :: "'c http_server"
  transport :: http_transport

definition Build ::
  "(string \<Rightarrow> url option) \<Rightarrow> (string \<Rightarrow> string \<Rightarrow> 'c option) \<Rightarrow> Config \<Rightarrow> 'a outlier_world_scheme
     \<Rightarrow> (build_error + ('c, 'a outlier_world_scheme) app \<times> 'a outlier_world_scheme) option" where
  "Build parse loadPair cfg w0 =
     (let w = w0\<lparr>prom := NewCollector\<rparr>
      in case NewRegistry parse (Backends cfg) w of
        (w, Inl e) \<Rightarrow> Some (Inl (RegistryBuild e))
      | (w, Inr u) \<Rightarrow>
          (let w = seedMetrics w
           in case Cooldown (Circuit cfg) of
                None \<Rightarrow> None
              | Some cooldown \<Rightarrow>
                  (case NewFromConfig cfg w of
                     Inl a \<Rightarrow> Some (Inl (SelectorBuild a))
                   | Inr sel \<Rightarrow>
                       (case buildTransport cfg of
                          None \<Rightarrow> None
                        | Some tr \<Rightarrow>
                            (let w = meter (SetAlgorithm '''' (Algorithm cfg)) w;
                                 p = build_proxy cooldown sel;
                                 w = w\<lparr>windows := Map.empty\<rparr>
                             in case (ProbeInterval (Health cfg), ProbeTimeout (Health cfg)) of
                                  (Some interval, Some timeout) \<Rightarrow>
                                    (let ch = NewChecker w;
                                         clientHandler = (if H2C cfg then H2CHandler else ProxyHandler)
                                     in case buildClientServer loadPair cfg clientHandler of
                                          None \<Rightarrow> None
                                        | Some (Inl e) \<Rightarrow> Some (Inl e)
                                        | Some (Inr srv) \<Rightarrow>
                                            (case (EndpointListen (HealthEndpoint cfg), MetricsListen (Metrics cfg)) of
                                               (Some hl, Some ml) \<Rightarrow>
                                                 Some (Inr (\<lparr>proxy = p, checker = ch, loadedCfg = cfg,
                                                   lastReload = None, runCtx = False, drains = [],
                                                   clientSrv = srv, metricsSrv = plain_server ml MetricsHandler,
                                                   healthSrv = plain_server hl HealthHandler,
                                                   transport = tr\<rparr>, w))
                                             | _ \<Rightarrow> None))
                                | _ \<Rightarrow> None)))))"

section \<open>The reload operation\<close>

definition reload_failed_line :: "log_level \<Rightarrow> reason \<Rightarrow> (string \<times> log_value) \<Rightarrow> log_line" where
  "reload_failed_line lv rs extra =
     \<lparr>log_level = lv, log_msg = ''config reload failed'',
      log_attrs = [(''event'', VStr (event_name EventConfigReloadFailed)),
                   (''reason'', VStr (reason_name rs)), extra]\<rparr>"

fun reload_removed ::
  "duration option \<Rightarrow> bid list \<Rightarrow> ('c, 'a outlier_world_scheme) app \<times> 'a outlier_world_scheme
     \<Rightarrow> (('c, 'a outlier_world_scheme) app \<times> 'a outlier_world_scheme) option" where
  "reload_removed window [] aw = Some aw"
| "reload_removed window (b # bs) (a, w) =
     (let (ch, w) = Remove b (checker a, w);
          w = Forget b w;
          w = meter (DeleteBackendHealthy (Name (heap w b))) w;
          w = meter (DeleteCircuitState (Name (heap w b))) w
      in case window of
           None \<Rightarrow> None
         | Some dw \<Rightarrow> reload_removed window bs (a\<lparr>checker := ch, drains := drains a @ [(b, dw)]\<rparr>, w))"

definition reload_seed :: "string set \<Rightarrow> bid \<Rightarrow> 'a world_scheme \<Rightarrow> 'a world_scheme" where
  "reload_seed removedNames b w =
     (let w = (if Name (heap w b) \<in> removedNames then w else meter (SetActiveRequests (Name (heap w b)) 0) w);
          w = meter (SetBackendHealthy (Name (heap w b)) False) w
      in meter (SetCircuitState (Name (heap w b)) CircuitStateClosed) w)"

definition reload_added ::
  "bid list \<Rightarrow> ('c, 'a outlier_world_scheme) app \<times> 'a outlier_world_scheme
     \<Rightarrow> ('c, 'a outlier_world_scheme) app \<times> 'a outlier_world_scheme" where
  "reload_added bs aw =
     foldl (\<lambda>(a, w) b. let (ch, w) = Add b (checker a, w) in (a\<lparr>checker := ch\<rparr>, w)) aw bs"

definition reloaded_line :: "BackendDiff \<Rightarrow> bid list \<Rightarrow> bid list \<Rightarrow> (string \<times> string) option \<Rightarrow> log_line" where
  "reloaded_line diff added rmd algs =
     \<lparr>log_level = (if length (Unchanged diff) = 0 then LevelWarn else LevelInfo),
      log_msg = ''config reloaded'',
      log_attrs = [(''event'', VStr (event_name EventConfigReloaded)), (''added'', VInt (int (length added))),
        (''removed'', VInt (int (length rmd))), (''unchanged'', VInt (int (length (Unchanged diff))))] @
        (case algs of None \<Rightarrow> []
         | Some (prev, cur) \<Rightarrow> [(''previous_algorithm'', VStr prev), (''algorithm'', VStr cur)])\<rparr>"

definition reloadLocked ::
  "(string \<Rightarrow> url option) \<Rightarrow> Config \<Rightarrow> ('c, 'a outlier_world_scheme) app \<times> 'a outlier_world_scheme
     \<Rightarrow> ((('c, 'a outlier_world_scheme) app \<times> 'a outlier_world_scheme) \<times> reload_error option) option" where
  "reloadLocked parse cfg aw =
     (let (a, w) = aw; oldCfg = loadedCfg a
      in case NonBackendChanges oldCfg cfg of
        None \<Rightarrow> None
      | Some (f # fs) \<Rightarrow>
          Some ((a, log (reload_failed_line LevelWarn ReasonNonBackendChange (''fields'', VStrs (f # fs))) w),
            Some (NonBackendFields (f # fs)))
      | Some [] \<Rightarrow>
          (case (if Algorithm cfg \<noteq> Algorithm oldCfg
                 then map_sum id Some (NewFromConfig cfg w) else Inr None) of
             Inl e \<Rightarrow>
               Some ((a, log (reload_failed_line LevelError ReasonApplyError (''err'', VErr)) w),
                 Some (ReloadSelector e))
           | Inr nextSel \<Rightarrow>
               (let diff = DiffBackends oldCfg cfg
                in case Apply parse diff (Backends cfg) w of
                     (w, Inl e) \<Rightarrow>
                       Some ((a, log (reload_failed_line LevelError ReasonApplyError (''err'', VErr)) w),
                         Some (ReloadApply e))
                   | (w, Inr (added, rmd)) \<Rightarrow>
                       (let (a, w) = (case nextSel of
                              None \<Rightarrow> (a, w)
                            | Some sel \<Rightarrow> (a\<lparr>proxy := SetSelector sel (proxy a)\<rparr>,
                                meter (SetAlgorithm (Algorithm oldCfg) (Algorithm cfg)) w));
                            a = a\<lparr>loadedCfg := cfg\<rparr>
                        in case reload_removed (DrainWindow (Reload cfg)) rmd (a, w) of
                             None \<Rightarrow> None
                           | Some (a, w) \<Rightarrow>
                               (let removedNames = set (map (\<lambda>b. Name (heap w b)) rmd);
                                    w = foldl (\<lambda>w b. reload_seed removedNames b w) w added;
                                    (a, w) = reload_added added (a, w)
                                in Some ((a, log (reloaded_line diff added rmd
                                      (map_option (\<lambda>s. (Algorithm oldCfg, Algorithm cfg)) nextSel)) w), None))))))"

definition recordReload ::
  "instant \<Rightarrow> reload_error option \<Rightarrow> ('c, 'w) app \<Rightarrow> ('c, 'w) app" where
  "recordReload now err a =
     a\<lparr>lastReload := Some
        (case err of
           None \<Rightarrow> \<lparr>Result = ReloadResultSuccess, ReloadTime = Some now, ReloadError = None\<rparr>
         | Some e \<Rightarrow> \<lparr>Result = ReloadResultRejected, ReloadTime = Some now, ReloadError = Some e\<rparr>)\<rparr>"

definition ReloadApp ::
  "(string \<Rightarrow> url option) \<Rightarrow> instant \<Rightarrow> Config \<Rightarrow> ('c, 'a outlier_world_scheme) app \<times> 'a outlier_world_scheme
     \<Rightarrow> ((('c, 'a outlier_world_scheme) app \<times> 'a outlier_world_scheme) \<times> reload_error option) option" where
  "ReloadApp parse now cfg aw =
     map_option (\<lambda>((a, w), err). ((recordReload now err a, w), err)) (reloadLocked parse cfg aw)"

end
