(* ===== verification/Reload.thy ===== *)
theory Reload
  imports App
begin

text \<open>
  What a reload keeps and what it changes. The application invariant ties the parts together:
  the registry serves the loaded configuration, the checker probes exactly its backends once the
  application runs, and the proxy runs a selector of the configured algorithm. A reload attempt
  either installs the new file completely or changes nothing but the log and the recorded outcome.
\<close>

section \<open>The loops of a reload\<close>

lemma meter_windows [simp]: "windows (meter f w) = windows w"
  by simp

lemma Forget_fields [simp]:
  "heap (Forget b w) = heap w" "snap (Forget b w) = snap w" "nextbid (Forget b w) = nextbid w"
  "windows (Forget b w) = (windows w)(b := None)" "logs (Forget b w) = logs w" "prom (Forget b w) = prom w"
  by (simp_all add: Forget_def)

lemma restrict_drop: "(\<lambda>a. if a = b then None else m a) |` (- S) = m |` (- insert b S)"
  by (auto simp: restrict_map_def fun_eq_iff)

lemma reload_removed_spec:
  "\<exists>w'. reload_removed (Some dw) bs (a, w) =
      Some (a\<lparr>checker := (checker a)\<lparr>probers := (probers (checker a)) |` (- set bs)\<rparr>,
              drains := drains a @ map (\<lambda>b. (b, dw)) bs\<rparr>, w')
    \<and> heap w' = heap w \<and> snap w' = snap w \<and> nextbid w' = nextbid w \<and> logs w' = logs w
    \<and> windows w' = (windows w) |` (- set bs)"
proof (induction bs arbitrary: a w)
  case Nil
  have "(probers (checker a)) |` UNIV = probers (checker a)" "(windows w) |` UNIV = windows w"
    by (auto simp: restrict_map_def)
  then show ?case by (intro exI [of _ w]) simp
next
  case (Cons b bs)
  define w1 where "w1 = meter (DeleteCircuitState (Name (heap w b))) (meter (DeleteBackendHealthy (Name (heap w b)))
    (Forget b w))"
  have w1: "heap w1 = heap w" "snap w1 = snap w" "nextbid w1 = nextbid w" "logs w1 = logs w"
    "windows w1 = (windows w)(b := None)"
    by (simp_all add: w1_def)
  show ?case
    using Cons.IH [of "a\<lparr>checker := (checker a)\<lparr>probers := (probers (checker a))(b := None)\<rparr>,
        drains := drains a @ [(b, dw)]\<rparr>" w1] w1
    by (simp add: Remove_def Let_def w1_def restrict_drop)
qed

lemma reload_seeds_frame:
  "heap (foldl (\<lambda>w b. reload_seed ns b w) w bs) = heap w \<and> snap (foldl (\<lambda>w b. reload_seed ns b w) w bs) = snap w
   \<and> nextbid (foldl (\<lambda>w b. reload_seed ns b w) w bs) = nextbid w \<and> logs (foldl (\<lambda>w b. reload_seed ns b w) w bs) = logs w
   \<and> windows (foldl (\<lambda>w b. reload_seed ns b w) w bs) = windows (w :: 'a outlier_world_scheme)"
  by (induction bs arbitrary: w) (simp_all add: reload_seed_def Let_def)

lemma reload_added_spec:
  "\<exists>m w'. reload_added bs (a, w) = (a\<lparr>checker := (checker a)\<lparr>probers := m\<rparr>\<rparr>, w')
    \<and> dom m = dom (probers (checker a)) \<union> set bs
    \<and> (\<forall>b. heap w' b = heap w b \<or> b \<in> set bs \<and> heap w' b = MarkUnhealthy (heap w b))
    \<and> snap w' = snap w \<and> nextbid w' = nextbid w \<and> logs w' = logs w \<and> windows w' = windows w \<and> prom w' = prom w"
proof (induction bs arbitrary: a w)
  case Nil
  show ?case by (intro exI [of _ "probers (checker a)"] exI [of _ w]) (simp add: reload_added_def)
next
  case (Cons b bs)
  define m1 where "m1 = (case probers (checker a) b of Some p \<Rightarrow> probers (checker a)
    | None \<Rightarrow> (probers (checker a))(b \<mapsto> newProber\<lparr>p_added := True\<rparr>))"
  define w1 where "w1 = (case probers (checker a) b of Some p \<Rightarrow> w | None \<Rightarrow> on_backend b MarkUnhealthy w)"
  have step: "reload_added (b # bs) (a, w) =
      reload_added bs (a\<lparr>checker := (checker a)\<lparr>probers := m1\<rparr>\<rparr>, w1)"
    by (simp add: reload_added_def Add_def checker_add_def m1_def w1_def Let_def split: option.split)
  have m1: "dom m1 = insert b (dom (probers (checker a)))"
    by (auto simp: m1_def split: option.split)
  have w1: "\<forall>c. heap w1 c = heap w c \<or> c = b \<and> heap w1 c = MarkUnhealthy (heap w c)"
    "snap w1 = snap w" "nextbid w1 = nextbid w" "logs w1 = logs w" "windows w1 = windows w" "prom w1 = prom w"
    by (auto simp: w1_def split: option.split)
  obtain m w' where IH: "reload_added bs (a\<lparr>checker := (checker a)\<lparr>probers := m1\<rparr>\<rparr>, w1) =
      (a\<lparr>checker := (checker a)\<lparr>probers := m\<rparr>\<rparr>, w')" "dom m = dom m1 \<union> set bs"
    "\<forall>c. heap w' c = heap w1 c \<or> c \<in> set bs \<and> heap w' c = MarkUnhealthy (heap w1 c)"
    "snap w' = snap w1" "nextbid w' = nextbid w1" "logs w' = logs w1" "windows w' = windows w1" "prom w' = prom w1"
    using Cons.IH [of "a\<lparr>checker := (checker a)\<lparr>probers := m1\<rparr>\<rparr>" w1] by auto
  have "heap w' c = heap w c \<or> c \<in> set (b # bs) \<and> heap w' c = MarkUnhealthy (heap w c)" for c
  proof -
    have "MarkUnhealthy (MarkUnhealthy x) = MarkUnhealthy x" for x by (simp add: MarkUnhealthy_def)
    moreover have "heap w1 c = heap w c \<or> c = b \<and> heap w1 c = MarkUnhealthy (heap w c)" using w1(1) by blast
    moreover have "heap w' c = heap w1 c \<or> c \<in> set bs \<and> heap w' c = MarkUnhealthy (heap w1 c)" using IH(3) by blast
    ultimately show ?thesis by auto
  qed
  then show ?case using step IH m1 w1 by (intro exI [of _ m] exI [of _ w']) auto
qed

section \<open>The application invariant\<close>

fun algorithm_of :: "selector_state \<Rightarrow> string" where
  "algorithm_of (SelRoundRobin c) = AlgorithmRoundRobin"
| "algorithm_of SelLeastConnections = AlgorithmLeastConn"
| "algorithm_of (SelConsistentHash r) = AlgorithmConsistentHash"
| "algorithm_of SelP2C = AlgorithmP2CEWMA"

definition app_inv ::
  "(string \<Rightarrow> url option) \<Rightarrow> ('c, 'a outlier_world_scheme) app \<times> 'a outlier_world_scheme \<Rightarrow> bool" where
  "app_inv parse aw \<longleftrightarrow>
     (let (a, w) = aw; cfg = loadedCfg a
      in config_ok parse cfg \<and> resolved cfg \<and> registry_wf w \<and> registry_matches parse w (Backends cfg) \<and>
         dom (probers (checker a)) \<subseteq> set (All w) \<and> (runCtx a \<longrightarrow> dom (probers (checker a)) = set (All w)) \<and>
         (\<exists>sel. proxy a = build_proxy (the (Cooldown (Circuit cfg))) sel \<and> algorithm_of sel = Algorithm cfg))"

lemma registry_frame:
  assumes "snap w' = snap w" and "nextbid w' = nextbid w"
    and "\<forall>b. heap w' b = heap w b \<or> heap w' b = MarkUnhealthy (heap w b)"
  shows "registry_wf w' = registry_wf w" "registry_matches parse w' cfgs = registry_matches parse w cfgs"
proof -
  have f: "Name (heap w' b) = Name (heap w b)" "URL (heap w' b) = URL (heap w b)"
    "removed (heap w' b) = removed (heap w b)" for b
  proof -
    have "heap w' b = heap w b \<or> heap w' b = MarkUnhealthy (heap w b)" using assms(3) by blast
    then show "Name (heap w' b) = Name (heap w b)" "URL (heap w' b) = URL (heap w b)"
      "removed (heap w' b) = removed (heap w b)" by (auto simp: MarkUnhealthy_def)
  qed
  have "serves parse w' = serves parse w" by (simp add: fun_eq_iff serves_def f)
  then show "registry_wf w' = registry_wf w" "registry_matches parse w' cfgs = registry_matches parse w cfgs"
    by (simp_all add: registry_wf_def registry_matches_def assms(1,2) f)
qed

lemma NewFromConfig_algorithm:
  "NewFromConfig cfg w = Inr sel \<Longrightarrow> algorithm_of sel = Algorithm cfg"
  by (auto simp: NewFromConfig_def split: if_splits)

lemma NewFromConfig_known:
  "config_ok parse cfg \<Longrightarrow> Algorithm cfg \<noteq> '''' \<Longrightarrow> \<exists>sel. NewFromConfig cfg w = Inr sel"
  by (auto simp: config_ok_def NewFromConfig_def implementedAlgorithms_def)

section \<open>A reload that is accepted\<close>

text \<open>
  The new file is installed: unchanged backends keep their object with everything in it, removed
  ones are marked and drain under the file's window with their outlier windows forgotten, added
  ones start unhealthy with their series seeded last, and one line reports the counts.
\<close>

definition installed ::
  "(string \<Rightarrow> url option) \<Rightarrow> Config \<Rightarrow> Config \<Rightarrow> ('c, 'a outlier_world_scheme) app \<times> 'a outlier_world_scheme
     \<Rightarrow> ('c, 'a outlier_world_scheme) app \<times> 'a outlier_world_scheme \<Rightarrow> bool" where
  "installed parse old new aw aw' \<longleftrightarrow>
     (let (a, w) = aw; (a', w') = aw'
      in \<exists>w1 added rmd. Apply parse (DiffBackends old new) (Backends new) w = (w1, Inr (added, rmd)) \<and>
           swapped parse (Backends old) (Backends new) w w1 added rmd \<and>
           loadedCfg a' = new \<and> heap w' = heap w1 \<and> snap w' = snap w1 \<and> nextbid w' = nextbid w1 \<and>
           windows w' = (windows w) |` (- set rmd) \<and>
           drains a' = drains a @ map (\<lambda>b. (b, the (DrainWindow (Reload new)))) rmd \<and>
           (\<exists>w2 :: 'a outlier_world_scheme. heap w2 = heap w1 \<and>
              prom w' = prom (foldl (\<lambda>w b. reload_seed (set (map (\<lambda>b. Name (heap w1 b)) rmd)) b w) w2 added)) \<and>
           (\<exists>algs. logs w' = logs w @ [reloaded_line (DiffBackends old new) added rmd algs]))"

lemma added_unhealthy:
  assumes "registry_wf w" and "registry_matches parse w old"
    and sw: "swapped parse old new w w1 added rmd" and b: "b \<in> set added"
  shows "MarkUnhealthy (heap w1 b) = heap w1 b"
proof -
  have "b \<in> set (backends (snap w1))" "\<not> b < nextbid w" using sw b by (auto simp: swapped_def)
  then obtain i where i: "i < length (backends (snap w1))" "backends (snap w1) ! i = b"
    by (auto simp: in_set_conv_nth)
  have l: "list_all2 (\<lambda>cfg b. if cfg \<in> set old then b = address_of w cfg
         else b \<in> set added \<and> heap w1 b = added_backend parse cfg) new (backends (snap w1))"
    using sw by (simp add: swapped_def)
  have "new ! i \<notin> set old"
    using list_all2_nthD2 [OF l i(1)] i(2) registry_addresses(3) [OF assms(1,2), of "new ! i"] \<open>\<not> b < nextbid w\<close>
    by auto
  then have "heap w1 b = added_backend parse (new ! i)"
    using list_all2_nthD2 [OF l i(1)] i(2) by simp
  then show ?thesis by (simp add: added_backend_def MarkUnhealthy_def)
qed

lemma non_backend_same:
  assumes "resolved old" and "resolved new" and "NonBackendChanges old new = Some []"
  shows "Circuit new = Circuit old"
proof -
  have "old\<lparr>Backends := [], Algorithm := []\<rparr> = new\<lparr>Backends := [], Algorithm := []\<rparr>"
    using assms(3) unfolding NonBackendChanges_eq [OF assms(1,2)] same_but_backends_iff by simp
  then have "Circuit (old\<lparr>Backends := [], Algorithm := []\<rparr>) = Circuit (new\<lparr>Backends := [], Algorithm := []\<rparr>)"
    by simp
  then show ?thesis by simp
qed

text \<open>The selector part of an accepted reload.\<close>

lemma reload_selector:
  assumes "p = build_proxy cd sel" and "algorithm_of sel = Algorithm old" and "config_ok parse new"
    and "Algorithm new \<noteq> []"
  obtains nextSel where
    "(if Algorithm new \<noteq> Algorithm old then map_sum id Some (NewFromConfig new w) else Inr None) = Inr nextSel"
    "\<exists>sel'. (case nextSel of None \<Rightarrow> p | Some s \<Rightarrow> SetSelector s p) = build_proxy cd sel'
       \<and> algorithm_of sel' = Algorithm new"
proof (cases "Algorithm new = Algorithm old")
  case True
  then show ?thesis using assms by (intro that [of None]) auto
next
  case False
  obtain s where s: "NewFromConfig new w = Inr s" using NewFromConfig_known [OF assms(3,4)] by blast
  show ?thesis
    using False s assms(1) NewFromConfig_algorithm [OF s]
    by (intro that [of "Some s"]) (auto simp: SetSelector_def)
qed

lemma reload_accepted:
  fixes a :: "('c, 'a outlier_world_scheme) app" and w :: "'a outlier_world_scheme"
  assumes inv: "app_inv parse (a, w)" and ok: "config_ok parse cfg" "resolved cfg" "Algorithm cfg \<noteq> []"
    and same: "NonBackendChanges (loadedCfg a) cfg = Some []"
  shows "\<exists>aw'. reloadLocked parse cfg (a, w) = Some (aw', None) \<and> app_inv parse aw'
    \<and> installed parse (loadedCfg a) cfg (a, w) aw' \<and> lastReload (fst aw') = lastReload a
    \<and> runCtx (fst aw') = runCtx a"
proof -
  define old where "old = loadedCfg a"
  have o: "config_ok parse old" "resolved old" "registry_wf w" "registry_matches parse w (Backends old)"
    "dom (probers (checker a)) \<subseteq> set (All w)" "runCtx a \<Longrightarrow> dom (probers (checker a)) = set (All w)"
    using inv by (simp_all add: app_inv_def old_def Let_def)
  obtain sel where sel: "proxy a = build_proxy (the (Cooldown (Circuit old))) sel" "algorithm_of sel = Algorithm old"
    using inv by (auto simp: app_inv_def old_def Let_def)
  obtain nextSel where ns:
    "(if Algorithm cfg \<noteq> Algorithm old then map_sum id Some (NewFromConfig cfg w) else Inr None) = Inr nextSel"
    "\<exists>sel'. (case nextSel of None \<Rightarrow> proxy a | Some s \<Rightarrow> SetSelector s (proxy a)) =
        build_proxy (the (Cooldown (Circuit old))) sel' \<and> algorithm_of sel' = Algorithm cfg"
    using reload_selector [OF sel ok(1,3)] by blast
  obtain w1 added rmd where ap: "Apply parse (DiffBackends old cfg) (Backends cfg) w = (w1, Inr (added, rmd))"
    and sw: "swapped parse (Backends old) (Backends cfg) w w1 added rmd"
    using Apply_swapped [OF o(3,4,1) ok(1)] by blast
  note reg = swapped_matches [OF o(3,4) ok(1) sw]
  obtain dw where dw: "DrainWindow (Reload cfg) = Some dw" using ok(2) by (auto simp: resolved_def)
  define w2 where "w2 = (case nextSel of None \<Rightarrow> w1 | Some s \<Rightarrow> meter (SetAlgorithm (Algorithm old) (Algorithm cfg)) w1)"
  define a2 where "a2 = a\<lparr>proxy := (case nextSel of None \<Rightarrow> proxy a | Some s \<Rightarrow> SetSelector s (proxy a)), loadedCfg := cfg\<rparr>"
  have w2: "heap w2 = heap w1" "snap w2 = snap w1" "nextbid w2 = nextbid w1" "logs w2 = logs w1" "windows w2 = windows w1"
    by (simp_all add: w2_def split: option.split)
  obtain w3 where rm: "reload_removed (Some dw) rmd (a2, w2) =
      Some (a2\<lparr>checker := (checker a)\<lparr>probers := (probers (checker a)) |` (- set rmd)\<rparr>,
              drains := drains a @ map (\<lambda>b. (b, dw)) rmd\<rparr>, w3)"
    and w3: "heap w3 = heap w1" "snap w3 = snap w1" "nextbid w3 = nextbid w1" "logs w3 = logs w1"
      "windows w3 = (windows w1) |` (- set rmd)"
    using reload_removed_spec [of dw rmd a2 w2] w2 by (auto simp: a2_def)
  define a3 where "a3 = a2\<lparr>checker := (checker a)\<lparr>probers := (probers (checker a)) |` (- set rmd)\<rparr>,
              drains := drains a @ map (\<lambda>b. (b, dw)) rmd\<rparr>"
  define w4 where "w4 = foldl (\<lambda>w b. reload_seed (set (map (\<lambda>b. Name (heap w3 b)) rmd)) b w) w3 added"
  have w4: "heap w4 = heap w1" "snap w4 = snap w1" "nextbid w4 = nextbid w1" "logs w4 = logs w1"
    "windows w4 = (windows w1) |` (- set rmd)"
    using reload_seeds_frame [of "set (map (\<lambda>b. Name (heap w3 b)) rmd)" w3 added] w3 by (simp_all add: w4_def)
  obtain m w5 where ad: "reload_added added (a3, w4) = (a3\<lparr>checker := (checker a3)\<lparr>probers := m\<rparr>\<rparr>, w5)"
    and m: "dom m = dom (probers (checker a3)) \<union> set added"
    and w5: "\<forall>b. heap w5 b = heap w1 b \<or> b \<in> set added \<and> heap w5 b = MarkUnhealthy (heap w1 b)"
      "snap w5 = snap w1" "nextbid w5 = nextbid w1" "logs w5 = logs w1" "windows w5 = (windows w1) |` (- set rmd)"
      "prom w5 = prom w4"
    using reload_added_spec [of added a3 w4] w4 by auto
  have h5: "heap w5 = heap w1"
  proof
    fix b
    have "heap w5 b = heap w1 b \<or> b \<in> set added \<and> heap w5 b = MarkUnhealthy (heap w1 b)" using w5(1) by blast
    then show "heap w5 b = heap w1 b" using added_unhealthy [OF o(3,4) sw] by auto
  qed
  define l where "l = reloaded_line (DiffBackends old cfg) added rmd (map_option (\<lambda>s. (Algorithm old, Algorithm cfg)) nextSel)"
  have res: "reloadLocked parse cfg (a, w) = Some ((a3\<lparr>checker := (checker a3)\<lparr>probers := m\<rparr>\<rparr>, log l w5), None)"
    using rm ad ns(1) unfolding reloadLocked_def Let_def prod.case old_def [symmetric] same [folded old_def]
    by (cases nextSel) (simp_all add: ap dw a2_def w2_def a3_def w4_def l_def)
  have ws: "windows w1 = windows w" using sw by (cases w; cases w1) (simp add: swapped_def)
  have dm: "dom m = (dom (probers (checker a)) - set rmd) \<union> set added" using m by (auto simp: a3_def)
  have probers: "dom m \<subseteq> set (All w5)" "runCtx a \<Longrightarrow> dom m = set (All w5)"
    using o(5,6) sw unfolding dm by (auto simp: All_def w5(2) swapped_def)
  have frame: "registry_wf (log l w5)" "registry_matches parse (log l w5) (Backends cfg)"
    using reg registry_frame [of "log l w5" w1] h5 w5(2,3) by simp_all
  have inv': "app_inv parse (a3\<lparr>checker := (checker a3)\<lparr>probers := m\<rparr>\<rparr>, log l w5)"
    using ok frame probers ns(2) non_backend_same [OF o(2) ok(2) same [folded old_def]]
    by (simp add: app_inv_def a3_def a2_def All_def Let_def)
  have inst: "installed parse old cfg (a, w) (a3\<lparr>checker := (checker a3)\<lparr>probers := m\<rparr>\<rparr>, log l w5)"
    unfolding installed_def Let_def prod.case
  proof (rule exI [of _ w1], rule exI [of _ added], rule exI [of _ rmd], intro conjI)
    show "\<exists>w2 :: 'a outlier_world_scheme. heap w2 = heap w1 \<and> prom (log l w5) =
        prom (foldl (\<lambda>w b. reload_seed (set (map (\<lambda>b. Name (heap w1 b)) rmd)) b w) w2 added)"
      using w3(1) w5(6) by (intro exI [of _ w3]) (simp add: w4_def)
  qed (use ap sw h5 w5 ws in \<open>auto simp: a3_def a2_def dw l_def swapped_def\<close>)
  show ?thesis using res inv' inst by (intro exI [of _ "(a3\<lparr>checker := (checker a3)\<lparr>probers := m\<rparr>\<rparr>, log l w5)"])
    (simp add: old_def a3_def a2_def)
qed

end
