(* ===== verification/Startup.thy ===== *)
theory Startup
  imports Reload
begin

text \<open>
  Starting and stopping the application, \<open>Build\<close> and \<open>Run\<close> of \<open>internal/app/app.go\<close>:
  what \<open>Build\<close> makes of a validated file, what \<open>Run\<close> starts, and what it shuts down.
\<close>

section \<open>The seeded series\<close>

definition seed_value :: "string \<Rightarrow> metric \<Rightarrow> string list \<Rightarrow> int option" where
  "seed_value n m l =
     (if m = lb_active_requests \<and> l = [n] then Some 0
      else if m = lb_backend_healthy \<and> l = [n] then Some 1
      else if m = lb_circuit_state \<and> (\<exists>s \<in> set circuitStates. l = [n, s])
           then Some (if l ! 1 = CircuitStateClosed then 1 else 0)
      else None)"

definition seed_one :: "'a world_scheme \<Rightarrow> bid \<Rightarrow> 'a world_scheme" where
  "seed_one w b = meter (SetCircuitState (Name (heap w b)) CircuitStateClosed)
     (meter (SetBackendHealthy (Name (heap w b)) True) (meter (SetActiveRequests (Name (heap w b)) 0) w))"

lemma seedMetrics_eq: "seedMetrics w = foldl seed_one w (All w)"
  by (simp add: seedMetrics_def seed_one_def [abs_def])

lemma seed_one_fields [simp]:
  "heap (seed_one w b) = heap w" "snap (seed_one w b) = snap w" "nextbid (seed_one w b) = nextbid w"
  "logs (seed_one w b) = logs w" "world.more (seed_one w b) = world.more w"
  by (simp_all add: seed_one_def)

lemma seed_one_read:
  assumes "gauge_vec_doc rd"
  shows "rd (prom (seed_one w b)) m l =
    (case seed_value (Name (heap w b)) m l of None \<Rightarrow> rd (prom w) m l | Some v \<Rightarrow> Some v)"
proof -
  have v: "circuit_state_valid CircuitStateClosed" by (simp add: circuit_state_valid_iff circuitStates_def)
  show ?thesis
    unfolding seed_one_def meter_fields SetCircuitState_read [OF assms v]
    by (auto simp: seed_value_def SetBackendHealthy_def SetActiveRequests_def gauge_vec_doc_append [OF assms])
qed

lemma seed_fields:
  "heap (foldl seed_one w bs) = heap w \<and> snap (foldl seed_one w bs) = snap w \<and>
   nextbid (foldl seed_one w bs) = nextbid w \<and> logs (foldl seed_one w bs) = logs w"
  by (induction bs arbitrary: w) simp_all

lemma seed_value_unique:
  "seed_value n m l = Some v \<Longrightarrow> seed_value n' m l = Some v' \<Longrightarrow> v = v'"
  by (auto simp: seed_value_def split: if_splits)

lemma seed_reads:
  assumes "gauge_vec_doc rd" and "seed_value n m l = Some v"
    and "(\<exists>b \<in> set bs. Name (heap w b) = n) \<or> rd (prom w) m l = Some v"
  shows "rd (prom (foldl seed_one w bs)) m l = Some v"
  using assms(3)
proof (induction bs arbitrary: w)
  case (Cons b bs)
  have "rd (prom (seed_one w b)) m l = Some v" if "Name (heap w b) = n \<or> rd (prom w) m l = Some v"
    using that assms(2) seed_value_unique [OF assms(2), where n' = "Name (heap w b)"]
    by (auto simp: seed_one_read [OF assms(1)] split: option.split)
  then show ?case using Cons.prems by (auto intro!: Cons.IH)
qed simp

section \<open>What \<open>Build\<close> makes of a validated file\<close>

lemma build_transport_resolved:
  "resolved cfg \<Longrightarrow> \<exists>tr. buildTransport cfg = Some tr \<and>
     IdleTotal tr = wrap64 (IdlePerHost tr * int (length (Backends cfg))) \<and>
     IdlePerHost tr = the (MaxIdleConnsPerHost (Transport cfg)) \<and>
     ForceAttemptHTTP2 tr = the (ForceHTTP2 (Transport cfg))"
  by (auto simp: resolved_def buildTransport_def Let_def)

definition pair_loads :: "(string \<Rightarrow> string \<Rightarrow> 'c option) \<Rightarrow> Config \<Rightarrow> bool" where
  "pair_loads loadPair cfg \<longleftrightarrow>
     (case TLS cfg of None \<Rightarrow> True | Some t \<Rightarrow> loadPair (CertFile t) (KeyFile t) \<noteq> None)"

definition listener_mode :: "Config \<Rightarrow> server_handler \<Rightarrow> 'c http_server \<Rightarrow> bool" where
  "listener_mode cfg handler srv \<longleftrightarrow>
     Addr srv = Listen cfg \<and> Handler srv = handler \<and> SrvIdleTimeout srv = the (IdleTimeout (Server cfg)) \<and>
     serves_tls srv = (TLS cfg \<noteq> None) \<and>
     SrvReadTimeout srv = (if TLS cfg = None \<and> \<not> H2C cfg then the (ReadTimeout (Server cfg)) else 0)"

lemma build_server_resolved:
  assumes "resolved cfg"
  shows "if pair_loads loadPair cfg
    then \<exists>srv. buildClientServer loadPair cfg h = Some (Inr srv) \<and> listener_mode cfg h srv
    else \<exists>t. TLS cfg = Some t \<and> buildClientServer loadPair cfg h = Some (Inl (KeyPairLoad (CertFile t) (KeyFile t)))"
proof (cases "TLS cfg")
  case None
  then show ?thesis using assms
    by (auto simp: resolved_def buildClientServer_def pair_loads_def listener_mode_def serves_tls_def)
next
  case (Some t)
  then show ?thesis using assms
    by (cases "loadPair (CertFile t) (KeyFile t)")
       (auto simp: resolved_def buildClientServer_def pair_loads_def listener_mode_def serves_tls_def)
qed

definition all_closed :: "'a world_scheme \<Rightarrow> bool" where
  "all_closed w \<longleftrightarrow> (\<forall>b \<in> set (All w). healthy (heap w b) \<and> circuit (heap w b) = None)"

lemma Build_accepted:
  fixes w0 :: "'a outlier_world_scheme" and loadPair :: "string \<Rightarrow> string \<Rightarrow> 'c option"
  assumes "config_ok parse cfg" and "resolved cfg" and "Algorithm cfg \<noteq> []"
  defines "h \<equiv> if H2C cfg then H2CHandler else ProxyHandler"
  shows "\<exists>a w. Build parse loadPair cfg w0 =
      map_option (map_sum id (\<lambda>srv. (a\<lparr>clientSrv := srv\<rparr>, w))) (buildClientServer loadPair cfg h) \<and> app_inv parse (a, w) \<and> loadedCfg a = cfg \<and>
    \<not> runCtx a \<and> lastReload a = None \<and> drains a = [] \<and> probers (checker a) = Map.empty \<and>
    backendCount (checker a) = int (length (Backends cfg)) \<and> buildTransport cfg = Some (transport a) \<and> windows w = Map.empty \<and> all_closed w \<and>
    (\<forall>rd b m l v. gauge_vec_doc rd \<longrightarrow> b \<in> set (All w) \<longrightarrow> seed_value (Name (heap w b)) m l = Some v \<longrightarrow>
       rd (prom w) m l = Some v) \<and>
    (\<forall>rd. gauge_vec_doc rd \<longrightarrow> rd (prom w) lb_algorithm_info [Algorithm cfg] = Some 1)"
proof -
  obtain w1 where w1: "NewRegistry parse (Backends cfg) (w0\<lparr>prom := NewCollector\<rparr>) = (w1, Inr ())"
    "registry_matches parse w1 (Backends cfg)" "registry_wf w1"
    "\<forall>b \<in> set (backends (snap w1)). healthy (heap w1 b) \<and> circuit (heap w1 b) = None"
    using NewRegistry_serves_file [OF assms(1)] by blast
  define w2 where "w2 = seedMetrics w1"
  note sf = seed_fields [of w1 "All w1"]
  obtain sel where sel: "NewFromConfig cfg w2 = Inr sel" using NewFromConfig_known [OF assms(1,3)] by blast
  obtain tr where tr: "buildTransport cfg = Some tr" using build_transport_resolved [OF assms(2)] by blast

  obtain ml hl where ls: "MetricsListen (Metrics cfg) = Some ml" "EndpointListen (HealthEndpoint cfg) = Some hl"
    using assms(2) by (auto simp: resolved_def)
  obtain iv tm where pr: "ProbeInterval (Health cfg) = Some iv" "ProbeTimeout (Health cfg) = Some tm"
    using assms(2) by (auto simp: resolved_def)
  define w3 where "w3 = (meter (SetAlgorithm [] (Algorithm cfg)) w2)\<lparr>windows := Map.empty\<rparr>"
  have w3: "heap w3 = heap w1" "snap w3 = snap w1" "nextbid w3 = nextbid w1"
    using sf by (simp_all add: w3_def w2_def seedMetrics_eq)
  obtain cd where cd: "Cooldown (Circuit cfg) = Some cd" using assms(2) by (auto simp: resolved_def)
  define a :: "('c, 'a outlier_world_scheme) app" where "a = \<lparr>proxy = build_proxy cd sel, checker = NewChecker w3, loadedCfg = cfg, lastReload = None,
    runCtx = False, drains = [], clientSrv = plain_server [] h, metricsSrv = plain_server ml MetricsHandler,
    healthSrv = plain_server hl HealthHandler, transport = tr\<rparr>"
  have b: "Build parse loadPair cfg w0 =
      map_option (map_sum id (\<lambda>srv. (a\<lparr>clientSrv := srv\<rparr>, w3))) (buildClientServer loadPair cfg h)"
    unfolding Build_def Let_def w1(1) prod.case sum.case w2_def [symmetric] w3_def [symmetric] assms(4) [symmetric]
    by (simp add: sel tr cd pr ls a_def split: option.split sum.split)
  have reg: "registry_wf w3" "registry_matches parse w3 (Backends cfg)"
    using w1(2,3) registry_frame [of w3 w1] w3 by simp_all
  have len: "length (All w3) = length (Backends cfg)"
    using reg(2) by (simp add: registry_matches_def All_def list_all2_lengthD)
  have inv: "app_inv parse (a, w3)"
    using assms(1,2) reg NewFromConfig_algorithm [OF sel] cd
    by (auto simp: app_inv_def a_def NewChecker_def intro!: exI [of _ sel])
  have seeds: "rd (prom w3) m l = Some v"
    if "gauge_vec_doc rd" "b \<in> set (All w3)" "seed_value (Name (heap w3 b)) m l = Some v" for rd b m l v
  proof -
    have "rd (prom w2) m l = Some v"
      unfolding w2_def seedMetrics_eq
      by (rule seed_reads [OF that(1,3)]) (use that(2) w3 in \<open>auto simp: All_def\<close>)
    moreover have "m \<noteq> lb_algorithm_info" using that(3) by (auto simp: seed_value_def split: if_splits)
    ultimately show ?thesis by (simp add: w3_def SetAlgorithm_def gauge_vec_doc_append [OF that(1)])
  qed
  have alg: "rd (prom w3) lb_algorithm_info [Algorithm cfg] = Some 1" if "gauge_vec_doc rd" for rd
    by (simp add: w3_def SetAlgorithm_def gauge_vec_doc_append [OF that])
  have cl: "all_closed w3" using w1(4) w3 by (simp add: all_closed_def All_def)
  have "windows w3 = Map.empty" by (simp add: w3_def)
  then show ?thesis using b inv seeds alg cl tr len
    by (intro exI [of _ a] exI [of _ w3]) (auto simp: a_def NewChecker_def)
qed

section \<open>Running\<close>

definition checker_started_line :: "Config \<Rightarrow> log_line" where
  "checker_started_line cfg =
     \<lparr>log_level = LevelInfo, log_msg = ''health checker started'',
      log_attrs = [(''probe_interval'', VDuration), (''probe_timeout'', VDuration),
                   (''backend_count'', VInt (int (length (Backends cfg))))]\<rparr>"

definition listen_line :: "string \<Rightarrow> 'c http_server \<Rightarrow> log_line" where
  "listen_line msg srv = \<lparr>log_level = LevelInfo, log_msg = msg, log_attrs = [(''listen'', VStr (Addr srv))]\<rparr>"

text \<open>\<open>Run\<close> up to its \<open>select\<close>; the three servers then serve in goroutines of their own.\<close>

definition Run_start ::
  "('c, 'a world_scheme) app \<times> 'a world_scheme \<Rightarrow> (('c, 'a world_scheme) app \<times> 'a world_scheme) option" where
  "Run_start aw =
     (let (a, w) = aw; a = a\<lparr>runCtx := True\<rparr>; cfg = loadedCfg a; (ch, w) = Start (checker a, w)
      in case (ProbeInterval (Health cfg), ProbeTimeout (Health cfg)) of
           (Some interval, Some timeout) \<Rightarrow>
             (let w = log (checker_started_line cfg) w;
                  w = log (listen_line ''metrics endpoint started'' (metricsSrv a)) w;
                  w = log (listen_line ''health endpoint started'' (healthSrv a)) w
              in Some (a\<lparr>checker := ch\<rparr>, w))
         | _ \<Rightarrow> None)"

text \<open>How one server's \<open>ListenAndServe\<close> ended and whether \<open>serve\<close> reports it.\<close>

datatype serve_error = ErrServerClosed | ServeFailed

definition serve :: "serve_error option \<Rightarrow> string \<Rightarrow> string option" where
  "serve err label = (if err \<noteq> None \<and> err \<noteq> Some ErrServerClosed then Some label else None)"

text \<open>The rest of \<open>Run\<close>: what ended the \<open>select\<close>, and whether each graceful shutdown succeeds.\<close>

datatype run_event = CtxCancelled | ServerFailed string

datatype run_error = ServeError string | ShutdownError string

definition error_line :: "string \<Rightarrow> log_line" where
  "error_line msg = \<lparr>log_level = LevelError, log_msg = msg, log_attrs = [(''err'', VErr)]\<rparr>"

fun shutdown_servers ::
  "(string \<times> 's \<times> bool) list \<Rightarrow> run_error option \<Rightarrow> 'a world_scheme
     \<Rightarrow> 'a world_scheme \<times> 's list \<times> run_error option" where
  "shutdown_servers [] runErr w =
     (log \<lparr>log_level = LevelInfo, log_msg = ''shutdown complete'', log_attrs = []\<rparr> w, [], runErr)"
| "shutdown_servers ((msg, srv, ok) # rest) runErr w =
     (if \<not> ok then (log (error_line msg) w, [srv], Some (ShutdownError msg))
      else let (w, down, r) = shutdown_servers rest runErr w in (w, srv # down, r))"

definition Run_stop ::
  "('c, 'w) app \<Rightarrow> run_event \<Rightarrow> bool \<Rightarrow> bool \<Rightarrow> bool \<Rightarrow> 'a world_scheme
     \<Rightarrow> 'a world_scheme \<times> 'c http_server list \<times> run_error option" where
  "Run_stop a ev ok1 ok2 ok3 w =
     (let (w, runErr) =
        (case ev of
           CtxCancelled \<Rightarrow>
             (log \<lparr>log_level = LevelInfo, log_msg = ''shutdown signal received'', log_attrs = []\<rparr> w, None)
         | ServerFailed label \<Rightarrow> (log (error_line label) w, Some (ServeError label)))
      in shutdown_servers [(''graceful shutdown failed'', clientSrv a, ok1),
           (''metrics server shutdown failed'', metricsSrv a, ok2),
           (''health server shutdown failed'', healthSrv a, ok3)] runErr w)"

lemma registry_wf_distinct: "registry_wf w \<Longrightarrow> distinct (All w)"
  by (simp add: registry_wf_def All_def distinct_map)

lemma Run_start_inv:
  assumes "app_inv parse (a, w)"
  shows "\<exists>a' w'. Run_start (a, w) = Some (a', w') \<and> app_inv parse (a', w') \<and> runCtx a' \<and>
    dom (probers (checker a')) = set (All w) \<and> heap w' = heap w \<and> snap w' = snap w \<and> prom w' = prom w \<and>
    loadedCfg a' = loadedCfg a \<and> proxy a' = proxy a"
proof -
  define m where "m = (\<lambda>b. if b \<in> set (All w) \<and> probers (checker a) b = None then Some newProber
    else probers (checker a) b)"
  have d: "distinct (All w)" and sub: "dom (probers (checker a)) \<subseteq> set (All w)"
    using assms by (auto simp: app_inv_def Let_def registry_wf_distinct)
  have st: "Start (checker a, w) = ((checker a)\<lparr>probers := m\<rparr>, w)"
    using Start_probers [OF d, where c = "checker a" and m = "probers (checker a)" and w = w] by (simp add: Start_def m_def)
  have dm: "dom m = set (All w)" using sub by (auto simp: m_def subset_iff domI split: if_splits)
  have "resolved (loadedCfg a)" using assms by (simp add: app_inv_def Let_def)
  then obtain iv tm where pr: "ProbeInterval (Health (loadedCfg a)) = Some iv" "ProbeTimeout (Health (loadedCfg a)) = Some tm"
    by (auto simp: resolved_def)
  let ?a = "a\<lparr>runCtx := True, checker := (checker a)\<lparr>probers := m\<rparr>\<rparr>"
  let ?w = "log (listen_line ''health endpoint started'' (healthSrv a))
    (log (listen_line ''metrics endpoint started'' (metricsSrv a)) (log (checker_started_line (loadedCfg a)) w))"
  have "Run_start (a, w) = Some (?a, ?w)" by (simp add: Run_start_def st pr Let_def)
  moreover have "app_inv parse (?a, ?w)"
    using assms dm registry_frame [of ?w w] by (simp add: app_inv_def All_def Let_def)
  ultimately show ?thesis using dm by (intro exI [of _ ?a] exI [of _ ?w]) simp
qed

text \<open>
  C15. Start-up. From a validated file \<open>Build\<close> never panics and fails only when the configured
  key pair does not load. Otherwise it builds the application that serves the file: version-1
  registry in the file's order, all backends healthy with closed circuits, the selector of the
  configured algorithm, the listener in its mode, every gauge seeded; and \<open>Run\<close> then starts exactly
  one prober per backend.
\<close>

theorem Build_then_Run:
  fixes w0 :: "'a outlier_world_scheme" and loadPair :: "string \<Rightarrow> string \<Rightarrow> 'c option"
  assumes "Validate parse c = (None, cfg)" and "gauge_vec_doc rd"
  shows "if pair_loads loadPair cfg
    then \<exists>a w. Build parse loadPair cfg w0 = Some (Inr (a, w)) \<and> app_inv parse (a, w) \<and> loadedCfg a = cfg \<and>
      listener_mode cfg (if H2C cfg then H2CHandler else ProxyHandler) (clientSrv a) \<and>
      buildTransport cfg = Some (transport a) \<and> all_closed w \<and>
      (\<forall>b \<in> set (All w). \<forall>m l v. seed_value (Name (heap w b)) m l = Some v \<longrightarrow> rd (prom w) m l = Some v) \<and>
      rd (prom w) lb_algorithm_info [Algorithm cfg] = Some 1 \<and> backendCount (checker a) = int (length (Backends cfg)) \<and>
      (\<exists>a' w'. Run_start (a, w) = Some (a', w') \<and> app_inv parse (a', w') \<and>
         dom (probers (checker a')) = set (All w))
    else \<exists>t. TLS cfg = Some t \<and> Build parse loadPair cfg w0 = Some (Inl (KeyPairLoad (CertFile t) (KeyFile t)))"
proof -
  have ok: "config_ok parse cfg" "resolved cfg" using Validate_resolved [OF assms(1)] by simp_all
  have "config_ok parse c" using assms(1) fst_Validate [of parse c] by simp
  then have alg: "Algorithm cfg \<noteq> []"
    using snd_Validate [of parse c] assms(1) by (simp add: AlgorithmRoundRobin_def)
  define h where "h = (if H2C cfg then H2CHandler else ProxyHandler)"
  obtain a w where b: "Build parse loadPair cfg w0 =
      map_option (map_sum id (\<lambda>srv. (a\<lparr>clientSrv := srv\<rparr>, w))) (buildClientServer loadPair cfg h)"
    and a: "app_inv parse (a, w)" "loadedCfg a = cfg" "backendCount (checker a) = int (length (Backends cfg))"
      "buildTransport cfg = Some (transport a)" "all_closed w"
      "\<forall>b m l v. b \<in> set (All w) \<longrightarrow> seed_value (Name (heap w b)) m l = Some v \<longrightarrow> rd (prom w) m l = Some v"
      "rd (prom w) lb_algorithm_info [Algorithm cfg] = Some 1"
    using Build_accepted [OF ok alg, of loadPair w0] assms(2) unfolding h_def by blast
  have inv: "app_inv parse (a\<lparr>clientSrv := srv\<rparr>, w)" for srv using a(1) by (simp add: app_inv_def)
  show ?thesis
  proof (cases "pair_loads loadPair cfg")
    case True
    then obtain srv where srv: "buildClientServer loadPair cfg h = Some (Inr srv)" "listener_mode cfg h srv"
      using build_server_resolved [OF ok(2), of loadPair h] by auto
    obtain a' w' where "Run_start (a\<lparr>clientSrv := srv\<rparr>, w) = Some (a', w')" "app_inv parse (a', w')"
      "dom (probers (checker a')) = set (All w)"
      using Run_start_inv [OF inv] by blast
    then have r: "\<exists>a' w'. Run_start (a\<lparr>clientSrv := srv\<rparr>, w) = Some (a', w') \<and> app_inv parse (a', w') \<and>
      dom (probers (checker a')) = set (All w)" by blast
    have b': "Build parse loadPair cfg w0 = Some (Inr (a\<lparr>clientSrv := srv\<rparr>, w))" using b srv(1) by simp
    show ?thesis
      unfolding if_P [OF True] h_def [symmetric]
      by (rule exI [of _ "a\<lparr>clientSrv := srv\<rparr>"], rule exI [of _ w]) (use b' inv [of srv] srv(2) r a in simp)
  next
    case False
    then show ?thesis using b build_server_resolved [OF ok(2), of loadPair h] by auto
  qed
qed

text \<open>The application the witnesses run: \<open>sample_config\<close> resolved, on plain HTTP.\<close>

lemma sample_resolved_ok:
  "config_ok sample_parse (resolve sample_config)" "resolved (resolve sample_config)"
  using Validate_resolved [OF Validate_sample] by simp_all

lemma sample_app:
  "\<exists>(a :: (unit, outlier_world) app) w. app_inv sample_parse (a, w) \<and> loadedCfg a = resolve sample_config \<and> \<not> runCtx a"
proof -
  have "Algorithm (resolve sample_config) \<noteq> []" by (simp add: AlgorithmRoundRobin_def)
  from Build_accepted [OF sample_resolved_ok this, where loadPair = "\<lambda>c k. None :: unit option" and ?w0.0 = sample_outlier]
  show ?thesis by blast
qed

theorem Build_then_Run_witness:
  "\<exists>(a :: (unit, outlier_world) app) w.
     Build sample_parse (\<lambda>c k. None) (resolve sample_config) sample_outlier = Some (Inr (a, w)) \<and>
     (\<exists>a' w'. Run_start (a, w) = Some (a', w'))"
proof -
  have p: "pair_loads (\<lambda>c k. None :: unit option) (resolve sample_config)"
    by (simp add: pair_loads_def sample_config_def)
  show ?thesis
    using Build_then_Run [OF Validate_sample gauge_vec_doc_gauge_read, where loadPair = "\<lambda>c k. None :: unit option"
        and ?w0.0 = sample_outlier] unfolding if_P [OF p] by blast
qed

section \<open>Shutting down\<close>

text \<open>
  All three servers are shut down in order when each shutdown succeeds, and the failure that
  ended the run, if any, is what \<open>Run\<close> returns.
\<close>

lemma Run_stop_graceful:
  "snd (Run_stop a ev True True True w) =
     ([clientSrv a, metricsSrv a, healthSrv a], (case ev of CtxCancelled \<Rightarrow> None | ServerFailed l \<Rightarrow> Some (ServeError l)))"
  by (cases ev) (simp_all add: Run_stop_def)

text \<open>
  A client-server shutdown that fails, for instance because its requests outlast the timeout,
  ends \<open>Run\<close> at once: the other two servers are not shut down and the error that ended the
  serving phase is dropped.
\<close>

lemma Run_stop_abandons:
  "snd (Run_stop a ev False ok2 ok3 w) = ([clientSrv a], Some (ShutdownError ''graceful shutdown failed''))"
  by (cases ev) (simp_all add: Run_stop_def)

end
