(* ===== verification/Admin.thy ===== *)
theory Admin
  imports Startup
begin

text \<open>
  The reload admin endpoint and the reload operation both triggers share,
  \<open>internal/app/admin.go\<close>. \<open>ReloadFrom\<close> runs under the reload mutex, so an attempt is one
  operation on the application; what \<open>load\<close> returned is its argument. The texts of errors and
  the RFC 3339 form of a time are parameters, functions of the error and of the time.
\<close>

section \<open>Outcomes on the wire\<close>

fun result_name :: "reload_result \<Rightarrow> string" where
  "result_name ReloadResultNone = ''none''"
| "result_name ReloadResultSuccess = ''success''"
| "result_name ReloadResultRejected = ''rejected''"

definition adminReloadMaxBody :: nat where "adminReloadMaxBody = 1048576"
definition adminReloadSource :: string where "adminReloadSource = ''admin request body''"

record reloadStatusJSON =
  wire_result :: string
  wire_time :: string
  wire_error :: string

definition wire ::
  "(instant \<Rightarrow> string) \<Rightarrow> (reload_error \<Rightarrow> string) \<Rightarrow> ReloadStatus \<Rightarrow> reloadStatusJSON" where
  "wire rfc3339 err_text s =
     (let w = \<lparr>wire_result = result_name (Result s), wire_time = [],
               wire_error = (case ReloadError s of None \<Rightarrow> [] | Some e \<Rightarrow> err_text e)\<rparr>
      in case ReloadTime s of None \<Rightarrow> w | Some t \<Rightarrow> w\<lparr>wire_time := rfc3339 t\<rparr>)"

text \<open>The fields the encoder writes: an empty \<open>omitempty\<close> string is left out.\<close>

definition wire_fields :: "reloadStatusJSON \<Rightarrow> (string \<times> string) list" where
  "wire_fields j =
     [(''result'', wire_result j)] @ (if wire_time j = [] then [] else [(''time'', wire_time j)]) @
     (if wire_error j = [] then [] else [(''error'', wire_error j)])"

definition LastReload :: "('c, 'w) app \<Rightarrow> ReloadStatus" where
  "LastReload a =
     (case lastReload a of
        Some s \<Rightarrow> s
      | None \<Rightarrow> \<lparr>Result = ReloadResultNone, ReloadTime = None, ReloadError = None\<rparr>)"

section \<open>One reload attempt\<close>

definition loadValidateApply ::
  "(string \<Rightarrow> url option) \<Rightarrow> 'e + Config \<Rightarrow> ('c, 'a outlier_world_scheme) app \<times> 'a outlier_world_scheme
     \<Rightarrow> ((('c, 'a outlier_world_scheme) app \<times> 'a outlier_world_scheme) \<times> reload_error option) option" where
  "loadValidateApply parse loaded aw =
     (case loaded of
        Inl e \<Rightarrow>
          Some ((fst aw, log (reload_failed_line LevelWarn ReasonParseError (''err'', VErr)) (snd aw)), Some LoadFailed)
      | Inr cfg \<Rightarrow>
          (case Validate parse cfg of
             (Some e, cfg) \<Rightarrow>
               Some ((fst aw, log (reload_failed_line LevelWarn ReasonValidationError (''err'', VErr)) (snd aw)),
                 Some (ValidationFailed e))
           | (None, cfg) \<Rightarrow> reloadLocked parse cfg aw))"

definition ReloadFrom ::
  "(string \<Rightarrow> url option) \<Rightarrow> instant \<Rightarrow> 'e + Config \<Rightarrow> ('c, 'a outlier_world_scheme) app \<times> 'a outlier_world_scheme
     \<Rightarrow> ((('c, 'a outlier_world_scheme) app \<times> 'a outlier_world_scheme) \<times> ReloadStatus \<times> reload_error option) option" where
  "ReloadFrom parse now loaded aw =
     map_option (\<lambda>((a, w), err). let a = recordReload now err a in ((a, w), LastReload a, err))
       (loadValidateApply parse loaded aw)"

section \<open>The handlers\<close>

text \<open>
  A request body as the listener reads it: complete, or broken off after some bytes. The
  size limit is met first when more bytes than it allows have arrived.
\<close>

datatype request_body = Whole string | BrokenOff string

datatype body_error = BodyTooLarge | BodyReadFailed

fun read_body :: "request_body \<Rightarrow> body_error + string" where
  "read_body (Whole s) = (if length s > adminReloadMaxBody then Inl BodyTooLarge else Inr s)"
| "read_body (BrokenOff s) = (if length s > adminReloadMaxBody then Inl BodyTooLarge else Inl BodyReadFailed)"

datatype admin_response = PlainError nat | StatusJSON nat reloadStatusJSON

definition handleAdminReload ::
  "(string \<Rightarrow> url option) \<Rightarrow> (string \<Rightarrow> 'y + Config) \<Rightarrow> (string \<Rightarrow> string option) \<Rightarrow> (instant \<Rightarrow> string)
     \<Rightarrow> (reload_error \<Rightarrow> string) \<Rightarrow> instant \<Rightarrow> request_body
     \<Rightarrow> ('c, 'a outlier_world_scheme) app \<times> 'a outlier_world_scheme
     \<Rightarrow> ((('c, 'a outlier_world_scheme) app \<times> 'a outlier_world_scheme) \<times> admin_response) option" where
  "handleAdminReload parse yaml_decode env rfc3339 err_text now body aw =
     (if \<not> runCtx (fst aw) then Some (aw, PlainError 503)
      else case read_body body of
        Inl BodyTooLarge \<Rightarrow> Some (aw, PlainError 413)
      | Inl BodyReadFailed \<Rightarrow> Some (aw, PlainError 400)
      | Inr bytes \<Rightarrow>
          (case ReloadFrom parse now (Parse yaml_decode env bytes adminReloadSource) aw of
             None \<Rightarrow> None
           | Some (aw, status, err) \<Rightarrow>
               (let code = (if err \<noteq> None then 422 else 200)
                in Some (aw, StatusJSON code (wire rfc3339 err_text status)))))"

definition handleAdminReloadLast ::
  "(instant \<Rightarrow> string) \<Rightarrow> (reload_error \<Rightarrow> string) \<Rightarrow> ('c, 'w) app \<Rightarrow> admin_response" where
  "handleAdminReloadLast rfc3339 err_text a = StatusJSON 200 (wire rfc3339 err_text (LastReload a))"

text \<open>
  The two routes of \<open>adminHandler\<close>: a pattern with a method answers 405 to another one, and
  a \<open>GET\<close> pattern serves \<open>HEAD\<close> too.
\<close>

datatype admin_route = RouteReload | RouteLast | RouteMethodNotAllowed | RouteNotFound

definition adminHandler :: "string \<Rightarrow> string \<Rightarrow> admin_route" where
  "adminHandler method path =
     (if path = ''/admin/reload'' then (if method = ''POST'' then RouteReload else RouteMethodNotAllowed)
      else if path = ''/admin/reload/last''
      then (if method = ''GET'' \<or> method = ''HEAD'' then RouteLast else RouteMethodNotAllowed)
      else RouteNotFound)"

text \<open>
  The routes of the metrics listener, \<open>buildMetricsHandler\<close>: a pattern that ends in a slash
  takes every path below it, and the path without the slash is redirected to it.
\<close>

datatype metrics_route = ToAdmin admin_route | ToMetrics | ToPprofIndex | ToPprofCmdline | ToPprofProfile
  | ToPprofSymbol | ToPprofTrace | ToRedirect | ToNotFound

definition buildMetricsHandler :: "string \<Rightarrow> string \<Rightarrow> metrics_route" where
  "buildMetricsHandler method path =
     (if path = ''/metrics'' then ToMetrics
      else if path = ''/debug/pprof/cmdline'' then ToPprofCmdline
      else if path = ''/debug/pprof/profile'' then ToPprofProfile
      else if path = ''/debug/pprof/symbol'' then ToPprofSymbol
      else if path = ''/debug/pprof/trace'' then ToPprofTrace
      else if has_prefix path ''/debug/pprof/'' then ToPprofIndex
      else if has_prefix path ''/admin/'' then ToAdmin (adminHandler method path)
      else if path = ''/debug/pprof'' \<or> path = ''/admin'' then ToRedirect
      else ToNotFound)"

section \<open>What an attempt does\<close>

text \<open>
  What the loaded file decides, given the configuration being served: the reason and the log line
  of a rejection, or the configuration to serve from now on.
\<close>

definition verdict ::
  "(string \<Rightarrow> url option) \<Rightarrow> Config \<Rightarrow> 'e + Config \<Rightarrow> reload_error \<times> log_line + Config" where
  "verdict parse old loaded =
     (case loaded of
        Inl e \<Rightarrow> Inl (LoadFailed, reload_failed_line LevelWarn ReasonParseError (''err'', VErr))
      | Inr c \<Rightarrow>
          (case fst (Validate parse c) of
             Some e \<Rightarrow> Inl (ValidationFailed e, reload_failed_line LevelWarn ReasonValidationError (''err'', VErr))
           | None \<Rightarrow>
               (case filter (field_differs old (resolve c)) non_backend_fields of
                  [] \<Rightarrow> Inr (resolve c)
                | f # fs \<Rightarrow> Inl (NonBackendFields (f # fs),
                    reload_failed_line LevelWarn ReasonNonBackendChange (''fields'', VStrs (f # fs))))))"

definition status_of :: "instant \<Rightarrow> reload_error option \<Rightarrow> ReloadStatus" where
  "status_of now err =
     \<lparr>Result = (if err = None then ReloadResultSuccess else ReloadResultRejected), ReloadTime = Some now,
      ReloadError = err\<rparr>"

lemma recordReload_eq: "recordReload now err a = a\<lparr>lastReload := Some (status_of now err)\<rparr>"
  by (cases err) (simp_all add: recordReload_def status_of_def)

lemma app_inv_lastReload [simp]:
  "app_inv parse (a\<lparr>lastReload := s\<rparr>, w) = app_inv parse (a, w)"
  "app_inv parse (a, log l w) = app_inv parse (a, w)"
  using registry_frame [of "log l w" w] by (simp_all add: app_inv_def All_def)

lemma installed_lastReload [simp]:
  "installed parse old new aw (a'\<lparr>lastReload := s\<rparr>, w') = installed parse old new aw (a', w')"
  by (simp add: installed_def Let_def split: prod.split)

lemma loadValidateApply_cases:
  assumes "app_inv parse (a, w)"
  shows "case verdict parse (loadedCfg a) loaded of
      Inl (e, l) \<Rightarrow> loadValidateApply parse loaded (a, w) = Some ((a, log l w), Some e)
    | Inr cfg \<Rightarrow> \<exists>aw'. loadValidateApply parse loaded (a, w) = Some (aw', None) \<and> app_inv parse aw' \<and>
        installed parse (loadedCfg a) cfg (a, w) aw' \<and> runCtx (fst aw') = runCtx a \<and> loadedCfg (fst aw') = cfg"
proof (cases loaded)
  case (Inr c)
  show ?thesis
  proof (cases "fst (Validate parse c)")
    case None
    then have ok: "config_ok parse c" by (simp add: fst_Validate)
    have v: "Validate parse c = (None, resolve c)" using None snd_Validate [OF ok] by (simp add: prod_eq_iff)
    have r: "config_ok parse (resolve c)" "resolved (resolve c)" "Algorithm (resolve c) \<noteq> []"
      using config_ok_resolve [OF ok] by (simp_all add: AlgorithmRoundRobin_def)
    have o: "resolved (loadedCfg a)" using assms by (simp add: app_inv_def Let_def)
    note ch = NonBackendChanges_eq [OF o r(2)]
    show ?thesis
    proof (cases "filter (field_differs (loadedCfg a) (resolve c)) non_backend_fields")
      case Nil
      obtain aw' where "reloadLocked parse (resolve c) (a, w) = Some (aw', None)" "app_inv parse aw'"
        "installed parse (loadedCfg a) (resolve c) (a, w) aw'" "runCtx (fst aw') = runCtx a"
        using reload_accepted [OF assms r] ch Nil by auto
      then show ?thesis using Inr v Nil
        by (cases aw') (auto simp: verdict_def loadValidateApply_def installed_def Let_def)
    next
      case (Cons f fs)
      then show ?thesis using Inr v ch
        by (simp add: verdict_def loadValidateApply_def reloadLocked_def Let_def)
    qed
  next
    case (Some e)
    then show ?thesis using Inr by (cases "Validate parse c") (simp add: verdict_def loadValidateApply_def)
  qed
qed (simp add: verdict_def loadValidateApply_def)

lemma ReloadFrom_cases:
  assumes "app_inv parse (a, w)"
  shows "case verdict parse (loadedCfg a) loaded of
      Inl (e, l) \<Rightarrow> ReloadFrom parse now loaded (a, w) =
        Some ((a\<lparr>lastReload := Some (status_of now (Some e))\<rparr>, log l w), status_of now (Some e), Some e)
    | Inr cfg \<Rightarrow> \<exists>a' w'. ReloadFrom parse now loaded (a, w) = Some ((a', w'), status_of now None, None) \<and>
        app_inv parse (a', w') \<and> installed parse (loadedCfg a) cfg (a, w) (a', w') \<and>
        LastReload a' = status_of now None \<and> runCtx a' = runCtx a \<and> loadedCfg a' = cfg"
proof (cases "verdict parse (loadedCfg a) loaded")
  case (Inl el)
  then show ?thesis using loadValidateApply_cases [OF assms, where loaded = loaded]
    by (cases el) (simp add: ReloadFrom_def recordReload_eq LastReload_def Let_def)
next
  case (Inr cfg)
  obtain a1 w1 where "loadValidateApply parse loaded (a, w) = Some ((a1, w1), None)" "app_inv parse (a1, w1)"
    "installed parse (loadedCfg a) cfg (a, w) (a1, w1)" "runCtx a1 = runCtx a" "loadedCfg a1 = cfg"
    using loadValidateApply_cases [OF assms, where loaded = loaded] Inr by auto
  then show ?thesis using Inr
    by (simp add: ReloadFrom_def recordReload_eq LastReload_def Let_def)
qed

text \<open>
  C2. A reload attempt is all or nothing and never panics. A file that does not load, does not
  validate or changes a section that needs a restart is rejected: one warning names the reason,
  the outcome is recorded, and nothing else changes, so the previous configuration keeps serving.
  Every other file is installed: \<open>Apply\<close> publishes its backends, unchanged ones keep their
  object and all its state, removed ones are marked and drain under its window with their outlier
  history dropped, and the application invariant holds again.
\<close>

theorem ReloadFrom_all_or_nothing:
  assumes "app_inv parse (a, w)"
  shows "case verdict parse (loadedCfg a) loaded of
      Inl (e, l) \<Rightarrow> ReloadFrom parse now loaded (a, w) =
        Some ((a\<lparr>lastReload := Some (status_of now (Some e))\<rparr>, log l w), status_of now (Some e), Some e)
    | Inr cfg \<Rightarrow> \<exists>a' w'. ReloadFrom parse now loaded (a, w) = Some ((a', w'), status_of now None, None) \<and>
        app_inv parse (a', w') \<and> installed parse (loadedCfg a) cfg (a, w) (a', w') \<and>
        LastReload a' = status_of now None"
  using ReloadFrom_cases [OF assms, where now = now and loaded = loaded]
  by (cases "verdict parse (loadedCfg a) loaded") auto

section \<open>Successive attempts compose\<close>

fun reload_attempts ::
  "(string \<Rightarrow> url option) \<Rightarrow> (instant \<times> ('e + Config)) list
     \<Rightarrow> ('c, 'a outlier_world_scheme) app \<times> 'a outlier_world_scheme
     \<Rightarrow> (('c, 'a outlier_world_scheme) app \<times> 'a outlier_world_scheme) option" where
  "reload_attempts parse [] aw = Some aw"
| "reload_attempts parse ((now, loaded) # xs) aw =
     (case ReloadFrom parse now loaded aw of
        None \<Rightarrow> None
      | Some (aw, status, err) \<Rightarrow> reload_attempts parse xs aw)"

definition serving :: "(string \<Rightarrow> url option) \<Rightarrow> Config \<Rightarrow> instant \<times> ('e + Config) \<Rightarrow> Config" where
  "serving parse old x = (case verdict parse old (snd x) of Inl r \<Rightarrow> old | Inr cfg \<Rightarrow> cfg)"

lemma reload_attempts_inv:
  "app_inv parse aw \<Longrightarrow> \<exists>aw'. reload_attempts parse xs aw = Some aw' \<and> app_inv parse aw'
     \<and> loadedCfg (fst aw') = foldl (serving parse) (loadedCfg (fst aw)) xs"
proof (induction xs arbitrary: aw)
  case (Cons x xs)
  obtain a w where aw: "aw = (a, w)" by (cases aw)
  obtain now loaded where x: "x = (now, loaded)" by (cases x)
  have "\<exists>aw1 st err. ReloadFrom parse now loaded aw = Some (aw1, st, err) \<and> app_inv parse aw1
      \<and> loadedCfg (fst aw1) = serving parse (loadedCfg a) x"
    using ReloadFrom_cases [OF Cons.prems [unfolded aw], where now = now and loaded = loaded] Cons.prems
    unfolding aw x serving_def by (cases "verdict parse (loadedCfg a) loaded") auto
  then obtain aw1 st err where 1: "ReloadFrom parse now loaded aw = Some (aw1, st, err)" "app_inv parse aw1"
    "loadedCfg (fst aw1) = serving parse (loadedCfg a) x" by blast
  show ?case using Cons.IH [OF 1(2)] 1 by (simp add: x aw)
qed simp

lemma sample_verdict:
  "verdict sample_parse (resolve sample_config) (Inr sample_config2) = Inr (resolve sample_config2)"
proof -
  have v: "fst (Validate sample_parse sample_config2) = None" using config_ok_sample2 by (simp add: fst_Validate)
  have "(resolve sample_config)\<lparr>Backends := [], Algorithm := []\<rparr> =
      (resolve sample_config2)\<lparr>Backends := [], Algorithm := []\<rparr>"
    by (simp add: resolve_def sample_config2_def)
  then show ?thesis using v by (simp add: verdict_def same_but_backends_iff)
qed

theorem ReloadFrom_all_or_nothing_witness:
  "\<exists>(a :: (unit, outlier_world) app) w a' w'. ReloadFrom sample_parse 7 (Inr sample_config2) (a, w) =
     Some ((a', w'), status_of 7 None, None) \<and> app_inv sample_parse (a', w')"
proof -
  obtain a :: "(unit, outlier_world) app" and w where a: "app_inv sample_parse (a, w)"
    "loadedCfg a = resolve sample_config" using sample_app by blast
  show ?thesis
    using ReloadFrom_all_or_nothing [OF a(1), where now = 7 and loaded = "Inr sample_config2"]
    unfolding a(2) sample_verdict sum.case by blast
qed

text \<open>
  C14. Successive attempts compose. After any sequence of attempts from either trigger the
  application still satisfies its invariant and serves the last file that was accepted, where
  each file is judged against the one served at that moment; the registry publishes exactly
  that file's backends, and the selector is the one its algorithm names.
\<close>

theorem reloads_compose:
  assumes "app_inv parse (a, w)"
  shows "\<exists>a' w'. reload_attempts parse xs (a, w) = Some (a', w') \<and> app_inv parse (a', w') \<and>
    loadedCfg a' = foldl (serving parse) (loadedCfg a) xs \<and>
    registry_matches parse w' (Backends (foldl (serving parse) (loadedCfg a) xs)) \<and>
    algorithm_of (px_sel (proxy a')) = Algorithm (foldl (serving parse) (loadedCfg a) xs)"
proof -
  obtain a' w' where r: "reload_attempts parse xs (a, w) = Some (a', w')" "app_inv parse (a', w')"
    "loadedCfg a' = foldl (serving parse) (loadedCfg a) xs"
    using reload_attempts_inv [OF assms, where xs = xs] by auto
  then have "registry_matches parse w' (Backends (loadedCfg a'))" "algorithm_of (px_sel (proxy a')) = Algorithm (loadedCfg a')"
    by (auto simp: app_inv_def Let_def)
  with r show ?thesis by (intro exI [of _ a'] exI [of _ w']) simp
qed

theorem reloads_compose_witness:
  "\<exists>(a :: (unit, outlier_world) app) w a' w'. reload_attempts sample_parse
       [(7, Inl ()), (8, Inr sample_config2), (9, Inl ())] (a, w) = Some (a', w') \<and>
     registry_matches sample_parse w' (Backends sample_config2)"
proof -
  obtain a :: "(unit, outlier_world) app" and w where a: "app_inv sample_parse (a, w)"
    "loadedCfg a = resolve sample_config" using sample_app by blast
  have f: "foldl (serving sample_parse) (resolve sample_config) [(7, Inl ()), (8, Inr sample_config2), (9, Inl ())] =
      resolve sample_config2"
    using sample_verdict by (simp add: serving_def verdict_def)
  obtain a' w' where r: "reload_attempts sample_parse [(7, Inl ()), (8, Inr sample_config2), (9, Inl ())] (a, w) = Some (a', w')"
    "registry_matches sample_parse w' (Backends (resolve sample_config2))"
    using reloads_compose [OF a(1), where xs = "[(7, Inl ()), (8, Inr sample_config2), (9, Inl ())]"]
    unfolding a(2) f by blast
  then show ?thesis by (intro exI [of _ a] exI [of _ w] exI [of _ a'] exI [of _ w']) simp
qed

section \<open>The handlers\<close>

text \<open>The code a body gets when the application runs.\<close>

definition reload_code ::
  "(string \<Rightarrow> url option) \<Rightarrow> (string \<Rightarrow> 'y + Config) \<Rightarrow> (string \<Rightarrow> string option) \<Rightarrow> Config \<Rightarrow> request_body \<Rightarrow> nat" where
  "reload_code parse yaml_decode env old body =
     (case read_body body of
        Inl BodyTooLarge \<Rightarrow> 413
      | Inl BodyReadFailed \<Rightarrow> 400
      | Inr bytes \<Rightarrow>
          (case verdict parse old (Parse yaml_decode env bytes adminReloadSource) of Inl r \<Rightarrow> 422 | Inr cfg \<Rightarrow> 200))"



end
