(* ===== verification/Readded.thy ===== *)
theory Readded
  imports Admin
begin

text \<open>
  A backend that is added again under a name whose earlier instance, removed by an earlier reload,
  is still draining. The seeding loop of \<open>reloadLocked\<close> spares the active-requests series only of
  names removed by the same reload, so the shared series is set to 0 while requests still hold
  slots on it, and their releases then drive it negative.
\<close>

section \<open>The series through a reload\<close>

lemma meter_active_read:
  assumes "gauge_vec_doc rd"
  shows "rd (DeleteBackendHealthy n c) lb_active_requests l = rd c lb_active_requests l"
    "rd (SetBackendHealthy n ok c) lb_active_requests l = rd c lb_active_requests l"
    "rd (DeleteCircuitState n c) lb_active_requests l = rd c lb_active_requests l"
    "rd (SetCircuitState n CircuitStateClosed c) lb_active_requests l = rd c lb_active_requests l"
    "rd (SetActiveRequests n v c) lb_active_requests l = (if l = [n] then Some v else rd c lb_active_requests l)"
    "rd (SetAlgorithm prev cur c) lb_active_requests l = rd c lb_active_requests l"
  by (auto simp: DeleteBackendHealthy_def SetBackendHealthy_def SetActiveRequests_def SetAlgorithm_def Let_def
      DeleteCircuitState_read [OF assms] SetCircuitState_read [OF assms] circuit_state_valid_iff circuitStates_def
      gauge_vec_doc_append [OF assms] gauge_vec_docD [OF assms])

lemma seeds_active_read:
  assumes "gauge_vec_doc rd" and "n \<notin> ns"
    and "(\<exists>b \<in> set bs. Name (heap w b) = n) \<or> rd (prom w) lb_active_requests [n] = Some 0"
  shows "rd (prom (foldl (\<lambda>w b. reload_seed ns b w) w bs)) lb_active_requests [n] = Some 0"
  using assms(3)
proof (induction bs arbitrary: w)
  case (Cons b bs)
  have "rd (prom (reload_seed ns b w)) lb_active_requests [n] = Some 0"
    if "Name (heap w b) = n \<or> rd (prom w) lb_active_requests [n] = Some 0"
    using that assms(2) unfolding reload_seed_def Let_def meter_fields
    by (auto simp: meter_active_read [OF assms(1)] simp del: circuit_state_names)
  moreover have "heap (reload_seed ns b w) = heap w" by (simp add: reload_seed_def Let_def)
  ultimately show ?case using Cons.prems by (auto intro!: Cons.IH)
qed simp

section \<open>The shared series is reset under the old instance\<close>

lemma installed_served:
  assumes "app_inv parse (a', w')" and "n \<in> CfgName ` set (Backends (loadedCfg a'))"
  shows "\<exists>b \<in> set (backends (snap w')). Name (heap w' b) = n"
proof -
  obtain c where c: "c \<in> set (Backends (loadedCfg a'))" "CfgName c = n" using assms(2) by blast
  have "list_all2 (serves parse w') (Backends (loadedCfg a')) (backends (snap w'))"
    using assms(1) by (simp add: app_inv_def registry_matches_def Let_def)
  then have "\<exists>b \<in> set (backends (snap w')). serves parse w' c b"
    using c(1) by (metis in_set_conv_nth list_all2_conv_all_nth)
  then show ?thesis using c(2) by (auto simp: serves_def)
qed

lemma installed_resets:
  fixes a :: "('c, 'a outlier_world_scheme) app" and w :: "'a outlier_world_scheme"
  assumes inv: "app_inv parse (a, w)" and inst: "installed parse (loadedCfg a) cfg (a, w) (a', w')"
    and inv': "app_inv parse (a', w')" and rd: "gauge_vec_doc rd"
    and old: "\<forall>b \<in> set (All w). Name (heap w b) \<noteq> n" and new: "n \<in> CfgName ` set (Backends (loadedCfg a'))"
    and x: "x < nextbid w" "x \<notin> set (All w)"
  shows "heap w' x = heap w x \<and> rd (prom w') lb_active_requests [n] = Some 0"
proof -
  obtain w1 added rmd and w2 :: "'a outlier_world_scheme" where sw: "swapped parse (Backends (loadedCfg a)) (Backends cfg) w w1 added rmd"
    and w': "heap w' = heap w1" "snap w' = snap w1" and w2: "heap w2 = heap w1"
      "prom w' = prom (foldl (\<lambda>w b. reload_seed (set (map (\<lambda>b. Name (heap w1 b)) rmd)) b w) w2 added)"
    using inst unfolding installed_def Let_def prod.case by blast
  have sets: "set rmd \<subseteq> set (All w)" "set added = set (backends (snap w1)) - set (All w)"
    using sw by (auto simp: swapped_def All_def)
  have small: "b < nextbid w" if "b \<in> set (All w)" for b
    using inv that by (auto simp: app_inv_def registry_wf_def All_def Let_def)
  have keep: "heap w1 b = (if b \<in> set rmd then (heap w b)\<lparr>removed := True\<rparr> else heap w b)" if "b < nextbid w" for b
    using sw that by (simp add: swapped_def)
  have names: "Name (heap w1 b) \<noteq> n" if "b \<in> set (All w)" for b
    using keep [OF small [OF that]] old that by simp
  have "\<exists>b \<in> set added. Name (heap w2 b) = n"
    using installed_served [OF inv' new] names sets(2) w' w2(1) by auto
  moreover have "n \<notin> set (map (\<lambda>b. Name (heap w1 b)) rmd)" using names sets(1) by auto
  ultimately have "rd (prom w') lb_active_requests [n] = Some 0"
    unfolding w2(2) by (intro seeds_active_read [OF rd]) blast+
  moreover have "heap w' x = heap w x" using keep [OF x(1)] x(2) sets(1) by (auto simp: w'(1))
  ultimately show ?thesis by simp
qed

text \<open>
  C36. When a file brings back a name that an earlier reload removed and whose instance still holds
  active requests, the accepted reload leaves the instance and its count alone but sets the shared
  active-requests series to 0; the next of those requests to finish makes it \<open>-1\<close>.
\<close>

theorem readded_name_loses_slots:
  fixes a :: "('c, 'a outlier_world_scheme) app" and w :: "'a outlier_world_scheme"
  assumes "app_inv parse (a, w)" and "verdict parse (loadedCfg a) loaded = Inr cfg"
    and "gauge_vec_doc rd" and "\<forall>b \<in> set (All w). Name (heap w b) \<noteq> n"
    and "n \<in> CfgName ` set (Backends cfg)"
    and "x < nextbid w" and "x \<notin> set (All w)" and "Name (heap w x) = n" and "active (heap w x) = k"
    and "rs_backend s = Some x" and "rs_metrics s" and "\<not> released s"
  shows "\<exists>a' w'. ReloadFrom parse now loaded (a, w) = Some ((a', w'), status_of now None, None) \<and>
    active (heap w' x) = k \<and> rd (prom w') lb_active_requests [n] = Some 0 \<and>
    rd (prom (snd (release s w'))) lb_active_requests [n] = Some (- 1)"
proof -
  obtain a' :: "('c, 'a outlier_world_scheme) app" and w' where r:
    "ReloadFrom parse now loaded (a, w) = Some ((a', w'), status_of now None, None)"
    "app_inv parse (a', w')" "installed parse (loadedCfg a) cfg (a, w) (a', w')" "loadedCfg a' = cfg"
    using ReloadFrom_cases [OF assms(1), where loaded = loaded and now = now] unfolding assms(2) sum.case by blast
  have h: "heap w' x = heap w x" "rd (prom w') lb_active_requests [n] = Some 0"
    using installed_resets [OF assms(1) r(3,2) assms(3,4) _ assms(6,7)] assms(5) r(4) by simp_all
  have "prom (snd (release s w')) = DecActiveRequests n (prom w')"
    using assms(8,10-12) h(1) by (simp add: release_def Let_def) (simp add: DecActive_def)
  then have "rd (prom (snd (release s w'))) lb_active_requests [n] = Some (- 1)"
    using h(2) by (simp add: DecActiveRequests_def gauge_vec_docD [OF assms(3)])
  with r(1) h assms(9) show ?thesis by (intro exI [of _ a'] exI [of _ w']) simp
qed

lemma app_inv_alloc:
  assumes "app_inv parse (a, w)"
  shows "app_inv parse (a, fst (alloc bk w))"
proof -
  have wf: "registry_wf w" and m: "registry_matches parse w (Backends (loadedCfg a))"
    using assms by (simp_all add: app_inv_def Let_def)
  have h: "heap (fst (alloc bk w)) b = heap w b" if "b \<in> set (backends (snap w))" for b
    using wf that by (auto simp: registry_wf_def)
  have n: "map (\<lambda>b. Name (heap (fst (alloc bk w)) b)) (backends (snap w)) = map (\<lambda>b. Name (heap w b)) (backends (snap w))"
    by (rule map_cong) (simp_all add: h del: alloc_fields)
  have "registry_wf (fst (alloc bk w))"
    using wf h unfolding registry_wf_def alloc_fields(2,3) n by (auto simp del: alloc_fields)
  moreover have "registry_matches parse (fst (alloc bk w)) (Backends (loadedCfg a))"
    using m h unfolding registry_matches_def alloc_fields(3)
    by (auto simp: list_all2_conv_all_nth serves_def simp del: alloc_fields)
  ultimately show ?thesis using assms by (simp add: app_inv_def All_def Let_def)
qed

theorem readded_name_loses_slots_witness:
  "\<exists>(a :: (unit, outlier_world) app) w a' w'.
     ReloadFrom sample_parse 7 (Inr sample_config2) (a, w) = Some ((a', w'), status_of 7 None, None) \<and>
     gauge_read (prom (snd (release (newReqState True\<lparr>rs_backend := Some (nextbid w - 1)\<rparr>) w')))
       lb_active_requests [''b''] = Some (- 1)"
proof -
  obtain a :: "(unit, outlier_world) app" and w0 where a: "app_inv sample_parse (a, w0)"
    "loadedCfg a = resolve sample_config" using sample_app by blast
  define bk where "bk = (fresh_backend ''b'' sample_url)\<lparr>removed := True, active := 1\<rparr>"
  define w where "w = fst (alloc bk w0)"
  have inv: "app_inv sample_parse (a, w)" unfolding w_def by (rule app_inv_alloc [OF a(1)])
  have served: "\<forall>b \<in> set (All w0). b < nextbid w0 \<and> Name (heap w0 b) = ''a''"
    using a by (auto simp: app_inv_def registry_wf_def registry_matches_def All_def Let_def sample_config_def
        serves_def list_all2_Cons1)
  then have old: "\<forall>b \<in> set (All w). Name (heap w b) \<noteq> ''b''"
    by (auto simp: w_def All_def)
  have x: "nextbid w - 1 < nextbid w" "nextbid w - 1 \<notin> set (All w)" "Name (heap w (nextbid w - 1)) = ''b''"
    "active (heap w (nextbid w - 1)) = 1"
    using served by (auto simp: w_def All_def bk_def fresh_backend_def)
  have v: "verdict sample_parse (loadedCfg a) (Inr sample_config2) = Inr (resolve sample_config2)"
    unfolding a(2) by (rule sample_verdict)
  have n: "''b'' \<in> CfgName ` set (Backends (resolve sample_config2))" by (simp add: sample_config2_def)
  have s: "rs_backend (newReqState True\<lparr>rs_backend := Some (nextbid w - 1)\<rparr>) = Some (nextbid w - 1)"
    "rs_metrics (newReqState True\<lparr>rs_backend := Some (nextbid w - 1)\<rparr>)"
    "\<not> released (newReqState True\<lparr>rs_backend := Some (nextbid w - 1)\<rparr>)"
    by (simp_all add: newReqState_def)
  show ?thesis
    using readded_name_loses_slots [OF inv v gauge_vec_doc_gauge_read old n x s, where now = 7] by blast
qed

end
