(* ===== verification/Main_Program.thy ===== *)
theory Main_Program
  imports Readded
begin

text \<open>
  The program itself, \<open>cmd/l7LoadBalancer/main.go\<close>: the probe subcommand, start-up from a file
  to a running application or an exit code, and the SIGHUP loop. The flag package, the file system
  and the HTTP client are arguments: the configured path, what loading a path gives, and what a
  GET of a URL gives (the status, or none for a transport error).
\<close>

section \<open>The probe subcommand\<close>

definition probeTimeout :: duration where "probeTimeout = 2 * second"

definition runProbe :: "(string \<Rightarrow> nat option) \<Rightarrow> string \<Rightarrow> nat" where
  "runProbe get url =
     (case get url of
        None \<Rightarrow> 1
      | Some status \<Rightarrow> if status < 200 \<or> status > 299 then 1 else 0)"

text \<open>The exit code and whether the invocation was handled.\<close>

definition probeCommand :: "(string \<Rightarrow> nat option) \<Rightarrow> string list \<Rightarrow> nat \<times> bool" where
  "probeCommand get args =
     (if length args < 2 \<or> args ! 1 \<noteq> ''probe'' then (0, False)
      else if length args < 3 then (2, True)
      else (runProbe get (args ! 2), True))"

section \<open>Start-up\<close>

definition plain_line :: "log_level \<Rightarrow> string \<Rightarrow> (string \<times> log_value) list \<Rightarrow> log_line" where
  "plain_line lv msg attrs = \<lparr>log_level = lv, log_msg = msg, log_attrs = attrs\<rparr>"

text \<open>What the binary and the runtime say about themselves.\<close>

record build_info =
  build_version :: string
  build_commit :: string
  gomaxprocs :: int
  go_version :: string

definition starting_line :: "build_info \<Rightarrow> log_line" where
  "starting_line i = plain_line LevelInfo ''starting''
     [(''version'', VStr (build_version i)), (''commit'', VStr (build_commit i))]"

definition serving_line :: "build_info \<Rightarrow> string \<Rightarrow> Config \<Rightarrow> log_line" where
  "serving_line i path cfg = plain_line LevelInfo ''l7LoadBalancer starting''
     [(''config'', VStr path), (''listen'', VStr (Listen cfg)), (''algorithm'', VStr (Algorithm cfg)),
      (''backend_count'', VInt (int (length (Backends cfg)))), (''circuit_cooldown'', VDuration),
      (''gomaxprocs'', VInt (gomaxprocs i)), (''go_version'', VStr (go_version i))]"

definition startup_error :: "string \<Rightarrow> string \<Rightarrow> log_line" where
  "startup_error msg path = plain_line LevelError msg [(''config'', VStr path), (''err'', VErr)]"

text \<open>
  \<open>main\<close> up to the call of \<open>Run\<close>: an exit code, or the application about to run. \<open>None\<close> is a
  nil dereference.
\<close>

definition main ::
  "(string \<Rightarrow> nat option) \<Rightarrow> build_info \<Rightarrow> string list \<Rightarrow> string \<Rightarrow> (string \<Rightarrow> 'e + Config)
     \<Rightarrow> (string \<Rightarrow> url option) \<Rightarrow> (string \<Rightarrow> string \<Rightarrow> 'c option) \<Rightarrow> 'a outlier_world_scheme
     \<Rightarrow> (nat \<times> 'a outlier_world_scheme + ('c, 'a outlier_world_scheme) app \<times> 'a outlier_world_scheme) option" where
  "main get i args configPath load parse loadPair w0 =
     (let w = log (starting_line i) w0
      in case probeCommand get args of
           (code, True) \<Rightarrow> Some (Inl (code, w))
         | (code, False) \<Rightarrow>
             (case load configPath of
                Inl e \<Rightarrow> Some (Inl (1, log (startup_error ''config load failed'' configPath) w))
              | Inr cfg \<Rightarrow>
                  (case Validate parse cfg of
                     (Some e, cfg) \<Rightarrow> Some (Inl (1, log (startup_error ''config validation failed'' configPath) w))
                   | (None, cfg) \<Rightarrow>
                       (case Build parse loadPair cfg w of
                          None \<Rightarrow> None
                        | Some (Inl e) \<Rightarrow> Some (Inl (1, log (startup_error ''application build failed'' configPath) w))
                        | Some (Inr (a, w)) \<Rightarrow>
                            (if Cooldown (Circuit cfg) = None then None
                             else Some (Inr (a, log (serving_line i configPath cfg) w)))))))"

section \<open>The SIGHUP loop\<close>

definition reloadSignalBuffer :: nat where "reloadSignalBuffer = 1"

fun drainSignals :: "nat \<Rightarrow> nat" where
  "drainSignals 0 = 0"
| "drainSignals (Suc n) = drainSignals n"

text \<open>
  What happens to the loop: a SIGHUP arrives and is queued if the channel has room; the loop finds
  a queued signal, drains the rest and reloads from what the file then holds; or it finds its
  context cancelled and returns.
\<close>

datatype 'e loop_event = Sighup | LoopTurn instant "'e + Config" | LoopCancelled

fun reloadLoop ::
  "(string \<Rightarrow> url option) \<Rightarrow> 'e loop_event list \<Rightarrow> nat \<times> ('c, 'a outlier_world_scheme) app \<times> 'a outlier_world_scheme
     \<Rightarrow> (nat \<times> ('c, 'a outlier_world_scheme) app \<times> 'a outlier_world_scheme) option" where
  "reloadLoop parse [] (q, aw) = Some (q, aw)"
| "reloadLoop parse (Sighup # es) (q, aw) =
     reloadLoop parse es (if q < reloadSignalBuffer then q + 1 else q, aw)"
| "reloadLoop parse (LoopTurn now loaded # es) (q, aw) =
     (case q of
        0 \<Rightarrow> reloadLoop parse es (0, aw)
      | Suc q1 \<Rightarrow>
          (case ReloadFrom parse now loaded aw of
             None \<Rightarrow> None
           | Some (aw, status, err) \<Rightarrow> reloadLoop parse es (drainSignals q1, aw)))"
| "reloadLoop parse (LoopCancelled # es) (q, aw) = Some (q, aw)"

section \<open>Which reloads the loop makes\<close>

text \<open>A signal makes the next turn reload; further signals before that turn change nothing.\<close>

fun due :: "bool \<Rightarrow> 'e loop_event list \<Rightarrow> (instant \<times> ('e + Config)) list" where
  "due p [] = []"
| "due p (Sighup # es) = due True es"
| "due p (LoopTurn now loaded # es) = (if p then (now, loaded) # due False es else due p es)"
| "due p (LoopCancelled # es) = []"

lemma drainSignals_0 [simp]: "drainSignals n = 0"
  by (induction n) simp_all

fun is_sighup :: "'e loop_event \<Rightarrow> bool" where
  "is_sighup Sighup = True"
| "is_sighup e = False"

lemma due_count: "length (due p es) \<le> length (filter is_sighup es) + (if p then 1 else 0)"
proof (induction p es rule: due.induct)
  case (2 p es)
  then show ?case by simp
qed simp_all

lemma due_burst: "due p (replicate (Suc k) Sighup @ es) = due True es"
  by (induction k arbitrary: p) simp_all

lemma reloadLoop_due:
  assumes "app_inv parse aw" and "q \<le> reloadSignalBuffer"
  shows "\<exists>q' aw'. reloadLoop parse es (q, aw) = Some (q', aw') \<and> q' \<le> reloadSignalBuffer \<and>
    reload_attempts parse (due (0 < q) es) aw = Some aw'"
  using assms
proof (induction es arbitrary: q aw)
  case (Cons e es)
  show ?case
  proof (cases e)
    case Sighup
    have "(if q < reloadSignalBuffer then q + 1 else q) = 1" using Cons.prems(2) by (auto simp: reloadSignalBuffer_def)
    then show ?thesis using Cons.IH [OF Cons.prems(1), of 1] Sighup by (simp add: reloadSignalBuffer_def)
  next
    case (LoopTurn now loaded)
    show ?thesis
    proof (cases q)
      case (Suc q1)
      obtain a w where aw: "aw = (a, w)" by (cases aw)
      obtain aw1 st err where r: "ReloadFrom parse now loaded aw = Some (aw1, st, err)" "app_inv parse aw1"
        using ReloadFrom_cases [OF Cons.prems(1) [unfolded aw], where now = now and loaded = loaded] Cons.prems(1)
        unfolding aw by (cases "verdict parse (loadedCfg a) loaded") auto
      show ?thesis using Cons.IH [OF r(2), of 0] LoopTurn Suc r(1) by simp
    qed (use Cons.IH [OF Cons.prems(1), of 0] LoopTurn in simp)
  next
    case LoopCancelled
    then show ?thesis using Cons.prems by simp
  qed
qed simp



section \<open>What start-up comes to\<close>

text \<open>
  C18. The program either exits or is about to serve, and never panics on the way. A handled probe
  exits 0 on a 2xx answer, 1 on any other outcome and 2 without a URL, before any configuration is
  read. Otherwise an unreadable file, an invalid one and an unusable key pair each exit 1 after one
  error line, and in every other case the application serves the loaded file with its defaults.
\<close>

theorem main_serves_or_exits:
  fixes w0 :: "'a outlier_world_scheme" and loadPair :: "string \<Rightarrow> string \<Rightarrow> 'c option" and load :: "string \<Rightarrow> 'e + Config"
    and get i args path parse
  defines "w1 \<equiv> log (starting_line i) w0"
    and "res \<equiv> main get i args path load parse loadPair w0"
  shows "if length args \<ge> 2 \<and> args ! 1 = ''probe''
    then res = Some (Inl (if length args < 3 then 2
           else case get (args ! 2) of None \<Rightarrow> 1 | Some s \<Rightarrow> if 200 \<le> s \<and> s \<le> 299 then 0 else 1, w1))
    else case load path of
        Inl e \<Rightarrow> res = Some (Inl (1, log (startup_error ''config load failed'' path) w1))
      | Inr c \<Rightarrow>
          if \<not> config_ok parse c then res = Some (Inl (1, log (startup_error ''config validation failed'' path) w1))
          else if \<not> pair_loads loadPair c
          then res = Some (Inl (1, log (startup_error ''application build failed'' path) w1))
          else \<exists>a w. res = Some (Inr (a, w)) \<and> app_inv parse (a, w) \<and> loadedCfg a = resolve c \<and> all_closed w"
proof (cases "length args \<ge> 2 \<and> args ! 1 = ''probe''")
  case True
  then show ?thesis
    by (auto simp: res_def main_def w1_def probeCommand_def runProbe_def Let_def split: option.split)
next
  case False
  then have p: "probeCommand get args = (0, False)" by (auto simp: probeCommand_def)
  show ?thesis
  proof (cases "load path")
    case (Inl e)
    then show ?thesis using False p by (simp add: res_def main_def w1_def Let_def)
  next
    case (Inr c)
    show ?thesis
    proof (cases "config_ok parse c")
      case ok: True
      have v: "Validate parse c = (None, resolve c)"
        using ok fst_Validate [of parse c] snd_Validate [OF ok] by (simp add: prod_eq_iff)
      have r: "config_ok parse (resolve c)" "resolved (resolve c)" "Algorithm (resolve c) \<noteq> []"
        using config_ok_resolve [OF ok] by (simp_all add: AlgorithmRoundRobin_def)
      have pl: "pair_loads loadPair (resolve c) = pair_loads loadPair c" by (simp add: pair_loads_def)
      define h where "h = (if H2C (resolve c) then H2CHandler else ProxyHandler)"
      obtain a w where b: "Build parse loadPair (resolve c) w1 =
          map_option (map_sum id (\<lambda>srv. (a\<lparr>clientSrv := srv\<rparr>, w))) (buildClientServer loadPair (resolve c) h)"
        and a: "app_inv parse (a, w)" "loadedCfg a = resolve c" "all_closed w"
        using Build_accepted [OF r, of loadPair w1] unfolding h_def by blast
      have "app_inv parse (a\<lparr>clientSrv := srv\<rparr>, w)" for srv using a(1) by (simp add: app_inv_def Let_def)
      then have inv: "app_inv parse (a\<lparr>clientSrv := srv\<rparr>, log l w)" "all_closed (log l w)" for srv l
        using a(3) by (simp_all add: all_closed_def All_def)
      have cd: "Cooldown (Circuit (resolve c)) \<noteq> None" using r(2) by (simp add: resolved_def)
      show ?thesis
      proof (cases "pair_loads loadPair c")
        case True
        then obtain srv where "buildClientServer loadPair (resolve c) h = Some (Inr srv)"
          using build_server_resolved [OF r(2), of loadPair h] pl by auto
        then have "res = Some (Inr (a\<lparr>clientSrv := srv\<rparr>, log (serving_line i path (resolve c)) w))"
          using p Inr v b cd by (simp add: res_def main_def w1_def [symmetric] Let_def)
        then show ?thesis using False Inr ok True inv a(2) by simp
      next
        case bad: False
        then obtain e where "buildClientServer loadPair (resolve c) h = Some (Inl e)"
          using build_server_resolved [OF r(2), of loadPair h] pl by auto
        then have "res = Some (Inl (1, log (startup_error ''application build failed'' path) w1))"
          using p Inr v b by (simp add: res_def main_def w1_def [symmetric] Let_def)
        then show ?thesis using False Inr ok bad by simp
      qed
    next
      case bad: False
      then obtain e c' where "Validate parse c = (Some e, c')"
        using fst_Validate [of parse c] by (cases "Validate parse c") auto
      then show ?thesis using False p Inr bad by (simp add: res_def main_def w1_def Let_def)
    qed
  qed
qed

end
