(* ===== verification/Demo_Env.thy ===== *)
theory Demo_Env
  imports Float64
begin

text \<open>
  What the programs around the load balancer (\<open>deployments/docker/dummy-backend\<close>,
  \<open>demo/traffic-generator\<close>, \<open>demo/control-service\<close>) share: \<open>float64\<close> values with infinities
  and NaN, \<open>strconv.Atoi\<close>, the string functions of package \<open>strings\<close> they use, and the reading
  of typed values from the environment, which each of them declares for itself with the same body.
  \<open>strconv.ParseFloat\<close> and \<open>math.Pow\<close> are parameters. Subnormal numbers and the sign of zero are
  outside the model.
\<close>

section \<open>\<open>float64\<close> with infinities\<close>

datatype float_value = Fin rat | PosInf | NegInf | NaN

fun fl_less :: "float_value \<Rightarrow> float_value \<Rightarrow> bool" where
  "fl_less (Fin a) (Fin b) = (a < b)"
| "fl_less (Fin a) PosInf = True"
| "fl_less NegInf (Fin b) = True"
| "fl_less NegInf PosInf = True"
| "fl_less _ _ = False"

fun fl_eq :: "float_value \<Rightarrow> float_value \<Rightarrow> bool" where
  "fl_eq NaN _ = False"
| "fl_eq _ NaN = False"
| "fl_eq x y = (x = y)"

definition fl_le :: "float_value \<Rightarrow> float_value \<Rightarrow> bool" where
  "fl_le x y \<longleftrightarrow> fl_less x y \<or> fl_eq x y"

definition fl_round :: "rat \<Rightarrow> float_value" where
  "fl_round x =
     (let r = f64 x in if r \<ge> 2 ^ 1024 then PosInf else if r \<le> - (2 ^ 1024) then NegInf else Fin r)"

definition signed_inf :: "bool \<Rightarrow> float_value" where
  "signed_inf neg = (if neg then NegInf else PosInf)"

fun fl_mul :: "float_value \<Rightarrow> float_value \<Rightarrow> float_value" where
  "fl_mul (Fin a) (Fin b) = fl_round (a * b)"
| "fl_mul NaN _ = NaN"
| "fl_mul _ NaN = NaN"
| "fl_mul (Fin a) PosInf = (if a = 0 then NaN else signed_inf (a < 0))"
| "fl_mul (Fin a) NegInf = (if a = 0 then NaN else signed_inf (a > 0))"
| "fl_mul PosInf (Fin b) = (if b = 0 then NaN else signed_inf (b < 0))"
| "fl_mul NegInf (Fin b) = (if b = 0 then NaN else signed_inf (b > 0))"
| "fl_mul PosInf PosInf = PosInf"
| "fl_mul NegInf NegInf = PosInf"
| "fl_mul PosInf NegInf = NegInf"
| "fl_mul NegInf PosInf = NegInf"

fun fl_div :: "float_value \<Rightarrow> float_value \<Rightarrow> float_value" where
  "fl_div NaN _ = NaN"
| "fl_div _ NaN = NaN"
| "fl_div (Fin a) (Fin b) =
     (if b = 0 then (if a = 0 then NaN else signed_inf (a < 0)) else fl_round (a / b))"
| "fl_div (Fin a) _ = Fin 0"
| "fl_div PosInf (Fin b) = signed_inf (b < 0)"
| "fl_div NegInf (Fin b) = signed_inf (\<not> b < 0)"
| "fl_div _ _ = NaN"

fun fl_add :: "float_value \<Rightarrow> float_value \<Rightarrow> float_value" where
  "fl_add (Fin a) (Fin b) = fl_round (a + b)"
| "fl_add NaN _ = NaN"
| "fl_add _ NaN = NaN"
| "fl_add PosInf NegInf = NaN"
| "fl_add NegInf PosInf = NaN"
| "fl_add PosInf _ = PosInf"
| "fl_add NegInf _ = NegInf"
| "fl_add _ PosInf = PosInf"
| "fl_add _ NegInf = NegInf"

definition fl_neg :: "float_value \<Rightarrow> float_value" where
  "fl_neg x = (case x of Fin a \<Rightarrow> Fin (- a) | PosInf \<Rightarrow> NegInf | NegInf \<Rightarrow> PosInf | NaN \<Rightarrow> NaN)"

text \<open>The conversion to \<open>int64\<close>; out of range it gives what amd64's instruction gives.\<close>

definition fl_to_int64 :: "float_value \<Rightarrow> int" where
  "fl_to_int64 x = (case x of Fin a \<Rightarrow> f64_to_int64 a | _ \<Rightarrow> - (2 ^ 63))"

section \<open>Sums that wrap\<close>

lemma wrap64_sub: "wrap64 (i - 2 ^ 64) = wrap64 i"
  unfolding wrap64_def
  by (subst signed_take_bit_eq_iff_take_bit_eq) (simp add: take_bit_eq_mod)

lemma wrap64_add_right: "wrap64 (b + wrap64 a) = wrap64 (b + a)"
  using wrap64_add [of a b] by (simp add: add.commute)

lemma wrap64_add_mid: "wrap64 (a + (wrap64 b + c)) = wrap64 (a + (b + c))"
  using wrap64_add [of b "a + c"] by (simp add: algebra_simps)

lemmas wrap64_adds = wrap64_add wrap64_add_right wrap64_add_mid

section \<open>Strings\<close>

text \<open>\<open>strings.Split(s, ",")\<close>.\<close>

fun split_comma_loop :: "string \<Rightarrow> string \<Rightarrow> string list" where
  "split_comma_loop acc [] = [rev acc]"
| "split_comma_loop acc (c # cs) =
     (if c = CHR 0x2C then rev acc # split_comma_loop [] cs else split_comma_loop (c # acc) cs)"

definition split_comma :: "string \<Rightarrow> string list" where
  "split_comma s = split_comma_loop [] s"

text \<open>
  \<open>strings.TrimSpace\<close>: the encodings of the white space characters of Unicode, removed from
  either end.
\<close>

definition space_encodings :: "string list" where
  "space_encodings =
     [[CHR 0x09], [CHR 0x0A], [CHR 0x0B], [CHR 0x0C], [CHR 0x0D], [CHR 0x20],
      [CHR 0xC2, CHR 0x85], [CHR 0xC2, CHR 0xA0], [CHR 0xE1, CHR 0x9A, CHR 0x80]] @
     map (\<lambda>b. [CHR 0xE2, CHR 0x80, char_of b]) [0x80 :: nat ..< 0x8B] @
     [[CHR 0xE2, CHR 0x80, CHR 0xA8], [CHR 0xE2, CHR 0x80, CHR 0xA9], [CHR 0xE2, CHR 0x80, CHR 0xAF],
      [CHR 0xE2, CHR 0x81, CHR 0x9F], [CHR 0xE3, CHR 0x80, CHR 0x80]]"

function trim_prefixes :: "string list \<Rightarrow> string \<Rightarrow> string" where
  "trim_prefixes ps s =
     (case find (\<lambda>p. p \<noteq> [] \<and> s \<noteq> [] \<and> has_prefix s p) ps of
        None \<Rightarrow> s
      | Some p \<Rightarrow> trim_prefixes ps (drop (length p) s))"
  by auto

termination
  by (relation "measure (length \<circ> snd)") (auto simp: find_Some_iff)

declare trim_prefixes.simps [simp del]

definition TrimSpace :: "string \<Rightarrow> string" where
  "TrimSpace s = rev (trim_prefixes (map rev space_encodings) (rev (trim_prefixes space_encodings s)))"

text \<open>\<open>strings.TrimRight(s, "/")\<close>.\<close>

definition trim_right_slash :: "string \<Rightarrow> string" where
  "trim_right_slash s = rev (dropWhile (\<lambda>c. c = CHR 0x2F) (rev s))"

section \<open>Typed values from the environment\<close>

text \<open>\<open>strconv.Atoi\<close>: an optional sign, then decimal digits, within \<open>int64\<close>.\<close>

fun digits_value :: "nat \<Rightarrow> string \<Rightarrow> nat option" where
  "digits_value n [] = Some n"
| "digits_value n (c # cs) =
     (if is_digit c then digits_value (n * 10 + digit_value c) cs else None)"

definition atoi :: "string \<Rightarrow> int option" where
  "atoi s =
     (let (neg, ds) = (case s of
            c # cs \<Rightarrow> if c = CHR 0x2D then (True, cs) else if c = CHR 0x2B then (False, cs) else (False, s)
          | [] \<Rightarrow> (False, []))
      in if ds = [] then None
         else case digits_value 0 ds of
                None \<Rightarrow> None
              | Some n \<Rightarrow> (let i = (if neg then - int n else int n) in if in_int64 i then Some i else None))"

type_synonym environment = "string \<Rightarrow> string option"

datatype env_error = NotInteger string string | NegativeInt string int | NotNumber string string
  | NotBool string string | NotSet string | EmptyList string

text \<open>Set and not empty.\<close>

definition env_raw :: "environment \<Rightarrow> string \<Rightarrow> string option" where
  "env_raw env key = (case env key of None \<Rightarrow> None | Some raw \<Rightarrow> if raw = [] then None else Some raw)"

definition envInt :: "environment \<Rightarrow> string \<Rightarrow> int \<Rightarrow> env_error + int" where
  "envInt env key def =
     (case env_raw env key of
        None \<Rightarrow> Inr def
      | Some raw \<Rightarrow>
          (case atoi raw of
             None \<Rightarrow> Inl (NotInteger key raw)
           | Some v \<Rightarrow> if v < 0 then Inl (NegativeInt key v) else Inr v))"

definition envFloat ::
  "(string \<Rightarrow> float_value option) \<Rightarrow> environment \<Rightarrow> string \<Rightarrow> float_value \<Rightarrow> env_error + float_value" where
  "envFloat parse_float env key def =
     (case env_raw env key of
        None \<Rightarrow> Inr def
      | Some raw \<Rightarrow> (case parse_float raw of None \<Rightarrow> Inl (NotNumber key raw) | Some v \<Rightarrow> Inr v))"

definition envRequired :: "environment \<Rightarrow> string \<Rightarrow> env_error + string" where
  "envRequired env key = (case env_raw env key of None \<Rightarrow> Inl (NotSet key) | Some raw \<Rightarrow> Inr raw)"

end
