(* ===== verification/Dummy_Backend.thy ===== *)
theory Dummy_Backend
  imports Demo_Env Logger
begin

text \<open>
  The dummy backend, \<open>deployments/docker/dummy-backend/main.go\<close>: its start-up checks, the request
  handler with its injected latency and failures, and the admin listener that changes them. The
  chaos profile sits behind an atomic pointer that a request reads once, so a request and an admin
  update are each one operation on the backend's state. Random draws are arguments; decoding a
  JSON body is a parameter that gives its result. A handler that panics aborts its connection,
  the value \<open>None\<close>. Times of day and the texts of errors are not modelled.
\<close>

definition defaultAddr :: string where "defaultAddr = '':8080''"
definition defaultAdminAddr :: string where "defaultAdminAddr = '':9091''"

text \<open>The payloads are zero bytes, so a payload is its size.\<close>

definition payloads :: "string \<rightharpoonup> nat" where
  "payloads = [''/200b'' \<mapsto> 200, ''/10kb'' \<mapsto> 10 * 1024, ''/1mb'' \<mapsto> 2 ^ 20]"

record profile =
  sleepMS :: int
  jitterMS :: int
  failRate :: float_value

record dummy_backend =
  dummy_name :: string
  dummy_logRequests :: bool
  arrivals :: int
  chaos :: profile
  dummy_logs :: "log_line list"

definition new_dummy :: "string \<Rightarrow> profile \<Rightarrow> bool \<Rightarrow> dummy_backend" where
  "new_dummy name initial lr =
     \<lparr>dummy_name = name, dummy_logRequests = lr, arrivals = 0, chaos = initial, dummy_logs = []\<rparr>"

section \<open>The request handler\<close>

record dummy_request =
  d_method :: string
  d_path :: string
  d_remote :: string

datatype dummy_body = OkText | StatsResponse string int | BackendName string | PayloadBody nat | ErrorText

record dummy_response =
  d_status :: nat
  d_allow :: "string option"
  d_body :: dummy_body
  d_slept :: duration

definition dummy_logRequest :: "dummy_request \<Rightarrow> nat \<Rightarrow> dummy_backend \<Rightarrow> dummy_backend" where
  "dummy_logRequest r status b =
     (if \<not> dummy_logRequests b then b
      else b\<lparr>dummy_logs := dummy_logs b @
        [\<lparr>log_level = LevelInfo, log_msg = ''request complete'',
          log_attrs = [(''backend'', VStr (dummy_name b)), (''method'', VStr (d_method r)),
            (''status'', VInt (int status)), (''latency_ms'', VDuration), (''remote_addr'', VStr (d_remote r)),
            (''path'', VStr (d_path r))]\<rparr>]\<rparr>)"

definition methodNotAllowed :: "dummy_request \<Rightarrow> dummy_backend \<Rightarrow> dummy_backend \<times> dummy_response" where
  "methodNotAllowed r b =
     (dummy_logRequest r 405 b, \<lparr>d_status = 405, d_allow = Some ''GET'', d_body = ErrorText, d_slept = 0\<rparr>)"

text \<open>
  \<open>draw n\<close> is what \<open>rand.IntN(n)\<close> returns, which panics unless \<open>n\<close> is positive.
\<close>

definition effectiveSleep :: "(int \<Rightarrow> int) \<Rightarrow> profile \<Rightarrow> duration option" where
  "effectiveSleep draw p =
     (let ms = sleepMS p;
          jittered =
            (if jitterMS p > 0
             then (let n = wrap64 (wrap64 (2 * jitterMS p) + 1)
                   in if n \<le> 0 then None else Some (wrap64 (ms + wrap64 (draw n - jitterMS p))))
             else Some ms)
      in case jittered of
           None \<Rightarrow> None
         | Some ms \<Rightarrow> (let ms = (if ms < 0 then 0 else ms) in Some (wrap64 (ms * 1000000))))"

definition plain_response :: "nat \<Rightarrow> dummy_body \<Rightarrow> duration \<Rightarrow> dummy_response" where
  "plain_response status body slept = \<lparr>d_status = status, d_allow = None, d_body = body, d_slept = slept\<rparr>"

definition handler ::
  "(int \<Rightarrow> int) \<Rightarrow> rat \<Rightarrow> dummy_request \<Rightarrow> dummy_backend \<Rightarrow> dummy_backend \<times> dummy_response option" where
  "handler draw toss r b =
     (if d_path r = ''/health'' \<or> d_path r = ''/stats'' then
        (if d_method r \<noteq> ''GET'' then map_prod id Some (methodNotAllowed r b)
         else
           (let body = (if d_path r = ''/health'' then OkText else StatsResponse (dummy_name b) (arrivals b))
            in (dummy_logRequest r 200 b, Some (plain_response 200 body 0))))
      else
        (let payload = payloads (d_path r)
         in if d_method r \<noteq> ''GET'' \<and> \<not> (d_method r = ''POST'' \<and> payload \<noteq> None)
            then map_prod id Some (methodNotAllowed r b)
            else
              (let b = b\<lparr>arrivals := wrap64 (arrivals b + 1)\<rparr>; p = chaos b
               in case effectiveSleep draw p of
                    None \<Rightarrow> (b, None)
                  | Some d \<Rightarrow>
                      (let slept = (if d > 0 then d else 0);
                           status = (if fl_less (Fin 0) (failRate p) \<and> fl_less (Fin toss) (failRate p)
                                     then 500 else 200)
                       in case payload of
                            Some bytes \<Rightarrow>
                              (dummy_logRequest r status b, Some (plain_response status (PayloadBody bytes) slept))
                          | None \<Rightarrow>
                              (dummy_logRequest r status b,
                               Some (plain_response status (BackendName (dummy_name b)) slept))))))"

section \<open>The admin listener\<close>

record adminRequest =
  in_sleepMS :: "int option"
  in_jitterMS :: "int option"
  in_failRate :: "float_value option"

datatype 'r decoded = DecodeError | DecodeEOF | Decoded 'r

datatype admin_answer = AdminMethodNotAllowed | AdminBadRequest | AdminProfile profile

definition empty_request :: adminRequest where
  "empty_request = \<lparr>in_sleepMS = None, in_jitterMS = None, in_failRate = None\<rparr>"

text \<open>The checked update of a copy of the profile; \<open>None\<close> is a 400.\<close>

definition apply_update :: "adminRequest \<Rightarrow> profile \<Rightarrow> profile option" where
  "apply_update req p =
     (case (case in_sleepMS req of
              None \<Rightarrow> Some p
            | Some v \<Rightarrow> if v < 0 then None else Some (p\<lparr>sleepMS := v\<rparr>)) of
        None \<Rightarrow> None
      | Some p \<Rightarrow>
          (case (case in_jitterMS req of
                   None \<Rightarrow> Some p
                 | Some v \<Rightarrow> if v < 0 then None else Some (p\<lparr>jitterMS := v\<rparr>)) of
             None \<Rightarrow> None
           | Some p \<Rightarrow>
               (case in_failRate req of
                  None \<Rightarrow> Some p
                | Some v \<Rightarrow> if fl_less v (Fin 0) \<or> fl_less (Fin 1) v then None
                            else Some (p\<lparr>failRate := v\<rparr>))))"

definition admin_update ::
  "string \<Rightarrow> adminRequest decoded \<Rightarrow> dummy_backend \<Rightarrow> dummy_backend \<times> admin_answer" where
  "admin_update method body b =
     (if method \<noteq> ''POST'' then (b, AdminMethodNotAllowed)
      else case body of
        DecodeError \<Rightarrow> (b, AdminBadRequest)
      | _ \<Rightarrow>
          (let req = (case body of Decoded r \<Rightarrow> r | _ \<Rightarrow> empty_request)
           in case apply_update req (chaos b) of
                None \<Rightarrow> (b, AdminBadRequest)
              | Some next \<Rightarrow> (b\<lparr>chaos := next\<rparr>, AdminProfile next)))"

section \<open>Start-up\<close>

datatype tls_error = CertMissing | KeyMissing

text \<open>\<open>os.Getenv\<close> reads an unset variable as the empty string.\<close>

definition getenv :: "environment \<Rightarrow> string \<Rightarrow> string" where
  "getenv env key = (case env key of None \<Rightarrow> [] | Some v \<Rightarrow> v)"

definition tlsFilesFromEnv :: "environment \<Rightarrow> tls_error + string \<times> string" where
  "tlsFilesFromEnv env =
     (let certFile = getenv env ''TLS_CERT_FILE''; keyFile = getenv env ''TLS_KEY_FILE''
      in if certFile = [] \<and> keyFile = [] then Inr ([], [])
         else if certFile = [] then Inl CertMissing
         else if keyFile = [] then Inl KeyMissing
         else Inr (certFile, keyFile))"

definition envBool :: "environment \<Rightarrow> string \<Rightarrow> bool \<Rightarrow> env_error + bool" where
  "envBool env key def =
     (case env_raw env key of
        None \<Rightarrow> Inr def
      | Some raw \<Rightarrow>
          if raw = ''true'' then Inr True else if raw = ''false'' then Inr False else Inl (NotBool key raw))"

datatype dummy_error = DummyEnv env_error | FailRateRange float_value | DummyTLS tls_error

record dummy_setup =
  setup_backend :: dummy_backend
  setup_addr :: string
  setup_admin :: "string option"
  setup_tls :: "(string \<times> string) option"

text \<open>
  \<open>main\<close> up to listening: an error is logged and exits 1. The admin listener's address is there
  exactly when it was enabled.
\<close>

definition dummy_main ::
  "(string \<Rightarrow> float_value option) \<Rightarrow> environment \<Rightarrow> string \<Rightarrow> string \<Rightarrow> dummy_error + dummy_setup" where
  "dummy_main parse_float env name addr =
     (case envInt env ''SLEEP_MS'' 0 of Inl e \<Rightarrow> Inl (DummyEnv e) | Inr sleep \<Rightarrow>
      (case envFloat parse_float env ''FAIL_RATE'' (Fin 0) of Inl e \<Rightarrow> Inl (DummyEnv e) | Inr rate \<Rightarrow>
      if fl_less rate (Fin 0) \<or> fl_less (Fin 1) rate then Inl (FailRateRange rate) else
      (case envBool env ''LOG_REQUESTS'' True of Inl e \<Rightarrow> Inl (DummyEnv e) | Inr lr \<Rightarrow>
      (case tlsFilesFromEnv env of Inl e \<Rightarrow> Inl (DummyTLS e) | Inr (certFile, keyFile) \<Rightarrow>
      (case envBool env ''ADMIN_ENABLED'' False of Inl e \<Rightarrow> Inl (DummyEnv e) | Inr adminEnabled \<Rightarrow>
        Inr \<lparr>setup_backend = new_dummy name \<lparr>sleepMS = sleep, jitterMS = 0, failRate = rate\<rparr> lr,
             setup_addr = addr, setup_admin = (if adminEnabled then Some defaultAdminAddr else None),
             setup_tls = (if certFile \<noteq> [] then Some (certFile, keyFile) else None)\<rparr>)))))"

section \<open>What holds of every running dummy backend\<close>

definition chaos_ok :: "profile \<Rightarrow> bool" where
  "chaos_ok p \<longleftrightarrow> 0 \<le> sleepMS p \<and> 0 \<le> jitterMS p \<and> \<not> fl_less (failRate p) (Fin 0) \<and> \<not> fl_less (Fin 1) (failRate p)"

definition counted :: "dummy_request \<Rightarrow> bool" where
  "counted r \<longleftrightarrow> d_path r \<noteq> ''/health'' \<and> d_path r \<noteq> ''/stats'' \<and>
     (d_method r = ''GET'' \<or> d_method r = ''POST'' \<and> payloads (d_path r) \<noteq> None)"

lemma dummy_logRequest_fields [simp]:
  "dummy_name (dummy_logRequest r s b) = dummy_name b" "arrivals (dummy_logRequest r s b) = arrivals b"
  "chaos (dummy_logRequest r s b) = chaos b"
  by (simp_all add: dummy_logRequest_def)

lemma handler_uncounted:
  assumes "\<not> counted r"
  shows "\<exists>resp. handler draw toss r b = (dummy_logRequest r (d_status resp) b, Some resp) \<and> d_slept resp = 0 \<and>
    (if d_method r = ''GET'' then d_status resp = 200 \<and> d_body resp =
        (if d_path r = ''/health'' then OkText else StatsResponse (dummy_name b) (arrivals b))
     else d_status resp = 405 \<and> d_allow resp = Some ''GET'')"
  using assms by (auto simp: handler_def counted_def methodNotAllowed_def plain_response_def Let_def)

lemma handler_counted:
  assumes "counted r"
  shows "handler draw toss r b =
    (let b1 = b\<lparr>arrivals := wrap64 (arrivals b + 1)\<rparr>;
         fails = fl_less (Fin 0) (failRate (chaos b)) \<and> fl_less (Fin toss) (failRate (chaos b));
         status = (if fails then 500 else 200);
         body = (case payloads (d_path r) of Some n \<Rightarrow> PayloadBody n | None \<Rightarrow> BackendName (dummy_name b))
     in case effectiveSleep draw (chaos b) of
          None \<Rightarrow> (b1, None)
        | Some d \<Rightarrow> (dummy_logRequest r status b1, Some (plain_response status body (if d > 0 then d else 0))))"
  using assms by (auto simp: handler_def counted_def Let_def split: option.split)

lemma apply_update_ok: "apply_update req p = Some p' \<Longrightarrow> chaos_ok p \<Longrightarrow> chaos_ok p'"
  by (auto simp: apply_update_def chaos_ok_def split: option.splits if_splits)

lemma admin_update_ok:
  assumes "chaos_ok (chaos b)"
  shows "chaos_ok (chaos (fst (admin_update method body b)))"
    "arrivals (fst (admin_update method body b)) = arrivals b"
    "dummy_name (fst (admin_update method body b)) = dummy_name b"
  using assms by (auto simp: admin_update_def Let_def apply_update_ok split: decoded.split option.split)

lemma handler_keeps:
  "chaos (fst (handler draw toss r b)) = chaos b" "dummy_name (fst (handler draw toss r b)) = dummy_name b"
  "arrivals (fst (handler draw toss r b)) = (if counted r then wrap64 (arrivals b + 1) else arrivals b)"
proof -
  show "chaos (fst (handler draw toss r b)) = chaos b" "dummy_name (fst (handler draw toss r b)) = dummy_name b"
    "arrivals (fst (handler draw toss r b)) = (if counted r then wrap64 (arrivals b + 1) else arrivals b)"
    using handler_counted [of r draw toss b] handler_uncounted [of r draw toss b]
    by (cases "counted r"; auto simp: Let_def split: option.split)+
qed

text \<open>A history of one backend process: requests on the proxied port and updates on the other one.\<close>

datatype dummy_event = Serve "int \<Rightarrow> int" rat dummy_request | Update string "adminRequest decoded"

fun dummy_step :: "dummy_event \<Rightarrow> dummy_backend \<Rightarrow> dummy_backend" where
  "dummy_step (Serve draw toss r) b = fst (handler draw toss r b)"
| "dummy_step (Update method body) b = fst (admin_update method body b)"

fun counted_event :: "dummy_event \<Rightarrow> bool" where
  "counted_event (Serve draw toss r) = counted r"
| "counted_event (Update method body) = False"

lemma dummy_run_inv:
  assumes "chaos_ok (chaos b)" and "arrivals b = wrap64 k"
  shows "chaos_ok (chaos (fold dummy_step es b)) \<and> dummy_name (fold dummy_step es b) = dummy_name b \<and>
    arrivals (fold dummy_step es b) = wrap64 (k + int (length (filter counted_event es)))"
  using assms
proof (induction es arbitrary: b k)
  case (Cons e es)
  define k' where "k' = (if counted_event e then k + 1 else k)"
  have "chaos_ok (chaos (dummy_step e b)) \<and> arrivals (dummy_step e b) = wrap64 k' \<and>
      dummy_name (dummy_step e b) = dummy_name b"
    using Cons.prems admin_update_ok by (cases e) (auto simp: handler_keeps k'_def wrap64_add)
  then show ?case using Cons.IH [of "dummy_step e b" k'] by (simp add: k'_def add.assoc)
qed simp

text \<open>
  C27. From a successful start, whatever requests and admin updates arrive: the profile stays valid
  (no negative sleep or jitter, a failure rate not outside 0 to 1), \<open>/stats\<close> reports exactly the
  number of benchmark requests that arrived, the failing and panicking ones included, modulo
  64-bit wrap-around, and the control paths stay outside both.
\<close>

theorem dummy_backend_invariant:
  fixes es draw toss
  assumes "dummy_main parse_float env name addr = Inr setup"
  defines "b \<equiv> fold dummy_step es (setup_backend setup)"
  shows "chaos_ok (chaos b) \<and>
    (\<exists>resp. handler draw toss \<lparr>d_method = ''GET'', d_path = ''/stats'', d_remote = addr\<rparr> b =
       (dummy_logRequest \<lparr>d_method = ''GET'', d_path = ''/stats'', d_remote = addr\<rparr> 200 b, Some resp) \<and>
       d_status resp = 200 \<and> d_slept resp = 0 \<and>
       d_body resp = StatsResponse name (wrap64 (int (length (filter counted_event es)))))"
proof -
  have m: "chaos_ok (chaos (setup_backend setup))" "arrivals (setup_backend setup) = wrap64 0"
    "dummy_name (setup_backend setup) = name"
    using assms(1) wrap64_id [of 0]
    by (auto simp: dummy_main_def new_dummy_def chaos_ok_def envInt_def in_int64_def split: sum.splits option.splits if_splits)
  have r: "chaos_ok (chaos b)" "dummy_name b = name"
    "arrivals b = wrap64 (int (length (filter counted_event es)))"
    using dummy_run_inv [OF m(1,2), of es] m(3) by (simp_all add: b_def)
  have "\<not> counted \<lparr>d_method = ''GET'', d_path = ''/stats'', d_remote = addr\<rparr>" by (simp add: counted_def)
  from handler_uncounted [OF this, of draw toss b] r show ?thesis by auto
qed

definition sample_setup :: dummy_setup where
  "sample_setup = \<lparr>setup_backend = new_dummy ''b'' \<lparr>sleepMS = 0, jitterMS = 0, failRate = Fin 0\<rparr> True,
     setup_addr = defaultAddr, setup_admin = None, setup_tls = None\<rparr>"

lemma sample_dummy_main: "dummy_main (\<lambda>s. None) (\<lambda>k. None) ''b'' defaultAddr = Inr sample_setup"
  by (simp add: dummy_main_def envInt_def envFloat_def envBool_def env_raw_def tlsFilesFromEnv_def getenv_def
      sample_setup_def)

theorem dummy_backend_invariant_witness:
  "\<exists>resp. handler (\<lambda>n. 0) 0 \<lparr>d_method = ''GET'', d_path = ''/stats'', d_remote = defaultAddr\<rparr>
      (fold dummy_step [Update ''POST'' (Decoded (empty_request\<lparr>in_failRate := Some (Fin 1)\<rparr>)),
        Serve (\<lambda>n. 0) (1 / 2) \<lparr>d_method = ''GET'', d_path = ''/200b'', d_remote = []\<rparr>] (setup_backend sample_setup)) =
      (dummy_logRequest \<lparr>d_method = ''GET'', d_path = ''/stats'', d_remote = defaultAddr\<rparr> 200 (fold dummy_step
        [Update ''POST'' (Decoded (empty_request\<lparr>in_failRate := Some (Fin 1)\<rparr>)),
         Serve (\<lambda>n. 0) (1 / 2) \<lparr>d_method = ''GET'', d_path = ''/200b'', d_remote = []\<rparr>] (setup_backend sample_setup)), Some resp) \<and>
    d_body resp = StatsResponse ''b'' 1"
proof -
  have "counted \<lparr>d_method = ''GET'', d_path = ''/200b'', d_remote = []\<rparr>" by (simp add: counted_def)
  moreover have "wrap64 1 = 1" by (rule wrap64_id) (simp add: in_int64_def)
  ultimately show ?thesis
    using dummy_backend_invariant [OF sample_dummy_main, where draw = "\<lambda>n. 0" and toss = 0 and
        es = "[Update ''POST'' (Decoded (empty_request\<lparr>in_failRate := Some (Fin 1)\<rparr>)),
          Serve (\<lambda>n. 0) (1 / 2) \<lparr>d_method = ''GET'', d_path = ''/200b'', d_remote = []\<rparr>]"]
    by (simp del: dummy_step.simps) blast
qed

section \<open>The injected delay\<close>

lemma effectiveSleep_bounds:
  assumes "chaos_ok p" and "sleepMS p + jitterMS p \<le> 9223372036854"
    and "\<forall>n > 0. 0 \<le> draw n \<and> draw n < n"
  shows "\<exists>d. effectiveSleep draw p = Some d \<and> 0 \<le> d \<and> (sleepMS p - jitterMS p) * 1000000 \<le> d \<and>
    d \<le> (sleepMS p + jitterMS p) * 1000000"
proof -
  have s: "0 \<le> sleepMS p" "0 \<le> jitterMS p" using assms(1) by (simp_all add: chaos_ok_def)
  define n where "n = 2 * jitterMS p + 1"
  have n: "0 < n" "wrap64 (wrap64 (2 * jitterMS p) + 1) = n"
    using s assms(2) wrap64_id [of "2 * jitterMS p"] wrap64_id [of n] by (simp_all add: n_def in_int64_def)
  have "0 \<le> draw n \<and> draw n < n" using assms(3) n(1) by blast
  then have d: "0 \<le> draw n" "draw n \<le> 2 * jitterMS p" by (simp_all add: n_def)
  define ms where "ms = (if jitterMS p > 0 then sleepMS p + (draw n - jitterMS p) else sleepMS p)"
  have ms: "sleepMS p - jitterMS p \<le> ms" "ms \<le> sleepMS p + jitterMS p" using d s by (auto simp: ms_def)
  have w: "wrap64 (draw n - jitterMS p) = draw n - jitterMS p"
    "wrap64 (sleepMS p + (draw n - jitterMS p)) = sleepMS p + (draw n - jitterMS p)"
    "wrap64 (max ms 0 * 1000000) = max ms 0 * 1000000"
    using d s assms(2) ms by (auto intro!: wrap64_id simp: in_int64_def)
  have "effectiveSleep draw p = Some (max ms 0 * 1000000)"
    using n w by (auto simp: effectiveSleep_def Let_def ms_def)
  then show ?thesis using ms s by auto
qed

text \<open>
  The admin listener accepts any jitter that is not negative. From \<open>2 ^ 62\<close> on,
  \<open>2*jitter+1\<close> wraps to a negative number and \<open>rand.IntN\<close> panics: after such an accepted update
  every benchmark request is counted and then aborted without an answer or a log line.
\<close>

theorem huge_jitter_aborts_requests:
  fixes b draw toss
  assumes "2 ^ 62 \<le> j" and "j < 2 ^ 63" and "counted r"
  defines "b' \<equiv> fst (admin_update ''POST'' (Decoded (empty_request\<lparr>in_jitterMS := Some j\<rparr>)) b)"
  shows "snd (admin_update ''POST'' (Decoded (empty_request\<lparr>in_jitterMS := Some j\<rparr>)) b) =
      AdminProfile ((chaos b)\<lparr>jitterMS := j\<rparr>) \<and>
    handler draw toss r b' = (b'\<lparr>arrivals := wrap64 (arrivals b' + 1)\<rparr>, None)"
proof -
  have u: "admin_update ''POST'' (Decoded (empty_request\<lparr>in_jitterMS := Some j\<rparr>)) b =
      (b\<lparr>chaos := (chaos b)\<lparr>jitterMS := j\<rparr>\<rparr>, AdminProfile ((chaos b)\<lparr>jitterMS := j\<rparr>))"
    using assms(1) by (simp add: admin_update_def apply_update_def empty_request_def)
  have "wrap64 (2 * j) = 2 * j - 2 ^ 64"
    using wrap64_sub [of "2 * j"] wrap64_id [of "2 * j - 2 ^ 64"] assms(1,2) by (simp add: in_int64_def)
  moreover have "wrap64 (2 * j - 2 ^ 64 + 1) = 2 * j - 2 ^ 64 + 1"
    using assms(1,2) by (intro wrap64_id) (simp add: in_int64_def)
  ultimately have "effectiveSleep draw (chaos b') = None"
    using assms(1,2) by (simp add: effectiveSleep_def b'_def u Let_def)
  then show ?thesis using handler_counted [OF assms(3), of draw toss b'] u by (simp add: Let_def)
qed

theorem huge_jitter_aborts_requests_witness:
  "snd (handler (\<lambda>n. 0) 0 \<lparr>d_method = ''GET'', d_path = ''/'', d_remote = []\<rparr>
     (fst (admin_update ''POST'' (Decoded (empty_request\<lparr>in_jitterMS := Some (2 ^ 62)\<rparr>)) (setup_backend sample_setup)))) = None"
proof -
  have c: "counted \<lparr>d_method = ''GET'', d_path = ''/'', d_remote = []\<rparr>" by (simp add: counted_def)
  have j: "2 ^ 62 \<le> (2 ^ 62 :: int)" "(2 ^ 62 :: int) < 2 ^ 63" by simp_all
  show ?thesis using huge_jitter_aborts_requests [OF j c] by simp
qed

end
