(* ===== verification/Traffic_Generator.thy ===== *)
theory Traffic_Generator
  imports Demo_Env
begin

text \<open>
  The demo's traffic client, \<open>demo/traffic-generator/main.go\<close>: its configuration, the scheduling of
  Poisson arrivals, the bounded dispatch with its delivery counters, the weighted mix of requests,
  and the control endpoint. The arrival loop is one goroutine, each dispatched request another;
  the state changes at each atomic action of an arrival, when a request's outcome is counted, when
  its slot is given back, and at a control update. A control update, and the reads of a status answer,
  are taken as one step each. Random draws, the outcome of a request and the decoding of a JSON
  body are arguments. Texts of errors are not modelled.
\<close>

definition defaultControlAddr :: string where "defaultControlAddr = '':9090''"
definition defaultClients :: int where "defaultClients = 8"
definition defaultZipfS :: float_value where "defaultZipfS = Fin 1"
definition defaultTotalRate :: float_value where "defaultTotalRate = Fin 200"
definition defaultMaxInflight :: int where "defaultMaxInflight = 64"
definition pollInterval :: duration where "pollInterval = 50000000"

text \<open>The largest duration in seconds, \<open>float64(math.MaxInt64) / float64(time.Second)\<close>.\<close>

definition maxWaitSeconds :: rat where "maxWaitSeconds = f64 (2 ^ 63 / 10 ^ 9)"

section \<open>Configuration\<close>

record gen_config =
  rank :: int
  clients :: int
  zipfS :: float_value
  totalRate :: float_value
  target :: string
  allowlist :: "string list"
  maxInflight :: int
  gen_addr :: string

record settings =
  set_rate :: float_value
  set_target :: string

fun csv_entries :: "string list \<Rightarrow> string list" where
  "csv_entries [] = []"
| "csv_entries (part # parts) =
     (let p = TrimSpace part in if p \<noteq> [] then p # csv_entries parts else csv_entries parts)"

definition envCSV :: "environment \<Rightarrow> string \<Rightarrow> env_error + string list" where
  "envCSV env key =
     (case envRequired env key of
        Inl e \<Rightarrow> Inl e
      | Inr raw \<Rightarrow>
          (let out = csv_entries (split_comma raw) in if length out = 0 then Inl (EmptyList key) else Inr out))"

definition envIntRequired :: "environment \<Rightarrow> string \<Rightarrow> env_error + int" where
  "envIntRequired env key =
     (case envRequired env key of
        Inl e \<Rightarrow> Inl e
      | Inr raw \<Rightarrow> (case atoi raw of None \<Rightarrow> Inl (NotInteger key raw) | Some v \<Rightarrow> Inr v))"

fun contains :: "string list \<Rightarrow> string \<Rightarrow> bool" where
  "contains [] want = False"
| "contains (v # vs) want = (if v = want then True else contains vs want)"

definition configFromEnv ::
  "(string \<Rightarrow> float_value option) \<Rightarrow> environment \<Rightarrow> env_error + gen_config" where
  "configFromEnv parse_float env =
     (case envInt env ''CLIENTS'' defaultClients of Inl e \<Rightarrow> Inl e | Inr n \<Rightarrow>
      (case envIntRequired env ''RANK'' of Inl e \<Rightarrow> Inl e | Inr k \<Rightarrow>
      (case envFloat parse_float env ''ZIPF_S'' defaultZipfS of Inl e \<Rightarrow> Inl e | Inr s \<Rightarrow>
      (case envFloat parse_float env ''TOTAL_RATE'' defaultTotalRate of Inl e \<Rightarrow> Inl e | Inr r \<Rightarrow>
      (case envInt env ''MAX_INFLIGHT'' defaultMaxInflight of Inl e \<Rightarrow> Inl e | Inr m \<Rightarrow>
      (case envCSV env ''TARGET_ALLOWLIST'' of Inl e \<Rightarrow> Inl e | Inr al \<Rightarrow>
      (case envRequired env ''TARGET_LB'' of Inl e \<Rightarrow> Inl e | Inr t \<Rightarrow>
         Inr \<lparr>rank = k, clients = n, zipfS = s, totalRate = r, target = t, allowlist = al,
              maxInflight = m, gen_addr = []\<rparr>)))))))"

section \<open>The generator\<close>

text \<open>A request in flight: its target and, once counted, whether it completed.\<close>

record flight =
  fl_target :: string
  fl_outcome :: "bool option"

text \<open>
  Where the arrival loop is: waiting for the next arrival, having offered one, in either branch of
  the \<open>select\<close> before its counter is written, or having counted a request it has not started.
\<close>

datatype arrival_phase = ArrWaiting | ArrOffered | ArrSlot | ArrFull | ArrCounted

record generator =
  gen_cfg :: gen_config
  share :: float_value
  gen_settings :: settings
  offered :: int
  sent :: int
  dropped :: int
  completed :: int
  failed :: int
  gen_phase :: arrival_phase
  in_flight :: "flight list"

text \<open>The sum runs over the ranks in order.\<close>

fun zipf_sum :: "(float_value \<Rightarrow> float_value \<Rightarrow> float_value) \<Rightarrow> float_value \<Rightarrow> int list \<Rightarrow> float_value \<Rightarrow> float_value" where
  "zipf_sum pow s [] acc = acc"
| "zipf_sum pow s (i # is) acc = zipf_sum pow s is (fl_add acc (pow (Fin (f64_of_int64 i)) (fl_neg s)))"

definition zipfShare ::
  "(float_value \<Rightarrow> float_value \<Rightarrow> float_value) \<Rightarrow> int \<Rightarrow> int \<Rightarrow> float_value \<Rightarrow> float_value" where
  "zipfShare pow k n s =
     fl_div (pow (Fin (f64_of_int64 k)) (fl_neg s)) (zipf_sum pow s [1 .. n] (Fin 0))"

datatype gen_error = BadClients int | BadRank int int | BadMaxInflight int | BadTotalRate float_value
  | NoTarget | TargetNotAllowed string

definition newGenerator ::
  "(float_value \<Rightarrow> float_value \<Rightarrow> float_value) \<Rightarrow> gen_config \<Rightarrow> gen_error + generator" where
  "newGenerator pow cfg =
     (if clients cfg < 1 then Inl (BadClients (clients cfg))
      else if rank cfg < 1 \<or> rank cfg > clients cfg then Inl (BadRank (rank cfg) (clients cfg))
      else if maxInflight cfg < 1 then Inl (BadMaxInflight (maxInflight cfg))
      else if fl_less (totalRate cfg) (Fin 0) then Inl (BadTotalRate (totalRate cfg))
      else if target cfg = [] then Inl NoTarget
      else if \<not> contains (allowlist cfg) (target cfg) then Inl (TargetNotAllowed (target cfg))
      else Inr \<lparr>gen_cfg = cfg, share = zipfShare pow (rank cfg) (clients cfg) (zipfS cfg),
                gen_settings = \<lparr>set_rate = totalRate cfg, set_target = target cfg\<rparr>,
                offered = 0, sent = 0, dropped = 0, completed = 0, failed = 0, gen_phase = ArrWaiting, in_flight = []\<rparr>)"

definition ownRate :: "generator \<Rightarrow> float_value" where
  "ownRate g = fl_mul (set_rate (gen_settings g)) (share g)"

text \<open>The attributes of the start-up line.\<close>

datatype gen_attr = AInt int | AFloat float_value | AStr string

definition logStartup :: "generator \<Rightarrow> (string \<times> gen_attr) list" where
  "logStartup g =
     (let st = gen_settings g
      in [(''rank'', AInt (rank (gen_cfg g))), (''clients'', AInt (clients (gen_cfg g))),
          (''zipf_s'', AFloat (zipfS (gen_cfg g))), (''share'', AFloat (share g)),
          (''total_rate'', AFloat (set_rate st)), (''rate'', AFloat (ownRate g)), (''target'', AStr (set_target st)),
          (''max_inflight'', AInt (maxInflight (gen_cfg g))), (''addr'', AStr (gen_addr (gen_cfg g)))])"

section \<open>The arrival loop\<close>

text \<open>
  One turn of \<open>run\<close>: poll again while the rate is not positive, or wait and dispatch.
  \<open>sleepCtx\<close> returns at once for a wait that is not positive.
\<close>

datatype turn = PollAgain | ArriveAfter duration

definition schedule :: "float_value \<Rightarrow> generator \<Rightarrow> turn" where
  "schedule expo g =
     (let rate = ownRate g
      in if fl_le rate (Fin 0) then PollAgain
         else
           (let seconds = fl_div expo rate;
                seconds = (if fl_less (Fin maxWaitSeconds) seconds then Fin maxWaitSeconds else seconds)
            in ArriveAfter (fl_to_int64 (fl_mul seconds (Fin (10 ^ 9))))))"

definition sleep_waits :: "duration \<Rightarrow> bool" where
  "sleep_waits d \<longleftrightarrow> \<not> d \<le> 0"

text \<open>
  \<open>arrival\<close> one atomic action after the other: the slots of the semaphore are those of the
  requests in flight and the one just taken; \<open>gen_arrival\<close> runs it with nothing in between.
\<close>

definition gen_arrive :: "generator \<Rightarrow> generator" where
  "gen_arrive g =
     (case gen_phase g of
        ArrWaiting \<Rightarrow> g\<lparr>offered := wrap64 (offered g + 1), gen_phase := ArrOffered\<rparr>
      | ArrOffered \<Rightarrow>
          (if int (length (in_flight g)) < maxInflight (gen_cfg g) then g\<lparr>gen_phase := ArrSlot\<rparr>
           else g\<lparr>gen_phase := ArrFull\<rparr>)
      | ArrSlot \<Rightarrow> g\<lparr>sent := wrap64 (sent g + 1), gen_phase := ArrCounted\<rparr>
      | ArrFull \<Rightarrow> g\<lparr>dropped := wrap64 (dropped g + 1), gen_phase := ArrWaiting\<rparr>
      | ArrCounted \<Rightarrow>
          g\<lparr>in_flight := in_flight g @ [\<lparr>fl_target = set_target (gen_settings g), fl_outcome = None\<rparr>],
            gen_phase := ArrWaiting\<rparr>)"

definition gen_arrival :: "generator \<Rightarrow> generator" where
  "gen_arrival g =
     (let g = gen_arrive (gen_arrive (gen_arrive g)) in if gen_phase g = ArrWaiting then g else gen_arrive g)"

text \<open>The goroutine of the \<open>i\<close>th request counts its outcome, and later gives its slot back.\<close>

definition settle :: "nat \<Rightarrow> bool \<Rightarrow> generator \<Rightarrow> generator" where
  "settle i ok g =
     (if i < length (in_flight g) \<and> fl_outcome (in_flight g ! i) = None
      then (let g = g\<lparr>in_flight := (in_flight g)[i := (in_flight g ! i)\<lparr>fl_outcome := Some ok\<rparr>]\<rparr>
            in if ok then g\<lparr>completed := wrap64 (completed g + 1)\<rparr> else g\<lparr>failed := wrap64 (failed g + 1)\<rparr>)
      else g)"

definition give_back :: "nat \<Rightarrow> generator \<Rightarrow> generator" where
  "give_back i g =
     (if i < length (in_flight g) \<and> fl_outcome (in_flight g ! i) \<noteq> None
      then g\<lparr>in_flight := take i (in_flight g) @ drop (Suc i) (in_flight g)\<rparr>
      else g)"

section \<open>The request mix\<close>

definition responseMix :: "(string \<times> int) list" where
  "responseMix = [(''/200b'', 70), (''/10kb'', 25), (''/1mb'', 5)]"

definition bodyMix :: "(int \<times> int) list" where
  "bodyMix = [(0, 70), (2 ^ 10, 20), (64 * 2 ^ 10, 10)]"

fun pick_loop :: "('a \<times> int) list \<Rightarrow> int \<Rightarrow> 'a option" where
  "pick_loop [] n = None"
| "pick_loop ((x, weight) # ws) n = (if n < weight then Some x else pick_loop ws (n - weight))"

definition pick_weighted :: "('a \<times> int) list \<Rightarrow> (int \<Rightarrow> int) \<Rightarrow> 'a" where
  "pick_weighted mix draw =
     (case pick_loop mix (draw (sum_list (map snd mix))) of Some x \<Rightarrow> x | None \<Rightarrow> fst (last mix))"

definition pickWeightedPath :: "(int \<Rightarrow> int) \<Rightarrow> string" where
  "pickWeightedPath draw = pick_weighted responseMix draw"

definition pickWeightedBody :: "(int \<Rightarrow> int) \<Rightarrow> int" where
  "pickWeightedBody draw = pick_weighted bodyMix draw"

definition pickRequest :: "(int \<Rightarrow> int) \<Rightarrow> (int \<Rightarrow> int) \<Rightarrow> string \<times> string \<times> int" where
  "pickRequest draw1 draw2 =
     (let path = pickWeightedPath draw1; body = pickWeightedBody draw2;
          mthd = (if body > 0 then ''POST'' else ''GET'')
      in (path, mthd, body))"

text \<open>The payloads of the bodies are zero bytes, so a payload is its size; a missing one is empty.\<close>

definition bodyPayloads :: "int \<rightharpoonup> nat" where
  "bodyPayloads = [2 ^ 10 \<mapsto> 2 ^ 10, 64 * 2 ^ 10 \<mapsto> 64 * 2 ^ 10]"

text \<open>
  \<open>send\<close>: \<open>do\<close> says whether an answer came to a method, a URL and the bytes of a body, and
  \<open>valid\<close> whether \<open>http.NewRequestWithContext\<close> accepts the method and the URL.
\<close>

definition send ::
  "(string \<Rightarrow> string \<Rightarrow> bool) \<Rightarrow> (string \<Rightarrow> string \<Rightarrow> nat option \<Rightarrow> bool) \<Rightarrow> (int \<Rightarrow> int) \<Rightarrow> (int \<Rightarrow> int) \<Rightarrow> string \<Rightarrow> bool" where
  "send valid do draw1 draw2 tgt =
     (let (path, mthd, body) = pickRequest draw1 draw2;
          rdr = (if mthd = ''POST'' then Some (case bodyPayloads body of Some n \<Rightarrow> n | None \<Rightarrow> 0) else None);
          url = trim_right_slash tgt @ path
      in if \<not> valid mthd url then False else do mthd url rdr)"

section \<open>The control endpoint\<close>

record updateJSON =
  up_rate :: "float_value option"
  up_target :: "string option"

record statusJSON =
  st_rank :: int
  st_clients :: int
  st_zipf :: float_value
  st_total_rate :: float_value
  st_rate :: float_value
  st_target :: string
  st_max_inflight :: int
  st_offered :: int
  st_sent :: int
  st_dropped :: int
  st_completed :: int
  st_errors :: int

definition gen_writeStatus :: "generator \<Rightarrow> statusJSON" where
  "gen_writeStatus g =
     \<lparr>st_rank = rank (gen_cfg g), st_clients = clients (gen_cfg g), st_zipf = zipfS (gen_cfg g),
      st_total_rate = set_rate (gen_settings g), st_rate = fl_mul (set_rate (gen_settings g)) (share g),
      st_target = set_target (gen_settings g), st_max_inflight = maxInflight (gen_cfg g),
      st_offered = offered g, st_sent = sent g, st_dropped = dropped g, st_completed = completed g,
      st_errors = failed g\<rparr>"

datatype 'r body_decode = BodyInvalid | BodyEmpty | BodyValue 'r

datatype control_answer = ControlStatus statusJSON | ControlBadRequest | ControlNotAllowed

definition apply_settings :: "string list \<Rightarrow> updateJSON \<Rightarrow> settings \<Rightarrow> settings option" where
  "apply_settings al req s =
     (case (case up_rate req of
              None \<Rightarrow> Some s
            | Some v \<Rightarrow> if fl_less v (Fin 0) then None else Some (s\<lparr>set_rate := v\<rparr>)) of
        None \<Rightarrow> None
      | Some s \<Rightarrow>
          (case up_target req of
             None \<Rightarrow> Some s
           | Some t \<Rightarrow> if \<not> contains al t then None else Some (s\<lparr>set_target := t\<rparr>)))"

definition handleUpdate :: "updateJSON body_decode \<Rightarrow> generator \<Rightarrow> generator \<times> control_answer" where
  "handleUpdate body g =
     (case body of
        BodyInvalid \<Rightarrow> (g, ControlBadRequest)
      | _ \<Rightarrow>
          (let req = (case body of BodyValue r \<Rightarrow> r | _ \<Rightarrow> \<lparr>up_rate = None, up_target = None\<rparr>)
           in case apply_settings (allowlist (gen_cfg g)) req (gen_settings g) of
                None \<Rightarrow> (g, ControlBadRequest)
              | Some next \<Rightarrow> (let g = g\<lparr>gen_settings := next\<rparr> in (g, ControlStatus (gen_writeStatus g)))))"

definition controlHandler :: "string \<Rightarrow> updateJSON body_decode \<Rightarrow> generator \<Rightarrow> generator \<times> control_answer" where
  "controlHandler mthd body g =
     (if mthd = ''GET'' then (g, ControlStatus (gen_writeStatus g))
      else if mthd = ''POST'' then handleUpdate body g
      else (g, ControlNotAllowed))"

datatype gen_main_error = GenEnv env_error | GenConfig gen_error

text \<open>\<open>main\<close> up to listening: an error exits 1, or the generator runs and has logged its settings.\<close>

definition gen_main ::
  "(string \<Rightarrow> float_value option) \<Rightarrow> (float_value \<Rightarrow> float_value \<Rightarrow> float_value) \<Rightarrow> environment \<Rightarrow> string
     \<Rightarrow> gen_main_error + generator \<times> (string \<times> gen_attr) list" where
  "gen_main parse_float pow env addr =
     (case configFromEnv parse_float env of
        Inl e \<Rightarrow> Inl (GenEnv e)
      | Inr cfg \<Rightarrow>
          (case newGenerator pow (cfg\<lparr>gen_addr := addr\<rparr>) of
             Inl e \<Rightarrow> Inl (GenConfig e)
           | Inr g \<Rightarrow> Inr (g, logStartup g)))"

section \<open>What the delivery counters say\<close>

lemma contains_iff [simp]: "contains xs x \<longleftrightarrow> x \<in> set xs"
  by (induction xs) auto

text \<open>One step of a running generator.\<close>

inductive gen_step :: "generator \<Rightarrow> generator \<Rightarrow> bool" where
  arrive: "gen_step g (gen_arrive g)"
| count: "gen_step g (settle i ok g)"
| free: "gen_step g (give_back i g)"
| control: "gen_step g (fst (controlHandler mthd body g))"

inductive_cases gen_stepE: "gen_step g g'"

text \<open>An arrival offered but not yet counted as sent or dropped, a request counted but not started, a slot taken for one.\<close>

definition undecided :: "arrival_phase \<Rightarrow> int" where
  "undecided ph = (if ph \<in> {ArrOffered, ArrSlot, ArrFull} then 1 else 0)"

definition unstarted :: "arrival_phase \<Rightarrow> int" where
  "unstarted ph = (if ph = ArrCounted then 1 else 0)"

definition slot_taken :: "arrival_phase \<Rightarrow> int" where
  "slot_taken ph = (if ph \<in> {ArrSlot, ArrCounted} then 1 else 0)"

lemma phase_counts [simp]:
  "undecided ArrWaiting = 0" "undecided ArrOffered = 1" "undecided ArrSlot = 1" "undecided ArrFull = 1"
  "undecided ArrCounted = 0" "unstarted ArrWaiting = 0" "unstarted ArrOffered = 0" "unstarted ArrSlot = 0"
  "unstarted ArrFull = 0" "unstarted ArrCounted = 1" "slot_taken ArrWaiting = 0" "slot_taken ArrOffered = 0"
  "slot_taken ArrSlot = 1" "slot_taken ArrFull = 0" "slot_taken ArrCounted = 1"
  by (simp_all add: undecided_def unstarted_def slot_taken_def)

definition unsettled :: "flight list \<Rightarrow> int" where
  "unsettled fs = int (length (filter (\<lambda>f. fl_outcome f = None) fs))"

definition gen_inv :: "generator \<Rightarrow> bool" where
  "gen_inv g \<longleftrightarrow>
     int (length (in_flight g)) + slot_taken (gen_phase g) \<le> maxInflight (gen_cfg g) \<and>
     offered g = wrap64 (sent g + dropped g + undecided (gen_phase g)) \<and>
     sent g = wrap64 (completed g + failed g + (unsettled (in_flight g) + unstarted (gen_phase g))) \<and>
     set_target (gen_settings g) \<in> set (allowlist (gen_cfg g)) \<and>
     \<not> fl_less (set_rate (gen_settings g)) (Fin 0) \<and>
     (\<forall>f \<in> set (in_flight g). fl_target f \<in> set (allowlist (gen_cfg g)))"

lemma unsettled_simps [simp]:
  "unsettled [] = 0" "unsettled (f # fs) = (if fl_outcome f = None then 1 else 0) + unsettled fs"
  "unsettled (xs @ ys) = unsettled xs + unsettled ys"
  by (simp_all add: unsettled_def)

lemma unsettled_split:
  "i < length fs \<Longrightarrow> unsettled fs = unsettled (take i fs) + unsettled [fs ! i] + unsettled (drop (Suc i) fs)"
  using unsettled_simps(3) [of "take i fs" "fs ! i # drop (Suc i) fs"] id_take_nth_drop [of i fs] by simp

lemma unsettled_update:
  assumes "i < length fs" and "fl_outcome (fs ! i) = None"
  shows "unsettled (fs[i := (fs ! i)\<lparr>fl_outcome := Some ok\<rparr>]) = unsettled fs - 1"
proof -
  have "fs[i := x] = take i fs @ x # drop (Suc i) fs" for x
    using assms(1) by (simp add: upd_conv_take_nth_drop)
  then show ?thesis using unsettled_split [OF assms(1)] assms(2) by simp
qed

lemma accounts:
  fixes x a b u :: int
  shows "x = wrap64 (a + b) \<Longrightarrow> wrap64 (x + 1) = wrap64 (a + b + 1)"
    and "wrap64 (wrap64 (a + 1) + b) = wrap64 (a + b + 1)"
    and "wrap64 (a + wrap64 (b + 1)) = wrap64 (a + b + 1)"
    and "x = wrap64 (a + b + u) \<Longrightarrow> x = wrap64 (wrap64 (a + 1) + b + (u - 1))"
    and "x = wrap64 (a + b + u) \<Longrightarrow> x = wrap64 (a + wrap64 (b + 1) + (u - 1))"
    and "x = wrap64 (a + b + u) \<Longrightarrow> wrap64 (x + 1) = wrap64 (a + b + (u + 1))"
  using wrap64_add [of "a + 1" "b + (u - 1)"] wrap64_add [of "b + 1" "a + (u - 1)"]
  by (simp_all add: wrap64_adds algebra_simps)

lemma arrive_inv: "gen_inv g \<Longrightarrow> gen_inv (gen_arrive g)"
  using wrap64_add [of "completed g + (failed g + unsettled (in_flight g))" "1 + dropped g"]
  unfolding gen_inv_def gen_arrive_def
  by (cases "gen_phase g") (simp_all add: accounts(1-3) accounts(6), auto simp: algebra_simps)

lemma settle_inv:
  assumes "gen_inv g"
  shows "gen_inv (settle i ok g)"
proof (cases "i < length (in_flight g) \<and> fl_outcome (in_flight g ! i) = None")
  case True
  then have i: "i < length (in_flight g)" "fl_outcome (in_flight g ! i) = None" by simp_all
  have t: "\<forall>f \<in> set ((in_flight g)[i := (in_flight g ! i)\<lparr>fl_outcome := Some ok\<rparr>]).
      fl_target f \<in> set (allowlist (gen_cfg g))"
    using assms i(1) set_update_subset_insert [of "in_flight g" i] by (fastforce simp: gen_inv_def)
  show ?thesis
    using assms t unsettled_update [OF i, of ok]
      accounts(4,5) [of "sent g" "completed g" "failed g" "unsettled (in_flight g) + unstarted (gen_phase g)"]
    unfolding gen_inv_def settle_def Let_def if_P [OF True] by (cases ok) (simp_all add: diff_add_eq)
next
  case False
  then show ?thesis using assms by (simp only: settle_def if_False)
qed

lemma give_back_inv:
  assumes "gen_inv g"
  shows "gen_inv (give_back i g)"
proof (cases "i < length (in_flight g) \<and> fl_outcome (in_flight g ! i) \<noteq> None")
  case True
  then have "unsettled [in_flight g ! i] = 0" by simp
  then have "unsettled (take i (in_flight g) @ drop (Suc i) (in_flight g)) = unsettled (in_flight g)"
    using unsettled_split [of i "in_flight g"] True by simp
  then show ?thesis
    using assms True by (auto simp: gen_inv_def give_back_def dest: in_set_takeD in_set_dropD)
next
  case False
  then show ?thesis using assms by (simp only: give_back_def if_False)
qed

lemma apply_settings_ok:
  "apply_settings al req s = Some s' \<Longrightarrow> set_target s \<in> set al \<Longrightarrow> \<not> fl_less (set_rate s) (Fin 0) \<Longrightarrow>
   set_target s' \<in> set al \<and> \<not> fl_less (set_rate s') (Fin 0)"
  by (auto simp: apply_settings_def split: option.splits if_splits)

lemma control_inv: "gen_inv g \<Longrightarrow> gen_inv (fst (controlHandler mthd body g))"
  by (auto simp: controlHandler_def handleUpdate_def Let_def gen_inv_def
      split: body_decode.split option.split dest: apply_settings_ok)

lemma gen_arrive_cfg [simp]: "gen_cfg (gen_arrive g) = gen_cfg g"
  by (simp add: gen_arrive_def split: arrival_phase.split)

lemma gen_arrival_cfg [simp]: "gen_cfg (gen_arrival g) = gen_cfg g"
  by (simp add: gen_arrival_def Let_def)

lemma gen_arrival_run: "gen_step\<^sup>*\<^sup>* g (gen_arrival g)"
proof -
  have "gen_step\<^sup>*\<^sup>* g (gen_arrive (gen_arrive (gen_arrive g)))"
    by (rule rtranclp_trans [OF r_into_rtranclp rtranclp_trans [OF r_into_rtranclp r_into_rtranclp]]) (rule arrive)+
  then show ?thesis using arrive by (auto simp: gen_arrival_def Let_def intro: rtranclp.rtrancl_into_rtrancl)
qed

lemma gen_step_inv: "gen_step g g' \<Longrightarrow> gen_inv g \<Longrightarrow> gen_inv g'"
  by (auto elim!: gen_stepE intro: arrive_inv settle_inv give_back_inv control_inv)

lemma gen_run_inv: "gen_step\<^sup>*\<^sup>* g g' \<Longrightarrow> gen_inv g \<Longrightarrow> gen_inv g'"
  by (induction rule: rtranclp_induct) (auto intro: gen_step_inv)

lemma newGenerator_inv: "newGenerator pow cfg = Inr g \<Longrightarrow> gen_inv g"
  using wrap64_id [of 0]
  by (auto simp: newGenerator_def gen_inv_def in_int64_def split: if_splits)

text \<open>
  C23. The delivery counters are honest under every interleaving of the atomic actions of the arrival
  loop with outcomes, returned slots and control updates: every offered request was sent or dropped,
  except for the one arrival that may be undecided; every sent one has completed, failed or is still
  in flight, except for the one that may be counted and not yet started; never more slots are taken
  than configured; and requests only ever go to targets on the allowlist (counters modulo 64-bit
  wrap-around, all counters of a status read at one moment).
\<close>

theorem delivery_accounting:
  assumes "newGenerator pow cfg = Inr g" and "gen_step\<^sup>*\<^sup>* g g'"
  shows "st_offered (gen_writeStatus g') =
      wrap64 (st_sent (gen_writeStatus g') + st_dropped (gen_writeStatus g') + undecided (gen_phase g')) \<and>
    st_sent (gen_writeStatus g') =
      wrap64 (st_completed (gen_writeStatus g') + st_errors (gen_writeStatus g') +
        (unsettled (in_flight g') + unstarted (gen_phase g'))) \<and>
    int (length (in_flight g')) + slot_taken (gen_phase g') \<le> maxInflight (gen_cfg g') \<and>
    st_target (gen_writeStatus g') \<in> set (allowlist (gen_cfg g')) \<and>
    (\<forall>f \<in> set (in_flight g'). fl_target f \<in> set (allowlist (gen_cfg g')))"
  using gen_run_inv [OF assms(2) newGenerator_inv [OF assms(1)]] by (simp add: gen_inv_def gen_writeStatus_def)

definition sample_gen_config :: gen_config where
  "sample_gen_config = \<lparr>rank = 1, clients = 8, zipfS = Fin 1, totalRate = Fin 200, target = ''http://lb:8080'',
     allowlist = [''http://lb:8080''], maxInflight = 1, gen_addr = defaultControlAddr\<rparr>"

theorem delivery_accounting_witness:
  "\<exists>g. newGenerator (\<lambda>x y. Fin 1) sample_gen_config = Inr g \<and>
     int (length (in_flight (gen_arrival (gen_arrival g)))) + slot_taken (gen_phase (gen_arrival (gen_arrival g))) \<le> 1 \<and>
     st_target (gen_writeStatus (gen_arrival (gen_arrival g))) = ''http://lb:8080''"
proof -
  obtain g where g: "newGenerator (\<lambda>x y. Fin 1) sample_gen_config = Inr g" "gen_cfg g = sample_gen_config"
    by (simp add: newGenerator_def sample_gen_config_def)
  have c: "gen_cfg (gen_arrival (gen_arrival g)) = sample_gen_config" by (simp add: g(2))
  have "gen_step\<^sup>*\<^sup>* g (gen_arrival (gen_arrival g))"
    by (rule rtranclp_trans [OF gen_arrival_run gen_arrival_run])
  from delivery_accounting [OF g(1) this]
  have "int (length (in_flight (gen_arrival (gen_arrival g)))) + slot_taken (gen_phase (gen_arrival (gen_arrival g))) \<le> 1 \<and>
      st_target (gen_writeStatus (gen_arrival (gen_arrival g))) = ''http://lb:8080''"
    by (simp add: c g(2)) (simp add: sample_gen_config_def)
  with g(1) show ?thesis by blast
qed

section \<open>The overflow guard\<close>

lemma f64_value:
  assumes "2 powi k \<le> x" and "x < 2 powi (k + 1)" and "rne (x / 2 powi (k - 52)) = m"
  shows "f64 x = of_int m * 2 powi (k - 52)"
proof -
  have "0 < x" using assms(1) powi2_pos [of k] by linarith
  then show ?thesis using assms(3) by (simp add: f64_pos_eq ilog2_eqI [OF assms(1,2)])
qed

lemma rne_near:
  assumes "\<bar>x - of_int m\<bar> < 1 / 2"
  shows "rne x = m"
proof -
  have "\<bar>of_int (rne x) - x\<bar> \<le> 1 / 2" by (rule rne_error)
  then have "\<bar>of_int (rne x) - of_int m :: rat\<bar> < 1" using assms by linarith
  then have "\<bar>rne x - m\<bar> < 1" by linarith
  then show ?thesis by simp
qed

lemma maxWaitSeconds_value: "maxWaitSeconds = 4835703278458517 / 2 ^ 19"
proof -
  have "rne (2 ^ 63 / 10 ^ 9 / 2 powi (33 - 52)) = 4835703278458517"
    by (rule rne_near) (simp add: power_int_def power_divide)
  then have "f64 (2 ^ 63 / 10 ^ 9) = of_int 4835703278458517 * 2 powi (33 - 52)"
    by (intro f64_value) (simp_all add: power_int_def)
  then show ?thesis by (simp add: maxWaitSeconds_def power_int_def power_divide)
qed

lemma maxWait_product: "fl_mul (Fin maxWaitSeconds) (Fin (10 ^ 9)) = Fin (2 ^ 63)"
proof -
  have "rne (maxWaitSeconds * 10 ^ 9 / 2 powi (63 - 52)) = 4503599627370496"
    by (rule rne_near) (simp add: maxWaitSeconds_value power_int_def power_divide)
  then have "f64 (maxWaitSeconds * 10 ^ 9) = of_int 4503599627370496 * 2 powi (63 - 52)"
    by (intro f64_value) (simp_all add: maxWaitSeconds_value power_int_def)
  then have "f64 (maxWaitSeconds * 10 ^ 9) = 2 ^ 63" by (simp add: power_int_def)
  then show ?thesis by (simp add: fl_round_def)
qed

text \<open>
  C37. The cap on a scheduled wait does not prevent the overflow it is there for. A wait longer than
  \<open>maxWaitSeconds\<close> is capped, but the capped value times \<open>1e9\<close> rounds to \<open>2 ^ 63\<close>, one past the
  largest duration; converted on amd64 it is the smallest \<open>int64\<close>, \<open>sleepCtx\<close> returns at once, and
  a client whose rate is that low dispatches in a busy loop.
\<close>

theorem overflow_guard_floods:
  assumes "ownRate g = Fin r" and "0 < r" and "fl_less (Fin maxWaitSeconds) (fl_div expo (Fin r))"
  shows "schedule expo g = ArriveAfter (- (2 ^ 63)) \<and> \<not> sleep_waits (- (2 ^ 63))"
proof -
  have "fl_to_int64 (Fin (2 ^ 63)) = - (2 ^ 63)"
    by (simp add: fl_to_int64_def f64_to_int64_def in_int64_def)
  moreover have "\<not> fl_le (Fin r) (Fin 0)" using assms(2) by (simp add: fl_le_def)
  ultimately show ?thesis
    using assms(1,3) maxWait_product by (simp add: schedule_def sleep_waits_def Let_def del: fl_mul.simps)
qed

definition slow_generator :: generator where
  "slow_generator = \<lparr>gen_cfg = sample_gen_config, share = Fin 1,
     gen_settings = \<lparr>set_rate = Fin (1 / 2 ^ 40), set_target = ''http://lb:8080''\<rparr>,
     offered = 0, sent = 0, dropped = 0, completed = 0, failed = 0, gen_phase = ArrWaiting, in_flight = []\<rparr>"

theorem overflow_guard_floods_witness:
  "schedule (Fin 1) slow_generator = ArriveAfter (- (2 ^ 63))"
proof -
  have "f64 (1 / 2 ^ 40) = 1 / 2 ^ 40"
    by (rule f64_exact [where m = 1 and e = "- 40"]) (simp_all add: power_int_def power_divide)
  then have r: "ownRate slow_generator = Fin (1 / 2 ^ 40)"
    by (simp add: ownRate_def slow_generator_def fl_round_def)
  have "f64 (2 ^ 40) = 2 ^ 40"
    by (rule f64_exact [where m = 1 and e = 40]) (simp_all add: power_int_def)
  then have "fl_less (Fin maxWaitSeconds) (fl_div (Fin 1) (Fin (1 / 2 ^ 40)))"
    by (simp add: fl_round_def maxWaitSeconds_value)
  from overflow_guard_floods [OF r _ this] show ?thesis by simp
qed

section \<open>The mix\<close>

lemma pick_loop_Some: "0 \<le> n \<Longrightarrow> n < sum_list (map snd ws) \<Longrightarrow> \<exists>x. pick_loop ws n = Some x \<and> x \<in> fst ` set ws"
proof (induction ws arbitrary: n)
  case (Cons w ws)
  obtain y j where w: "w = (y, j)" by (cases w)
  show ?case
  proof (cases "n < j")
    case False
    then have "\<exists>x. pick_loop ws (n - j) = Some x \<and> x \<in> fst ` set ws"
      using Cons.IH [of "n - j"] Cons.prems(2) by (simp add: w)
    then show ?thesis using False by (auto simp: w)
  qed (simp add: w)
qed simp

text \<open>Out of the equally likely draws, as many pick an entry as its weight says.\<close>

lemma pick_loop_count:
  assumes "distinct (map fst ws)" and "\<forall>w \<in> set ws. 0 \<le> snd w" and "(x, k) \<in> set ws"
  shows "int (card {n \<in> {0 ..< sum_list (map snd ws)}. pick_loop ws n = Some x}) = k"
  using assms
proof (induction ws)
  case (Cons w ws)
  obtain y j where w: "w = (y, j)" by (cases w)
  define S where "S = sum_list (map snd ws)"
  have S: "0 \<le> S" "0 \<le> j" using Cons.prems(2) w by (auto simp: S_def intro!: sum_list_nonneg)
  show ?case
  proof (cases "x = y")
    case True
    have k: "k = j" using Cons.prems(1,3) w True by force
    have "x \<notin> fst ` set ws" using Cons.prems(1) w True by simp
    then have no: "pick_loop ws m \<noteq> Some x" if "0 \<le> m" "m < S" for m
      using pick_loop_Some [OF that(1) that(2) [unfolded S_def]] by (metis option.inject)
    have "{n \<in> {0 ..< j + S}. pick_loop ((y, j) # ws) n = Some x} = {0 ..< j}"
    proof -
      have "pick_loop ((y, j) # ws) n = Some x \<longleftrightarrow> n < j" if "0 \<le> n" "n < j + S" for n
        using no [of "n - j"] that True by auto
      then show ?thesis using S by (auto simp del: pick_loop.simps)
    qed
    then show ?thesis using k S by (simp add: w S_def)
  next
    case False
    then have m: "(x, k) \<in> set ws" using Cons.prems(3) w by simp
    have "{n \<in> {0 ..< j + S}. pick_loop ((y, j) # ws) n = Some x} =
        (\<lambda>n. n + j) ` {n \<in> {0 ..< S}. pick_loop ws n = Some x}"
    proof (intro set_eqI iffI)
      fix n assume n: "n \<in> {n \<in> {0 ..< j + S}. pick_loop ((y, j) # ws) n = Some x}"
      then have "\<not> n < j" using False by auto
      then show "n \<in> (\<lambda>n. n + j) ` {n \<in> {0 ..< S}. pick_loop ws n = Some x}"
        using n by (intro image_eqI [of _ _ "n - j"]) auto
    qed (use S(2) in auto)
    then have "card {n \<in> {0 ..< j + S}. pick_loop ((y, j) # ws) n = Some x} =
        card {n \<in> {0 ..< S}. pick_loop ws n = Some x}"
      by (simp add: card_image inj_on_def)
    then show ?thesis using Cons.IH [OF _ _ m] Cons.prems(1,2) by (simp add: w S_def)
  qed
qed simp

lemma request_mix:
  "(path, k) \<in> set responseMix \<Longrightarrow>
     int (card {n \<in> {0 ..< 100}. pickWeightedPath (\<lambda>_. n) = path}) = k"
proof -
  assume p: "(path, k) \<in> set responseMix"
  have s: "sum_list (map snd responseMix) = 100" by (simp add: responseMix_def)
  have "pickWeightedPath (\<lambda>_. n) = path \<longleftrightarrow> pick_loop responseMix n = Some path" if "n \<in> {0 ..< 100}" for n
    using pick_loop_Some [of n responseMix] that s by (auto simp: pickWeightedPath_def pick_weighted_def)
  then have "{n \<in> {0 ..< 100}. pickWeightedPath (\<lambda>_. n) = path} =
      {n \<in> {0 ..< sum_list (map snd responseMix)}. pick_loop responseMix n = Some path}"
    unfolding s by blast
  then show ?thesis using pick_loop_count [OF _ _ p] by (simp add: responseMix_def)
qed

end
