(* ===== verification/Control_Service.thy ===== *)
theory Control_Service
  imports Traffic_Generator Dummy_Backend
begin

text \<open>
  The demo's control page, \<open>demo/control-service/main.go\<close>. The service keeps no state: a handler
  reads its peers (traffic clients, dummy backends' admin listeners, load balancers, the Docker
  Engine) and answers. The peers are the argument \<open>net\<close>, a function from a call to its reply, and a
  handler gives the calls it makes, in the order of the configured peers (they run concurrently
  and each writes its own slot), with its answer. A reply carries the value its body decodes to; a body
  that does not decode is taken to leave the value it is decoded into as it was.
  \<open>url.Parse\<close> and the decoding of request bodies are arguments; texts of errors are not modelled.
\<close>

section \<open>Configuration\<close>

definition defaultControlServiceAddr :: string where "defaultControlServiceAddr = '':8090''"
definition defaultDockerHost :: string where "defaultDockerHost = ''unix:///var/run/docker.sock''"
definition defaultContainerPrefix :: string where "defaultContainerPrefix = ''l7loadbalancer-demo-''"
definition defaultGrafanaURL :: string where "defaultGrafanaURL = ''http://127.0.0.1:3000''"

definition defaultGenerators :: "string list" where
  "defaultGenerators = map (\<lambda>i. ''http://gen'' @ itoa i @ '':9090'') [1 ..< 9]"

definition defaultBackends :: "string list" where
  "defaultBackends = map (\<lambda>i. ''http://backend'' @ itoa i @ '':9091'') [1 ..< 5]"

definition defaultLBs :: "string list" where "defaultLBs = [''http://lb:8080'']"
definition defaultLBAdmins :: "string list" where "defaultLBAdmins = [''http://lb:9090'']"

text \<open>The one configuration the invalid-reload action sends, byte for byte.\<close>

definition quoted :: "string \<Rightarrow> string" where
  "quoted s = CHR 0x22 # s @ [CHR 0x22]"

definition config_line :: "string \<Rightarrow> string \<Rightarrow> string" where
  "config_line key v = key @ quoted v @ [CHR 0x0A]"

definition invalidReloadBody :: string where
  "invalidReloadBody =
     config_line ''listen: '' '':8080'' @ config_line ''algorithm: '' ''p3c_ewma'' @
     ''backends:'' @ [CHR 0x0A] @ config_line ''  - name: '' ''backend1'' @
     config_line ''    url: '' ''http://backend1:8080''"

record peer =
  peer_name :: string
  peer_url :: string
  container :: string

record control_config =
  generators :: "peer list"
  backend_peers :: "peer list"
  lbs :: "peer list"
  lbAdmins :: "peer list"
  grafanaURL :: string
  dockerHost :: string
  containerPrefix :: string
  ctl_addr :: string

datatype peer_error = InvalidPeerURL string | NoHost string | EmptyPeerList string

text \<open>\<open>host u\<close> is the host name \<open>url.Parse\<close> finds, none when it fails.\<close>

fun peersFromURLs :: "(string \<Rightarrow> string option) \<Rightarrow> string list \<Rightarrow> peer_error + peer list" where
  "peersFromURLs host [] = Inr []"
| "peersFromURLs host (raw # urls) =
     (case host raw of
        None \<Rightarrow> Inl (InvalidPeerURL raw)
      | Some h \<Rightarrow>
          if h = [] then Inl (NoHost raw)
          else (case peersFromURLs host urls of
                  Inl e \<Rightarrow> Inl e
                | Inr ps \<Rightarrow> Inr (\<lparr>peer_name = h, peer_url = raw, container = []\<rparr> # ps)))"

definition envPeers ::
  "(string \<Rightarrow> string option) \<Rightarrow> environment \<Rightarrow> string \<Rightarrow> string list \<Rightarrow> peer_error + peer list" where
  "envPeers host env key def =
     (case env_raw env key of
        None \<Rightarrow> peersFromURLs host def
      | Some raw \<Rightarrow>
          (let urls = csv_entries (split_comma raw)
           in if length urls = 0 then Inl (EmptyPeerList key) else peersFromURLs host urls))"

definition envString :: "environment \<Rightarrow> string \<Rightarrow> string \<Rightarrow> string" where
  "envString env key def = (case env_raw env key of None \<Rightarrow> def | Some raw \<Rightarrow> raw)"

text \<open>An admin peer takes the name of the load balancer at its index, where there is one.\<close>

fun pair_admins :: "peer list \<Rightarrow> peer list \<Rightarrow> peer list" where
  "pair_admins (ad # ads) (lb # ls) = ad\<lparr>peer_name := peer_name lb\<rparr> # pair_admins ads ls"
| "pair_admins ads ls = ads"

definition control_configFromEnv ::
  "(string \<Rightarrow> string option) \<Rightarrow> environment \<Rightarrow> peer_error + control_config" where
  "control_configFromEnv host env =
     (case envPeers host env ''GENERATORS'' defaultGenerators of Inl e \<Rightarrow> Inl e | Inr gens \<Rightarrow>
      (case envPeers host env ''BACKENDS'' defaultBackends of Inl e \<Rightarrow> Inl e | Inr bks \<Rightarrow>
      (let prefix = envString env ''CONTAINER_PREFIX'' defaultContainerPrefix;
           bks = map (\<lambda>b. b\<lparr>container := prefix @ peer_name b\<rparr>) bks
       in case envPeers host env ''LBS'' defaultLBs of Inl e \<Rightarrow> Inl e | Inr ls \<Rightarrow>
      (case envPeers host env ''LB_ADMINS'' defaultLBAdmins of Inl e \<Rightarrow> Inl e | Inr ads \<Rightarrow>
         Inr \<lparr>generators = gens, backend_peers = bks, lbs = ls, lbAdmins = pair_admins ads ls,
              grafanaURL = envString env ''GRAFANA_URL'' defaultGrafanaURL,
              dockerHost = envString env ''DOCKER_HOST'' defaultDockerHost, containerPrefix = prefix,
              ctl_addr = []\<rparr>))))"

section \<open>The Engine client and the server\<close>

datatype engine_client = EngineSocket string | EngineHTTP string

text \<open>\<open>scheme_path\<close> is what \<open>url.Parse\<close> finds of a Docker host: its scheme and path.\<close>

datatype server_error = NoGenerators | NoBackends | NoContainer string | NoLBs | AdminsUnpaired int int
  | NoGrafana | InvalidDockerHost string | UnsupportedScheme string

definition newEngine :: "(string \<Rightarrow> (string \<times> string) option) \<Rightarrow> string \<Rightarrow> server_error + engine_client" where
  "newEngine scheme_path dh =
     (case scheme_path dh of
        None \<Rightarrow> Inl (InvalidDockerHost dh)
      | Some (scheme, path) \<Rightarrow>
          if scheme = ''unix'' then Inr (EngineSocket path)
          else if scheme = ''http'' \<or> scheme = ''https'' then Inr (EngineHTTP (trim_right_slash dh))
          else Inl (UnsupportedScheme dh))"

definition engine_base :: "engine_client \<Rightarrow> string" where
  "engine_base e = (case e of EngineSocket sock \<Rightarrow> ''http://docker'' | EngineHTTP base \<Rightarrow> base)"

record statsTarget =
  stats_label :: string
  stats_container :: string

record server =
  srv_cfg :: control_config
  engine :: engine_client
  stats_targets :: "statsTarget list"

definition newServer ::
  "(string \<Rightarrow> (string \<times> string) option) \<Rightarrow> control_config \<Rightarrow> server_error + server" where
  "newServer scheme_path cfg =
     (if length (generators cfg) = 0 then Inl NoGenerators
      else if length (backend_peers cfg) = 0 then Inl NoBackends
      else case find (\<lambda>b. container b = []) (backend_peers cfg) of
        Some b \<Rightarrow> Inl (NoContainer (peer_name b))
      | None \<Rightarrow>
          if length (lbs cfg) = 0 then Inl NoLBs
          else if length (lbAdmins cfg) \<noteq> length (lbs cfg)
          then Inl (AdminsUnpaired (int (length (lbAdmins cfg))) (int (length (lbs cfg))))
          else if grafanaURL cfg = [] then Inl NoGrafana
          else
            (let cfg = (if dockerHost cfg = [] then cfg\<lparr>dockerHost := defaultDockerHost\<rparr> else cfg)
             in case newEngine scheme_path (dockerHost cfg) of
                  Inl e \<Rightarrow> Inl e
                | Inr eng \<Rightarrow>
                    (let prefix = (if containerPrefix cfg = [] then defaultContainerPrefix else containerPrefix cfg)
                     in Inr \<lparr>srv_cfg = cfg, engine = eng, stats_targets =
                          map (\<lambda>lb. \<lparr>stats_label = peer_name lb, stats_container = prefix @ peer_name lb\<rparr>) (lbs cfg) @
                          map (\<lambda>b. \<lparr>stats_label = peer_name b, stats_container = container b\<rparr>) (backend_peers cfg)\<rparr>)))"

text \<open>\<open>main\<close> up to listening: an error exits 1, or the page is about to be served and one line says so.\<close>

datatype control_main_error = ControlEnv peer_error | ControlConfig server_error

definition control_starting_line :: "control_config \<Rightarrow> log_line" where
  "control_starting_line cfg =
     \<lparr>log_level = LevelInfo, log_msg = ''control service starting'',
      log_attrs = [(''addr'', VStr (ctl_addr cfg)), (''generators'', VInt (int (length (generators cfg)))),
        (''backends'', VInt (int (length (backend_peers cfg)))), (''lbs'', VInt (int (length (lbs cfg)))),
        (''grafana_url'', VStr (grafanaURL cfg))]\<rparr>"

definition control_main ::
  "(string \<Rightarrow> string option) \<Rightarrow> (string \<Rightarrow> (string \<times> string) option) \<Rightarrow> environment \<Rightarrow> string
     \<Rightarrow> control_main_error + server \<times> log_line" where
  "control_main host scheme_path env addr =
     (case control_configFromEnv host env of
        Inl e \<Rightarrow> Inl (ControlEnv e)
      | Inr cfg \<Rightarrow>
          (let cfg = cfg\<lparr>ctl_addr := addr\<rparr>
           in case newServer scheme_path cfg of
                Inl e \<Rightarrow> Inl (ControlConfig e)
              | Inr s \<Rightarrow> Inr (s, control_starting_line cfg)))"

section \<open>Calls to the peers\<close>

datatype call_body = NoBody | TargetBody string | RateBody float_value | ProfileBody adminRequest | YamlBody string

record call =
  c_method :: string
  c_url :: string
  c_body :: call_body

record generatorStatus =
  gs_rate :: float_value
  gs_target :: string
  gs_offered :: int
  gs_sent :: int
  gs_dropped :: int
  gs_errors :: int

record lastReload =
  lr_result :: string
  lr_time :: string
  lr_error :: string

record containerStats =
  cs_total :: "64 word"
  cs_usage :: "64 word"
  cs_stats :: "string \<rightharpoonup> 64 word"

text \<open>
  A reply: its status, whether its content type is JSON, and what its body decodes to.
\<close>

datatype payload = GenStatusP generatorStatus | ProfileP profile | LastReloadP lastReload | StateP string
  | StatsP containerStats | TextP string | OtherP

datatype reply = NoReply | Reply nat bool payload

type_synonym net = "call \<Rightarrow> reply"

datatype call_error = EncodeFailed | CallFailed | BadStatus nat | DecodeFailed

definition is_2xx :: "nat \<Rightarrow> bool" where
  "is_2xx status \<longleftrightarrow> \<not> (status < 200 \<or> status > 299)"

fun finite_float :: "float_value \<Rightarrow> bool" where
  "finite_float (Fin a) = True"
| "finite_float x = False"

text \<open>JSON has no infinities and no NaN.\<close>

fun marshals :: "call_body \<Rightarrow> bool" where
  "marshals (RateBody x) = finite_float x"
| "marshals (ProfileBody req) = (case in_failRate req of None \<Rightarrow> True | Some x \<Rightarrow> finite_float x)"
| "marshals b = True"

definition doJSON :: "net \<Rightarrow> string \<Rightarrow> string \<Rightarrow> call_body \<Rightarrow> call list \<times> (call_error + payload)" where
  "doJSON net mthd rawURL body =
     (if \<not> marshals body then ([], Inl EncodeFailed)
      else
        (let c = \<lparr>c_method = mthd, c_url = trim_right_slash rawURL @ ''/'', c_body = body\<rparr>
         in ([c],
             case net c of
               NoReply \<Rightarrow> Inl CallFailed
             | Reply status json p \<Rightarrow> if \<not> is_2xx status then Inl (BadStatus status) else Inr p)))"

text \<open>\<open>call\<close> decodes any status, but only a JSON answer.\<close>

definition call_peer :: "net \<Rightarrow> string \<Rightarrow> string \<Rightarrow> call_body \<Rightarrow> call list \<times> (call_error + lastReload)" where
  "call_peer net mthd rawURL body =
     (let c = \<lparr>c_method = mthd, c_url = rawURL, c_body = body\<rparr>
      in ([c],
          case net c of
            NoReply \<Rightarrow> Inl CallFailed
          | Reply status json p \<Rightarrow>
              if \<not> json then Inl (BadStatus status)
              else (case p of LastReloadP l \<Rightarrow> Inr l | _ \<Rightarrow> Inl DecodeFailed)))"

text \<open>\<open>forEachPeer\<close> with the calls of all peers in their order.\<close>

definition forEachPeer :: "'p list \<Rightarrow> ('p \<Rightarrow> call list \<times> 'r) \<Rightarrow> call list \<times> 'r list" where
  "forEachPeer peers f = (concat (map (fst \<circ> f) peers), map (snd \<circ> f) peers)"

section \<open>The Docker Engine\<close>

definition unreserved :: "char \<Rightarrow> bool" where
  "unreserved c \<longleftrightarrow>
     is_alpha c \<or> is_digit c \<or> c \<in> set ''-_.~$&+:=@''"

definition hex_digit :: "nat \<Rightarrow> char" where
  "hex_digit d = ''0123456789ABCDEF'' ! d"

text \<open>\<open>url.PathEscape\<close>.\<close>

definition PathEscape :: "string \<Rightarrow> string" where
  "PathEscape s =
     concat (map (\<lambda>c. if unreserved c then [c]
        else [CHR ''%'', hex_digit (of_char c div 16), hex_digit (of_char c mod 16)]) s)"

definition engine_call :: "engine_client \<Rightarrow> string \<Rightarrow> string \<Rightarrow> string \<Rightarrow> call" where
  "engine_call e mthd cont suffix =
     \<lparr>c_method = mthd, c_url = engine_base e @ ''/containers/'' @ PathEscape cont @ suffix, c_body = NoBody\<rparr>"

definition engine_post :: "net \<Rightarrow> call \<Rightarrow> call_error option" where
  "engine_post net c =
     (case net c of
        NoReply \<Rightarrow> Some CallFailed
      | Reply status json p \<Rightarrow>
          if status = 304 then None else if \<not> is_2xx status then Some (BadStatus status) else None)"

definition engine_kill :: "net \<Rightarrow> engine_client \<Rightarrow> string \<Rightarrow> call list \<times> call_error option" where
  "engine_kill net e cont = (let c = engine_call e ''POST'' cont ''/kill'' in ([c], engine_post net c))"

definition engine_start :: "net \<Rightarrow> engine_client \<Rightarrow> string \<Rightarrow> call list \<times> call_error option" where
  "engine_start net e cont = (let c = engine_call e ''POST'' cont ''/start'' in ([c], engine_post net c))"

definition engine_state :: "net \<Rightarrow> engine_client \<Rightarrow> string \<Rightarrow> call list \<times> (call_error + string)" where
  "engine_state net e cont =
     (let c = engine_call e ''GET'' cont ''/json''
      in ([c],
          case net c of
            NoReply \<Rightarrow> Inl CallFailed
          | Reply status json p \<Rightarrow>
              if \<not> is_2xx status then Inl (BadStatus status)
              else (case p of StateP s \<Rightarrow> Inr s | _ \<Rightarrow> Inl DecodeFailed)))"

text \<open>CPU seconds and memory: usage less the inactive file cache, cgroup v1's figure first.\<close>

definition container_usage :: "containerStats \<Rightarrow> float_value \<times> 64 word" where
  "container_usage st =
     (let inactive = (case cs_stats st ''inactive_file'' of None \<Rightarrow> 0 | Some v \<Rightarrow> v);
          inactive = (case cs_stats st ''total_inactive_file'' of None \<Rightarrow> inactive | Some v \<Rightarrow> v);
          mem = cs_usage st;
          mem = (if inactive < mem then mem - inactive else mem)
      in (fl_div (Fin (f64 (of_nat (unat (cs_total st))))) (Fin (10 ^ 9)), mem))"

definition engine_stats ::
  "net \<Rightarrow> engine_client \<Rightarrow> string \<Rightarrow> call list \<times> (call_error + float_value \<times> 64 word)" where
  "engine_stats net e cont =
     (let c = engine_call e ''GET'' cont ''/stats?stream=false&one-shot=true''
      in ([c],
          case net c of
            NoReply \<Rightarrow> Inl CallFailed
          | Reply status json p \<Rightarrow>
              if \<not> is_2xx status then Inl (BadStatus status)
              else (case p of StatsP st \<Rightarrow> Inr (container_usage st) | _ \<Rightarrow> Inl DecodeFailed)))"

section \<open>Reading an algorithm from an exposition\<close>

fun cut :: "string \<Rightarrow> string \<Rightarrow> (string \<times> string) option" where
  "cut [] sep = (if sep = [] then Some ([], []) else None)"
| "cut (c # cs) sep =
     (if has_prefix (c # cs) sep then Some ([], drop (length sep) (c # cs))
      else map_option (apfst (Cons c)) (cut cs sep))"

text \<open>The lines a \<open>bufio.Scanner\<close> gives, without their terminators.\<close>

fun raw_lines :: "string \<Rightarrow> string \<Rightarrow> string list" where
  "raw_lines acc [] = (if acc = [] then [] else [rev acc])"
| "raw_lines acc (c # cs) = (if c = CHR 0x0A then rev acc # raw_lines [] cs else raw_lines (c # acc) cs)"

definition drop_cr :: "string \<Rightarrow> string" where
  "drop_cr l = (if l \<noteq> [] \<and> last l = CHR 0x0D then butlast l else l)"

definition maxLine :: nat where "maxLine = 1024 * 1024"

definition algorithmSeries :: string where
  "algorithmSeries = ''lb_algorithm_info{algorithm='' @ [CHR 0x22]"

datatype algorithm_error = ReadMetricsFailed | NoAlgorithmSeries | AlgorithmCall call_error

fun scan_algorithm :: "string list \<Rightarrow> algorithm_error + string" where
  "scan_algorithm [] = Inl NoAlgorithmSeries"
| "scan_algorithm (raw # ls) =
     (if length raw \<ge> maxLine then Inl ReadMetricsFailed
      else
        (let line = drop_cr raw
         in if \<not> has_prefix line algorithmSeries then scan_algorithm ls
            else (case cut (drop (length algorithmSeries) line) (CHR 0x22 # ''} '') of
                    Some (name, value) \<Rightarrow> if TrimSpace value = ''1'' then Inr name else scan_algorithm ls
                  | None \<Rightarrow> scan_algorithm ls)))"

definition parseAlgorithm :: "string \<Rightarrow> algorithm_error + string" where
  "parseAlgorithm text = scan_algorithm (raw_lines [] text)"

definition readAlgorithm :: "net \<Rightarrow> string \<Rightarrow> call list \<times> (algorithm_error + string)" where
  "readAlgorithm net rawURL =
     (let c = \<lparr>c_method = ''GET'', c_url = rawURL, c_body = NoBody\<rparr>
      in ([c],
          case net c of
            NoReply \<Rightarrow> Inl (AlgorithmCall CallFailed)
          | Reply status json p \<Rightarrow>
              if \<not> is_2xx status then Inl (AlgorithmCall (BadStatus status))
              else (case p of TextP t \<Rightarrow> parseAlgorithm t | _ \<Rightarrow> Inl NoAlgorithmSeries)))"

section \<open>The live state\<close>

record generatorState =
  gst_name :: string
  gst_status :: generatorStatus
  gst_error :: "call_error option"

record backendState =
  bst_name :: string
  bst_profile :: profile
  bst_error :: "call_error option"
  bst_container :: string
  bst_state :: "call_error + string"

record lbState =
  lb_name :: string
  lb_target :: string
  lb_last :: "call_error + lastReload"
  lb_algorithm :: "algorithm_error + string"

definition zero_status :: generatorStatus where
  "zero_status = \<lparr>gs_rate = Fin 0, gs_target = [], gs_offered = 0, gs_sent = 0, gs_dropped = 0, gs_errors = 0\<rparr>"

definition zero_profile :: profile where
  "zero_profile = \<lparr>sleepMS = 0, jitterMS = 0, failRate = Fin 0\<rparr>"

definition gatherGenerators :: "net \<Rightarrow> server \<Rightarrow> call list \<times> generatorState list" where
  "gatherGenerators net s =
     forEachPeer (generators (srv_cfg s))
       (\<lambda>p. let (cs, r) = doJSON net ''GET'' (peer_url p) NoBody
            in (cs, case r of
                 Inl e \<Rightarrow> \<lparr>gst_name = peer_name p, gst_status = zero_status, gst_error = Some e\<rparr>
               | Inr (GenStatusP st) \<Rightarrow> \<lparr>gst_name = peer_name p, gst_status = st, gst_error = None\<rparr>
               | Inr _ \<Rightarrow> \<lparr>gst_name = peer_name p, gst_status = zero_status, gst_error = Some DecodeFailed\<rparr>))"

definition gatherBackends :: "net \<Rightarrow> server \<Rightarrow> call list \<times> backendState list" where
  "gatherBackends net s =
     forEachPeer (backend_peers (srv_cfg s))
       (\<lambda>p. let (cs, r) = doJSON net ''POST'' (peer_url p) (ProfileBody empty_request);
                (es, state) = engine_state net (engine s) (container p);
                (prof, err) = (case r of
                   Inl e \<Rightarrow> (zero_profile, Some e)
                 | Inr (ProfileP q) \<Rightarrow> (q, None)
                 | Inr _ \<Rightarrow> (zero_profile, Some DecodeFailed))
            in (cs @ es, \<lparr>bst_name = peer_name p, bst_profile = prof, bst_error = err,
                 bst_container = container p, bst_state = state\<rparr>))"

definition gatherLBs :: "net \<Rightarrow> server \<Rightarrow> call list \<times> lbState list" where
  "gatherLBs net s =
     forEachPeer (zip (lbAdmins (srv_cfg s)) (lbs (srv_cfg s)))
       (\<lambda>(admin, lb). let base = trim_right_slash (peer_url admin);
                (cs, last) = call_peer net ''GET'' (base @ ''/admin/reload/last'') NoBody;
                (ds, alg) = readAlgorithm net (base @ ''/metrics'')
            in (cs @ ds, \<lparr>lb_name = peer_name lb, lb_target = peer_url lb, lb_last = last, lb_algorithm = alg\<rparr>))"

text \<open>The first state every other is compared with.\<close>

fun agree_loop :: "(generatorState \<Rightarrow> generatorState \<Rightarrow> bool) \<Rightarrow> generatorState \<Rightarrow> generatorState list \<Rightarrow> bool" where
  "agree_loop same st0 [] = True"
| "agree_loop same st0 (st # sts) =
     (if gst_error st \<noteq> None \<or> \<not> same st st0 then False else agree_loop same st0 sts)"

fun first_lb :: "string \<Rightarrow> peer list \<Rightarrow> string" where
  "first_lb tgt [] = []"
| "first_lb tgt (lb # ls) = (if peer_url lb = tgt then peer_name lb else first_lb tgt ls)"

definition activeLB :: "generatorState list \<Rightarrow> peer list \<Rightarrow> string" where
  "activeLB states ls =
     (case states of
        [] \<Rightarrow> []
      | st0 # _ \<Rightarrow>
          if \<not> agree_loop (\<lambda>a b. gs_target (gst_status a) = gs_target (gst_status b)) st0 states then []
          else first_lb (gs_target (gst_status st0)) ls)"

definition commonRate :: "generatorState list \<Rightarrow> float_value option" where
  "commonRate states =
     (case states of
        [] \<Rightarrow> None
      | st0 # _ \<Rightarrow>
          if \<not> agree_loop (\<lambda>a b. fl_eq (gs_rate (gst_status a)) (gs_rate (gst_status b))) st0 states then None
          else Some (gs_rate (gst_status st0)))"

fun peer_by_name :: "string \<Rightarrow> peer list \<Rightarrow> peer option" where
  "peer_by_name name [] = None"
| "peer_by_name name (p # ps) = (if peer_name p = name then Some p else peer_by_name name ps)"

definition lbByName :: "server \<Rightarrow> string \<Rightarrow> peer option" where
  "lbByName s name = peer_by_name name (lbs (srv_cfg s))"

definition backendByName :: "server \<Rightarrow> string \<Rightarrow> peer option" where
  "backendByName s name = peer_by_name name (backend_peers (srv_cfg s))"

section \<open>The handlers\<close>

record fanOutResponse =
  fan_ok :: bool
  fan_results :: "(string \<times> call_error option) list"
  fan_failed :: "string list"

record stateResponse =
  sr_grafana :: string
  sr_active :: string
  sr_rate :: "float_value option"
  sr_lbs :: "lbState list"
  sr_backends :: "backendState list"
  sr_generators :: "generatorState list"

datatype sample = CPUSample string float_value | MemSample string "64 word" | UpSample string nat

datatype api_answer = PageAnswer | APIError nat | FanOutAnswer fanOutResponse
  | BackendAnswer "call_error + profile" | ContainerAnswer string "call_error option"
  | StateAnswer stateResponse | ReloadAnswer string "call_error + lastReload" | MetricsAnswer "sample list"

definition fanOut :: "net \<Rightarrow> peer list \<Rightarrow> call_body \<Rightarrow> call list \<times> (string \<times> call_error option) list" where
  "fanOut net peers body =
     forEachPeer peers
       (\<lambda>p. let (cs, r) = doJSON net ''POST'' (peer_url p) body
            in (cs, (peer_name p, case r of Inl e \<Rightarrow> Some e | Inr v \<Rightarrow> None)))"

fun failed_loop :: "(string \<times> call_error option) list \<Rightarrow> bool \<times> string list \<Rightarrow> bool \<times> string list" where
  "failed_loop [] (ok, fs) = (ok, fs)"
| "failed_loop ((name, err) # rs) (ok, fs) =
     (if err \<noteq> None then failed_loop rs (False, fs @ [name]) else failed_loop rs (ok, fs))"

definition writeFanOut :: "(string \<times> call_error option) list \<Rightarrow> api_answer" where
  "writeFanOut results =
     (let (ok, fs) = failed_loop results (True, [])
      in FanOutAnswer \<lparr>fan_ok = ok, fan_results = results, fan_failed = fs\<rparr>)"

text \<open>A request body that does not decode strictly is \<open>None\<close>.\<close>

definition handleLB :: "net \<Rightarrow> server \<Rightarrow> string option \<Rightarrow> call list \<times> api_answer" where
  "handleLB net s body =
     (case body of
        None \<Rightarrow> ([], APIError 400)
      | Some name \<Rightarrow>
          (case lbByName s name of
             None \<Rightarrow> ([], APIError 400)
           | Some lb \<Rightarrow>
               (let (cs, rs) = fanOut net (generators (srv_cfg s)) (TargetBody (peer_url lb))
                in (cs, writeFanOut rs))))"

definition handleRate :: "net \<Rightarrow> server \<Rightarrow> float_value option option \<Rightarrow> call list \<times> api_answer" where
  "handleRate net s body =
     (case body of
        None \<Rightarrow> ([], APIError 400)
      | Some None \<Rightarrow> ([], APIError 400)
      | Some (Some r) \<Rightarrow>
          if fl_less r (Fin 0) then ([], APIError 400)
          else (let (cs, rs) = fanOut net (generators (srv_cfg s)) (RateBody r) in (cs, writeFanOut rs)))"

definition handleBackend :: "net \<Rightarrow> server \<Rightarrow> (string \<times> adminRequest) option \<Rightarrow> call list \<times> api_answer" where
  "handleBackend net s body =
     (case body of
        None \<Rightarrow> ([], APIError 400)
      | Some (name, req) \<Rightarrow>
          (case backendByName s name of
             None \<Rightarrow> ([], APIError 400)
           | Some b \<Rightarrow>
               if (case in_sleepMS req of None \<Rightarrow> False | Some v \<Rightarrow> v < 0) then ([], APIError 400)
               else if (case in_jitterMS req of None \<Rightarrow> False | Some v \<Rightarrow> v < 0) then ([], APIError 400)
               else if (case in_failRate req of None \<Rightarrow> False | Some v \<Rightarrow> fl_less v (Fin 0) \<or> fl_less (Fin 1) v)
               then ([], APIError 400)
               else (let (cs, r) = doJSON net ''POST'' (peer_url b) (ProfileBody req)
                     in (cs, BackendAnswer (case r of
                          Inl e \<Rightarrow> Inl e | Inr (ProfileP p) \<Rightarrow> Inr p | Inr _ \<Rightarrow> Inl DecodeFailed)))))"

definition handlePower :: "net \<Rightarrow> server \<Rightarrow> string option \<Rightarrow> string \<Rightarrow> call list \<times> api_answer" where
  "handlePower net s body action =
     (case body of
        None \<Rightarrow> ([], APIError 400)
      | Some name \<Rightarrow>
          (case backendByName s name of
             None \<Rightarrow> ([], APIError 400)
           | Some b \<Rightarrow>
               (let (cs, err) = (if action = ''kill'' then engine_kill net (engine s) (container b)
                                 else engine_start net (engine s) (container b))
                in (cs, ContainerAnswer (container b) err))))"

definition handleKill :: "net \<Rightarrow> server \<Rightarrow> string option \<Rightarrow> call list \<times> api_answer" where
  "handleKill net s body = handlePower net s body ''kill''"

definition handleRevive :: "net \<Rightarrow> server \<Rightarrow> string option \<Rightarrow> call list \<times> api_answer" where
  "handleRevive net s body = handlePower net s body ''revive''"

definition handleState :: "net \<Rightarrow> server \<Rightarrow> call list \<times> api_answer" where
  "handleState net s =
     (let (cs1, gens) = gatherGenerators net s;
          (cs2, bks) = gatherBackends net s;
          (cs3, ls) = gatherLBs net s
      in (cs1 @ cs2 @ cs3,
          StateAnswer \<lparr>sr_grafana = grafanaURL (srv_cfg s), sr_active = activeLB gens (lbs (srv_cfg s)),
            sr_rate = commonRate gens, sr_lbs = ls, sr_backends = bks, sr_generators = gens\<rparr>))"

text \<open>The admin peer of the active load balancer: the loop keeps the last of that name.\<close>

fun admin_loop :: "string \<Rightarrow> peer list \<Rightarrow> peer list \<Rightarrow> peer \<Rightarrow> peer" where
  "admin_loop active (lb # ls) (ad # ads) acc =
     admin_loop active ls ads (if peer_name lb = active then ad else acc)"
| "admin_loop active ls ads acc = acc"

definition nil_peer :: peer where
  "nil_peer = \<lparr>peer_name = [], peer_url = [], container = []\<rparr>"

text \<open>
  \<open>raw\<close> is the request body, none when reading it failed; \<open>is_empty_object\<close> says that the strict
  decoder accepts a text into the empty struct.
\<close>

definition handleReloadInvalid ::
  "net \<Rightarrow> (string \<Rightarrow> bool) \<Rightarrow> server \<Rightarrow> string option \<Rightarrow> call list \<times> api_answer" where
  "handleReloadInvalid net is_empty_object s raw =
     (case map_option (take 1024) raw of
        None \<Rightarrow> ([], APIError 400)
      | Some bytes \<Rightarrow>
          if length (TrimSpace bytes) > 0 \<and> \<not> is_empty_object bytes then ([], APIError 400)
          else
            (let (cs, gens) = gatherGenerators net s;
                 active = activeLB gens (lbs (srv_cfg s))
             in if active = [] then (cs, APIError 409)
                else
                  (let admin = admin_loop active (lbs (srv_cfg s)) (lbAdmins (srv_cfg s)) nil_peer;
                       (ds, r) = call_peer net ''POST'' (trim_right_slash (peer_url admin) @ ''/admin/reload'')
                                   (YamlBody invalidReloadBody)
                   in (cs @ ds, ReloadAnswer active r))))"

definition handleMetrics :: "net \<Rightarrow> server \<Rightarrow> call list \<times> api_answer" where
  "handleMetrics net s =
     (let (cs, readings) = forEachPeer (stats_targets s) (\<lambda>t. engine_stats net (engine s) (stats_container t));
          rows = zip (stats_targets s) readings
      in (cs, MetricsAnswer
            (concat (map (\<lambda>(t, r). case r of Inl e \<Rightarrow> [] | Inr (cpu, mem) \<Rightarrow> [CPUSample (stats_label t) cpu]) rows) @
             concat (map (\<lambda>(t, r). case r of Inl e \<Rightarrow> [] | Inr (cpu, mem) \<Rightarrow> [MemSample (stats_label t) mem]) rows) @
             map (\<lambda>(t, r). UpSample (stats_label t) (case r of Inl e \<Rightarrow> 0 | Inr v \<Rightarrow> 1)) rows)))"

definition handlePage :: "string \<Rightarrow> api_answer" where
  "handlePage path = (if path \<noteq> ''/'' then APIError 404 else PageAnswer)"

text \<open>The routes; a \<open>GET\<close> pattern serves \<open>HEAD\<close> too, and \<open>GET /\<close> takes every other path.\<close>

datatype api_route = RoutePage | RouteState | RouteLB | RouteRate | RouteBackend | RouteKill | RouteRevive
  | RouteReloadInvalid | RouteMetrics | Route405

definition control_routes :: "string \<rightharpoonup> bool \<times> api_route" where
  "control_routes =
     [''/api/state'' \<mapsto> (True, RouteState), ''/api/lb'' \<mapsto> (False, RouteLB), ''/api/rate'' \<mapsto> (False, RouteRate),
      ''/api/backend'' \<mapsto> (False, RouteBackend), ''/api/backend/kill'' \<mapsto> (False, RouteKill),
      ''/api/backend/revive'' \<mapsto> (False, RouteRevive), ''/api/reload-invalid'' \<mapsto> (False, RouteReloadInvalid),
      ''/metrics'' \<mapsto> (True, RouteMetrics)]"

definition control_handler :: "string \<Rightarrow> string \<Rightarrow> api_route" where
  "control_handler mthd path =
     (let get = (mthd = ''GET'' \<or> mthd = ''HEAD'')
      in case control_routes path of
           Some (is_get, r) \<Rightarrow>
             if is_get then (if get then r else Route405)
             else if mthd = ''POST'' then r else if get then RoutePage else Route405
         | None \<Rightarrow> if get then RoutePage else Route405)"

section \<open>What the service can make its peers do\<close>

lemma doJSON_calls:
  "c \<in> set (fst (doJSON net mthd u body)) \<Longrightarrow>
     c = \<lparr>c_method = mthd, c_url = trim_right_slash u @ ''/'', c_body = body\<rparr>"
  by (auto simp: doJSON_def Let_def split: if_splits)

lemma forEachPeer_calls: "set (fst (forEachPeer ps f)) = (\<Union>p \<in> set ps. set (fst (f p)))"
  by (auto simp: forEachPeer_def)

lemma fanOut_calls:
  "c \<in> set (fst (fanOut net ps body)) \<Longrightarrow> \<exists>p \<in> set ps. c = \<lparr>c_method = ''POST'',
     c_url = trim_right_slash (peer_url p) @ ''/'', c_body = body\<rparr>"
  by (auto simp: fanOut_def forEachPeer_calls split_beta dest: doJSON_calls)

lemma gatherGenerators_calls:
  "c \<in> set (fst (gatherGenerators net s)) \<Longrightarrow> \<exists>p \<in> set (generators (srv_cfg s)). c = \<lparr>c_method = ''GET'',
     c_url = trim_right_slash (peer_url p) @ ''/'', c_body = NoBody\<rparr>"
  by (auto simp: gatherGenerators_def forEachPeer_calls split_beta dest: doJSON_calls)

lemma peer_by_name_Some: "peer_by_name n ps = Some p \<Longrightarrow> p \<in> set ps \<and> peer_name p = n"
  by (induction ps) (auto split: if_splits)

lemma writeFanOut_not_error: "writeFanOut rs \<noteq> APIError k"
  by (simp add: writeFanOut_def split: prod.split)

text \<open>The requests of the API, and the handler each goes to.\<close>

datatype action = SwitchLB "string option" | SetRate "float_value option option"
  | SetProfile "(string \<times> adminRequest) option" | Kill "string option" | Revive "string option"
  | ReloadInvalid "string option" | ReadState | ReadMetrics

fun perform :: "net \<Rightarrow> (string \<Rightarrow> bool) \<Rightarrow> server \<Rightarrow> action \<Rightarrow> call list \<times> api_answer" where
  "perform net eo s (SwitchLB b) = handleLB net s b"
| "perform net eo s (SetRate b) = handleRate net s b"
| "perform net eo s (SetProfile b) = handleBackend net s b"
| "perform net eo s (Kill b) = handleKill net s b"
| "perform net eo s (Revive b) = handleRevive net s b"
| "perform net eo s (ReloadInvalid b) = handleReloadInvalid net eo s b"
| "perform net eo s ReadState = handleState net s"
| "perform net eo s ReadMetrics = handleMetrics net s"

text \<open>The calls that change a peer.\<close>

definition changes :: "call \<Rightarrow> bool" where
  "changes c \<longleftrightarrow> c_method c \<noteq> ''GET'' \<and> c_body c \<noteq> ProfileBody empty_request"

definition confined :: "server \<Rightarrow> call \<Rightarrow> bool" where
  "confined s c \<longleftrightarrow>
     (\<exists>p \<in> set (generators (srv_cfg s)). c_url c = trim_right_slash (peer_url p) @ ''/'' \<and>
        ((\<exists>lb \<in> set (lbs (srv_cfg s)). c_body c = TargetBody (peer_url lb)) \<or>
         (\<exists>r. c_body c = RateBody r \<and> \<not> fl_less r (Fin 0)))) \<or>
     (\<exists>b \<in> set (backend_peers (srv_cfg s)). c_url c = trim_right_slash (peer_url b) @ ''/'' \<and>
        (\<exists>req. c_body c = ProfileBody req)) \<or>
     (\<exists>b \<in> set (backend_peers (srv_cfg s)). \<exists>verb \<in> {''/kill'', ''/start''}.
        c = engine_call (engine s) ''POST'' (container b) verb) \<or>
     (c_body c = YamlBody invalidReloadBody)"

lemma confined_actions:
  assumes "c \<in> set (fst (perform net eo s act))" and "changes c"
  shows "confined s c"
proof (cases act)
  case (SwitchLB b)
  then obtain n lb where n: "b = Some n" "lbByName s n = Some lb"
    using assms(1) by (auto simp: handleLB_def split: option.splits)
  then have "c \<in> set (fst (fanOut net (generators (srv_cfg s)) (TargetBody (peer_url lb))))"
    using assms(1) SwitchLB by (simp add: handleLB_def split_beta)
  from fanOut_calls [OF this] show ?thesis
    using peer_by_name_Some [OF n(2) [unfolded lbByName_def]] by (auto simp: confined_def)
next
  case (SetRate b)
  then obtain r where r: "b = Some (Some r)" "\<not> fl_less r (Fin 0)"
    using assms(1) by (auto simp: handleRate_def split: option.splits if_splits)
  then have "c \<in> set (fst (fanOut net (generators (srv_cfg s)) (RateBody r)))"
    using assms(1) SetRate by (simp add: handleRate_def split_beta)
  from fanOut_calls [OF this] show ?thesis using r(2) by (auto simp: confined_def)
next
  case (SetProfile b)
  then obtain n req p where n: "b = Some (n, req)" "backendByName s n = Some p"
    "c \<in> set (fst (doJSON net ''POST'' (peer_url p) (ProfileBody req)))"
    using assms(1) by (fastforce simp: handleBackend_def split_beta split: option.splits if_splits)
  from doJSON_calls [OF n(3)] show ?thesis
    using peer_by_name_Some [OF n(2) [unfolded backendByName_def]] by (auto simp: confined_def)
next
  case (Kill b)
  then show ?thesis using assms(1)
    by (auto simp: handleKill_def handlePower_def engine_kill_def Let_def backendByName_def confined_def
        split: option.splits dest!: peer_by_name_Some)
next
  case (Revive b)
  then show ?thesis using assms(1)
    by (auto simp: handleRevive_def handlePower_def engine_start_def Let_def backendByName_def confined_def
        split: option.splits dest!: peer_by_name_Some)
next
  case (ReloadInvalid b)
  then show ?thesis using assms
    by (auto simp: handleReloadInvalid_def Let_def split_beta call_peer_def changes_def confined_def
        split: option.splits if_splits dest!: gatherGenerators_calls)
next
  case ReadState
  then show ?thesis using assms
    by (auto simp: handleState_def gatherBackends_def gatherLBs_def forEachPeer_calls split_beta Let_def
        engine_state_def engine_call_def call_peer_def readAlgorithm_def changes_def
        dest!: gatherGenerators_calls doJSON_calls)
next
  case ReadMetrics
  then show ?thesis using assms
    by (auto simp: handleMetrics_def forEachPeer_calls split_beta Let_def engine_stats_def engine_call_def changes_def)
qed

lemma rejected_silent: "snd (perform net eo s act) = APIError 400 \<Longrightarrow> fst (perform net eo s act) = []"
  by (cases act)
    (auto simp: handleLB_def handleRate_def handleBackend_def handleKill_def handleRevive_def handlePower_def
      handleReloadInvalid_def handleState_def handleMetrics_def split_beta Let_def writeFanOut_not_error
      split: option.splits if_splits)


definition sample_peer :: "string \<Rightarrow> string \<Rightarrow> peer" where
  "sample_peer n u = \<lparr>peer_name = n, peer_url = u, container = ''demo-'' @ n\<rparr>"

definition sample_server :: server where
  "sample_server = \<lparr>srv_cfg = \<lparr>generators = [sample_peer ''gen1'' ''http://gen1:9090''],
     backend_peers = [sample_peer ''backend1'' ''http://backend1:9091''], lbs = [sample_peer ''lb'' ''http://lb:8080''],
     lbAdmins = [sample_peer ''lb'' ''http://lb:9090''], grafanaURL = defaultGrafanaURL,
     dockerHost = defaultDockerHost, containerPrefix = ''demo-'', ctl_addr = defaultControlServiceAddr\<rparr>,
     engine = EngineSocket ''/var/run/docker.sock'', stats_targets = []\<rparr>"


section \<open>Switching the load balancer\<close>

text \<open>How a traffic client answers a call on its control endpoint.\<close>

fun gen_call :: "call \<Rightarrow> updateJSON body_decode" where
  "gen_call \<lparr>c_method = m, c_url = u, c_body = TargetBody t\<rparr> = BodyValue \<lparr>up_rate = None, up_target = Some t\<rparr>"
| "gen_call \<lparr>c_method = m, c_url = u, c_body = RateBody r\<rparr> = BodyValue \<lparr>up_rate = Some r, up_target = None\<rparr>"
| "gen_call \<lparr>c_method = m, c_url = u, c_body = NoBody\<rparr> = BodyEmpty"
| "gen_call \<lparr>c_method = m, c_url = u, c_body = b\<rparr> = BodyInvalid"

definition gen_after :: "generator \<Rightarrow> call \<Rightarrow> generator" where
  "gen_after g c = fst (controlHandler (c_method c) (gen_call c) g)"

definition gen_reply :: "generator \<Rightarrow> call \<Rightarrow> reply" where
  "gen_reply g c =
     (case snd (controlHandler (c_method c) (gen_call c) g) of
        ControlStatus st \<Rightarrow> Reply 200 True (GenStatusP \<lparr>gs_rate = st_total_rate st, gs_target = st_target st,
          gs_offered = st_offered st, gs_sent = st_sent st, gs_dropped = st_dropped st, gs_errors = st_errors st\<rparr>)
      | ControlBadRequest \<Rightarrow> Reply 400 False OtherP
      | ControlNotAllowed \<Rightarrow> Reply 405 False OtherP)"

text \<open>The configured clients are the generators \<open>G\<close>.\<close>

definition plays :: "net \<Rightarrow> (peer \<Rightarrow> generator) \<Rightarrow> server \<Rightarrow> bool" where
  "plays net G s \<longleftrightarrow>
     (\<forall>p \<in> set (generators (srv_cfg s)). \<forall>c. c_url c = trim_right_slash (peer_url p) @ ''/'' \<longrightarrow> net c = gen_reply (G p) c)"

definition target_call :: "peer \<Rightarrow> string \<Rightarrow> call" where
  "target_call p t = \<lparr>c_method = ''POST'', c_url = trim_right_slash (peer_url p) @ ''/'', c_body = TargetBody t\<rparr>"

definition allows :: "generator \<Rightarrow> string \<Rightarrow> bool" where
  "allows g t \<longleftrightarrow> t \<in> set (allowlist (gen_cfg g))"

lemma gen_after_target: "gen_after g (target_call p t) =
    (if allows g t then g\<lparr>gen_settings := (gen_settings g)\<lparr>set_target := t\<rparr>\<rparr> else g)"
  by (simp add: gen_after_def target_call_def controlHandler_def handleUpdate_def apply_settings_def allows_def Let_def)

lemma gen_reply_target: "\<exists>st. gen_reply g (target_call p t) =
    (if allows g t then Reply 200 True (GenStatusP st) else Reply 400 False OtherP)"
  by (simp add: gen_reply_def target_call_def controlHandler_def handleUpdate_def apply_settings_def allows_def Let_def)

lemma fanOut_target:
  assumes "plays net G s"
  shows "snd (fanOut net (generators (srv_cfg s)) (TargetBody t)) =
    map (\<lambda>p. (peer_name p, if allows (G p) t then None else Some (BadStatus 400))) (generators (srv_cfg s))"
proof -
  have "snd (doJSON net ''POST'' (peer_url p) (TargetBody t)) = (case gen_reply (G p) (target_call p t) of
      NoReply \<Rightarrow> Inl CallFailed | Reply status json v \<Rightarrow> if \<not> is_2xx status then Inl (BadStatus status) else Inr v)"
    if "p \<in> set (generators (srv_cfg s))" for p
    using assms that by (simp add: plays_def doJSON_def target_call_def Let_def)
  then have "case snd (doJSON net ''POST'' (peer_url p) (TargetBody t)) of
      Inl e \<Rightarrow> \<not> allows (G p) t \<and> e = BadStatus 400 | Inr v \<Rightarrow> allows (G p) t"
    if "p \<in> set (generators (srv_cfg s))" for p
    using gen_reply_target [of "G p" p t] that by (auto simp: is_2xx_def)
  then show ?thesis
    by (simp add: fanOut_def forEachPeer_def split_beta comp_def) (fastforce split: sum.splits)
qed

lemma failed_loop_eq:
  "failed_loop rs (ok, fs) = (ok \<and> (\<forall>r \<in> set rs. snd r = None), fs @ map fst (filter (\<lambda>r. snd r \<noteq> None) rs))"
  by (induction rs arbitrary: ok fs) auto


lemma agree_loop_iff: "agree_loop same st0 sts \<longleftrightarrow> (\<forall>st \<in> set sts. gst_error st = None \<and> same st st0)"
  by (induction sts) auto

lemma first_lb_distinct:
  "distinct (map peer_url ls) \<Longrightarrow> lb \<in> set ls \<Longrightarrow> first_lb (peer_url lb) ls = peer_name lb"
  by (induction ls) (auto simp: image_iff)

lemma first_lb_name: "first_lb t ls \<noteq> [] \<Longrightarrow> \<exists>lb \<in> set ls. peer_url lb = t \<and> peer_name lb = first_lb t ls"
  by (induction ls) auto

lemma handleState_active: "case snd (handleState net s) of
    StateAnswer a \<Rightarrow> sr_active a = activeLB (snd (gatherGenerators net s)) (lbs (srv_cfg s)) | _ \<Rightarrow> False"
  by (simp add: handleState_def split_beta)

text \<open>What a state read gathers from the clients \<open>G\<close>.\<close>

lemma gatherGenerators_plays:
  assumes "plays net G s"
  shows "map (\<lambda>g. (gst_error g, gs_target (gst_status g))) (snd (gatherGenerators net s)) =
    map (\<lambda>p. (None, set_target (gen_settings (G p)))) (generators (srv_cfg s))"
proof -
  have "\<exists>st. gen_reply g \<lparr>c_method = ''GET'', c_url = u, c_body = NoBody\<rparr> = Reply 200 True (GenStatusP st) \<and>
      gs_target st = set_target (gen_settings g)" for g u
    by (simp add: gen_reply_def controlHandler_def gen_writeStatus_def)
  note reply = this
  show ?thesis
    unfolding gatherGenerators_def forEachPeer_def snd_conv list.map_comp map_eq_conv
  proof
    fix p
    assume p: "p \<in> set (generators (srv_cfg s))"
    obtain st where st: "gen_reply (G p) \<lparr>c_method = ''GET'', c_url = trim_right_slash (peer_url p) @ ''/'', c_body = NoBody\<rparr> =
        Reply 200 True (GenStatusP st)" "gs_target st = set_target (gen_settings (G p))"
      using reply by blast
    have "net \<lparr>c_method = ''GET'', c_url = trim_right_slash (peer_url p) @ ''/'', c_body = NoBody\<rparr> =
        Reply 200 True (GenStatusP st)"
      using assms p st(1) by (simp add: plays_def)
    then have "snd (doJSON net ''GET'' (peer_url p) NoBody) = Inr (GenStatusP st)"
      by (simp add: doJSON_def Let_def is_2xx_def)
    then show "((\<lambda>g. (gst_error g, gs_target (gst_status g))) \<circ> (snd \<circ> (\<lambda>p. let (cs, r) = doJSON net ''GET'' (peer_url p) NoBody
            in (cs, case r of
                 Inl e \<Rightarrow> \<lparr>gst_name = peer_name p, gst_status = zero_status, gst_error = Some e\<rparr>
               | Inr (GenStatusP st) \<Rightarrow> \<lparr>gst_name = peer_name p, gst_status = st, gst_error = None\<rparr>
               | Inr _ \<Rightarrow> \<lparr>gst_name = peer_name p, gst_status = zero_status, gst_error = Some DecodeFailed\<rparr>)))) p =
        (None, set_target (gen_settings (G p)))"
      by (simp add: split_beta st(2))
  qed
qed

lemma active_plays:
  assumes "plays net G s" "generators (srv_cfg s) \<noteq> []"
    and "distinct (map peer_url (lbs (srv_cfg s)))" "distinct (map peer_name (lbs (srv_cfg s)))"
    and "lb \<in> set (lbs (srv_cfg s))" "peer_name lb \<noteq> []"
  shows "activeLB (snd (gatherGenerators net s)) (lbs (srv_cfg s)) = peer_name lb \<longleftrightarrow>
    (\<forall>p \<in> set (generators (srv_cfg s)). set_target (gen_settings (G p)) = peer_url lb)"
proof -
  let ?gs = "snd (gatherGenerators net s)" and ?ps = "generators (srv_cfg s)"
  let ?t = "\<lambda>p. set_target (gen_settings (G p))"
  have m: "map (\<lambda>g. (gst_error g, gs_target (gst_status g))) ?gs = map (\<lambda>p. (None, ?t p)) ?ps"
    by (rule gatherGenerators_plays [OF assms(1)])
  obtain p ps where p: "?ps = p # ps" using assms(2) by (cases ?ps) auto
  obtain g gs where g: "?gs = g # gs" "gs_target (gst_status g) = ?t p" using m p by (cases ?gs) auto
  have "set (map (\<lambda>g. (gst_error g, gs_target (gst_status g))) ?gs) = set (map (\<lambda>p. (None, ?t p)) ?ps)"
    by (simp only: m)
  then have "agree_loop (\<lambda>a b. gs_target (gst_status a) = gs_target (gst_status b)) g (g # gs) \<longleftrightarrow>
      (\<forall>q \<in> set ?ps. ?t q = ?t p)"
    unfolding agree_loop_iff g(2) using g(1) by (auto simp: image_iff set_eq_iff) metis+
  then have a: "activeLB ?gs (lbs (srv_cfg s)) =
      (if \<forall>q \<in> set ?ps. ?t q = ?t p then first_lb (?t p) (lbs (srv_cfg s)) else [])"
    by (simp only: activeLB_def g list.case if_not_P if_P refl not_not) (simp split: if_splits)
  show ?thesis
  proof
    assume "activeLB ?gs (lbs (srv_cfg s)) = peer_name lb"
    then have all: "\<forall>q \<in> set ?ps. ?t q = ?t p" and f: "first_lb (?t p) (lbs (srv_cfg s)) = peer_name lb"
      using a assms(6) by (auto split: if_splits)
    then obtain lb' where "lb' \<in> set (lbs (srv_cfg s))" "peer_url lb' = ?t p" "peer_name lb' = peer_name lb"
      using first_lb_name assms(6) by metis
    then have "peer_url lb = ?t p" using assms(4,5) by (auto simp: distinct_map dest: inj_onD)
    then show "\<forall>q \<in> set ?ps. ?t q = peer_url lb" using all by simp
  next
    assume "\<forall>q \<in> set ?ps. ?t q = peer_url lb"
    then show "activeLB ?gs (lbs (srv_cfg s)) = peer_name lb"
      using a p first_lb_distinct [OF assms(3,5)] by simp
  qed
qed


text \<open>
  C25. Switching the load balancer works, and the page knows whether it did. With traffic clients
  that keep their invariant behind the configured addresses, the answer to the switch names
  exactly the clients whose allowlist refuses the target, and the next state read shows the chosen
  load balancer as the active one if and only if no client refused: after a partial switch the
  page never claims the switch happened.
\<close>

theorem switch_lb_reported:
  assumes "plays net G s" "\<forall>p \<in> set (generators (srv_cfg s)). gen_inv (G p)"
    and "lbByName s name = Some lb" "name \<noteq> []" "generators (srv_cfg s) \<noteq> []"
    and "distinct (map peer_url (lbs (srv_cfg s)))" "distinct (map peer_name (lbs (srv_cfg s)))"
    and "plays net' (\<lambda>p. gen_after (G p) (target_call p (peer_url lb))) s"
  shows "case (snd (handleLB net s (Some name)), snd (handleState net' s)) of
      (FanOutAnswer a, StateAnswer st) \<Rightarrow>
        fan_failed a = map peer_name (filter (\<lambda>p. \<not> allows (G p) (peer_url lb)) (generators (srv_cfg s))) \<and>
        (fan_ok a \<longleftrightarrow> fan_failed a = []) \<and> (sr_active st = name \<longleftrightarrow> fan_ok a)
    | _ \<Rightarrow> False"
proof -
  have lb: "lb \<in> set (lbs (srv_cfg s))" "peer_name lb = name"
    using assms(3) peer_by_name_Some by (auto simp: lbByName_def)
  let ?ps = "generators (srv_cfg s)"
  have "snd (handleLB net s (Some name)) = writeFanOut
      (map (\<lambda>p. (peer_name p, if allows (G p) (peer_url lb) then None else Some (BadStatus 400))) ?ps)"
    using assms(3) fanOut_target [OF assms(1), of "peer_url lb"] by (simp add: handleLB_def split_beta)
  then obtain a where a: "snd (handleLB net s (Some name)) = FanOutAnswer a"
    "fan_ok a \<longleftrightarrow> (\<forall>p \<in> set ?ps. allows (G p) (peer_url lb))"
    "fan_failed a = map peer_name (filter (\<lambda>p. \<not> allows (G p) (peer_url lb)) ?ps)"
    by (simp add: writeFanOut_def failed_loop_eq filter_map comp_def if_distrib [where f = "\<lambda>x. x = None"] cong: if_cong)
  have "set_target (gen_settings (gen_after (G p) (target_call p (peer_url lb)))) = peer_url lb \<longleftrightarrow>
      allows (G p) (peer_url lb)" if "p \<in> set ?ps" for p
    using assms(2) that by (auto simp: gen_after_target gen_inv_def allows_def)
  then have "activeLB (snd (gatherGenerators net' s)) (lbs (srv_cfg s)) = name \<longleftrightarrow> fan_ok a"
    using active_plays [OF assms(8,5,6,7) lb(1)] assms(4) lb(2) a(2) by simp
  moreover have "fan_ok a \<longleftrightarrow> fan_failed a = []" by (auto simp: a filter_empty_conv)
  ultimately show ?thesis
    using handleState_active [of net' s] a by (auto split: api_answer.splits)
qed

definition idle_generator :: "string list \<Rightarrow> generator" where
  "idle_generator al = \<lparr>gen_cfg = sample_gen_config\<lparr>allowlist := al\<rparr>, share = Fin 1,
     gen_settings = \<lparr>set_rate = Fin 1, set_target = ''http://lb:8080''\<rparr>,
     offered = 0, sent = 0, dropped = 0, completed = 0, failed = 0, gen_phase = ArrWaiting, in_flight = []\<rparr>"

definition two_lb_server :: server where
  "two_lb_server = sample_server\<lparr>srv_cfg := (srv_cfg sample_server)
     \<lparr>lbs := [sample_peer ''lb'' ''http://lb:8080'', sample_peer ''naive'' ''http://naive:8080'']\<rparr>\<rparr>"

theorem switch_lb_reported_witness:
  "\<exists>a st. snd (handleLB (gen_reply (idle_generator [''http://lb:8080''])) two_lb_server (Some ''naive'')) = FanOutAnswer a \<and>
     fan_failed a = [''gen1''] \<and> \<not> fan_ok a \<and>
     snd (handleState (gen_reply (idle_generator [''http://lb:8080''])) two_lb_server) = StateAnswer st \<and> sr_active st \<noteq> ''naive''"
proof -
  let ?g = "idle_generator [''http://lb:8080'']"
  have "\<not> allows ?g ''http://naive:8080''" by (simp add: allows_def idle_generator_def)
  moreover from this have "plays (gen_reply ?g) (\<lambda>p. gen_after ?g (target_call p ''http://naive:8080'')) two_lb_server"
    by (simp add: plays_def gen_after_target)
  moreover have "plays (gen_reply ?g) (\<lambda>p. ?g) two_lb_server" by (simp add: plays_def)
  moreover have "gen_inv ?g" by (simp add: gen_inv_def idle_generator_def sample_gen_config_def wrap64_def)
  ultimately show ?thesis
    using switch_lb_reported [where net = "gen_reply ?g" and net' = "gen_reply ?g" and G = "\<lambda>p. ?g" and s = two_lb_server
        and name = "''naive''" and lb = "sample_peer ''naive'' ''http://naive:8080''"]
    by (auto simp: two_lb_server_def sample_server_def sample_peer_def lbByName_def split: api_answer.splits)
qed


section \<open>Reading the running algorithm back\<close>

lemma raw_lines_line: "CHR 0x0A \<notin> set l \<Longrightarrow> raw_lines acc (l @ CHR 0x0A # rest) = (rev acc @ l) # raw_lines [] rest"
  by (induction l arbitrary: acc) auto

lemma raw_lines_before: "\<forall>l \<in> set ls. CHR 0x0A \<notin> set l \<Longrightarrow>
    raw_lines [] (concat (map (\<lambda>l. l @ [CHR 0x0A]) ls) @ rest) = ls @ raw_lines [] rest"
  by (induction ls) (auto simp: raw_lines_line)

lemma scan_algorithm_skip:
  "\<forall>l \<in> set ls. length l < maxLine \<and> \<not> has_prefix (drop_cr l) algorithmSeries \<Longrightarrow>
    scan_algorithm (ls @ rest) = scan_algorithm rest"
  by (induction ls) auto

lemma cut_absent: "c \<notin> set a \<Longrightarrow> cut (a @ c # sep @ v) (c # sep) = Some (a, v)"
  by (induction a) (auto simp: has_prefix_def)



end
