(* ===== verification/Demo.thy ===== *)
theory Demo
  imports Admin Control_Service
begin

text \<open>
  The demo's pieces together: the control page's invalid-reload action
  (\<open>demo/control-service/main.go\<close>) against the load balancer's reload endpoint
  (\<open>internal/app/admin.go\<close>), the request the page sends being answered by the modelled handler; and
  the load balancer's active probes (\<open>internal/health/checker.go\<close>) against a dummy backend
  (\<open>deployments/docker/dummy-backend/main.go\<close>) that injects failures.
\<close>

lemma invalid_algorithm_rejected:
  assumes "\<forall>c. yaml_decode bytes = Inr c \<longrightarrow> Algorithm c \<noteq> [] \<and> Algorithm c \<notin> set implementedAlgorithms"
  shows "\<exists>e l. verdict parse old (Parse yaml_decode env bytes source) = Inl (e, l)"
proof (cases "Parse yaml_decode env bytes source")
  case (Inr c)
  then obtain c0 where "yaml_decode bytes = Inr c0" "expandBackendURLs env c0 = Inr c"
    by (auto simp: Parse_def decode_def split: sum.splits)
  then have "Algorithm c = Algorithm c0" "Algorithm c0 \<noteq> [] \<and> Algorithm c0 \<notin> set implementedAlgorithms"
    using assms by (auto simp: expandBackendURLs_def split: sum.splits)
  then have "\<not> config_ok parse c" by (auto simp: config_ok_def)
  then obtain e where "fst (Validate parse c) = Some e" using fst_Validate by blast
  with Inr show ?thesis by (simp add: verdict_def)
qed (simp add: verdict_def)

text \<open>A rejected body at the endpoint.\<close>

lemma handleAdminReload_rejected:
  assumes "app_inv parse (a, w)" "runCtx a" "length bytes \<le> adminReloadMaxBody"
    and "verdict parse (loadedCfg a) (Parse yaml_decode env bytes adminReloadSource) = Inl (e, l)"
  shows "handleAdminReload parse yaml_decode env rfc3339 err_text now (Whole bytes) (a, w) =
    Some ((a\<lparr>lastReload := Some (status_of now (Some e))\<rparr>, log l w),
      StatusJSON 422 (wire rfc3339 err_text (status_of now (Some e))))"
  using ReloadFrom_cases [OF assms(1), where now = now and loaded = "Parse yaml_decode env bytes adminReloadSource"]
    assms(2,3) unfolding assms(4) by (simp add: handleAdminReload_def)

lemma invalidReloadBody_length: "length invalidReloadBody \<le> adminReloadMaxBody"
  by (simp add: invalidReloadBody_def config_line_def quoted_def adminReloadMaxBody_def)

text \<open>The calls of the invalid-reload action that post a body.\<close>

lemma handleReloadInvalid_posts:
  "c \<in> set (fst (handleReloadInvalid net is_empty s raw)) \<Longrightarrow> c_body c = YamlBody b \<Longrightarrow> b = invalidReloadBody"
  by (auto simp: handleReloadInvalid_def Let_def split_beta call_peer_def split: option.splits if_splits
      dest!: gatherGenerators_calls)

text \<open>
  C26. The page's invalid-reload button is safe to press on a serving load balancer: whatever the
  action posts, if the decoder reads the fixed text's algorithm as written, the running load
  balancer answers 422 with the result \<open>rejected\<close> and keeps the configuration, the selector, the
  published backends and every backend's state.
\<close>

theorem invalid_reload_harmless:
  fixes yaml_decode :: "string \<Rightarrow> 'y + Config" and a :: "('c, 'a outlier_world_scheme) app"
  assumes "\<forall>c. yaml_decode invalidReloadBody = Inr c \<longrightarrow> Algorithm c = ''p3c_ewma''"
    and "app_inv parse (a, w)" "runCtx a"
    and "c \<in> set (fst (handleReloadInvalid net is_empty s raw))" "c_body c = YamlBody b"
  shows "\<exists>a' w' j. handleAdminReload parse yaml_decode env rfc3339 err_text now (Whole b) (a, w) =
      Some ((a', w'), StatusJSON 422 j) \<and> wire_result j = ''rejected'' \<and> app_inv parse (a', w') \<and>
    loadedCfg a' = loadedCfg a \<and> proxy a' = proxy a \<and> heap w' = heap w \<and> snap w' = snap w"
proof -
  have b: "b = invalidReloadBody" using handleReloadInvalid_posts [OF assms(4,5)] .
  have "\<forall>c. yaml_decode b = Inr c \<longrightarrow> Algorithm c \<noteq> [] \<and> Algorithm c \<notin> set implementedAlgorithms"
    using assms(1) by (auto simp: b implementedAlgorithms_def algorithm_names)
  from invalid_algorithm_rejected [where yaml_decode = yaml_decode, OF this] obtain e l
    where v: "verdict parse (loadedCfg a) (Parse yaml_decode env b adminReloadSource) = Inl (e, l)" by blast
  show ?thesis
    using handleAdminReload_rejected [OF assms(2,3) _ v] invalidReloadBody_length assms(2)
    by (simp add: b wire_def status_of_def)
qed

theorem invalid_reload_harmless_witness:
  "\<exists>(a :: (unit, outlier_world) app) w a' w' j.
     handleAdminReload sample_parse (\<lambda>b. Inr (sample_config\<lparr>Algorithm := ''p3c_ewma''\<rparr>) :: unit + Config) (\<lambda>v. None)
       (\<lambda>t. ''t'') (\<lambda>e. ''e'') 7 (Whole invalidReloadBody) (a, w) =
       Some ((a', w'), StatusJSON 422 j) \<and> loadedCfg a' = resolve sample_config"
proof -
  obtain a0 :: "(unit, outlier_world) app" and w0 where a0: "app_inv sample_parse (a0, w0)"
    "loadedCfg a0 = resolve sample_config" using sample_app by blast
  obtain a :: "(unit, outlier_world) app" and w where a: "app_inv sample_parse (a, w)" "runCtx a"
    "loadedCfg a = resolve sample_config"
    using Run_start_inv [OF a0(1)] a0(2) by metis
  let ?c = "\<lparr>c_method = ''POST'', c_url = ''http://lb:9090/admin/reload'', c_body = YamlBody invalidReloadBody\<rparr>"
  let ?net = "gen_reply (idle_generator [])" and ?lb = "sample_peer ''lb'' ''http://lb:8080''"
  have lbs: "lbs (srv_cfg sample_server) = [?lb]" "generators (srv_cfg sample_server) \<noteq> []"
    "lbAdmins (srv_cfg sample_server) = [sample_peer ''lb'' ''http://lb:9090'']"
    by (simp_all add: sample_server_def)
  have "plays ?net (\<lambda>p. idle_generator []) sample_server" by (simp add: plays_def)
  from active_plays [OF this lbs(2), of ?lb]
  have "activeLB (snd (gatherGenerators ?net sample_server)) (lbs (srv_cfg sample_server)) = ''lb''"
    by (simp add: lbs idle_generator_def sample_peer_def)
  moreover have "TrimSpace [] = []" by code_simp
  moreover have "trim_right_slash ''http://lb:9090'' = ''http://lb:9090''" by code_simp
  ultimately have "?c \<in> set (fst (handleReloadInvalid ?net (\<lambda>b. False) sample_server (Some [])))"
    by (simp add: handleReloadInvalid_def split_beta lbs call_peer_def sample_peer_def Let_def)
  from invalid_reload_harmless [where yaml_decode = "\<lambda>b. Inr (sample_config\<lparr>Algorithm := ''p3c_ewma''\<rparr>) :: unit + Config",
      OF _ a(1,2) this, of invalidReloadBody "\<lambda>v. None" "\<lambda>t. ''t''" "\<lambda>e. ''e''" 7] a(3)
  show ?thesis by simp blast
qed


section \<open>Active probes and injected chaos\<close>

text \<open>
  A probe asks for the backend's configured URL; a client sends an empty path as \<open>/\<close>. The checker
  sees the status, or nothing when the connection breaks or the answer takes its timeout.
\<close>

definition probe_request :: "string \<Rightarrow> dummy_request" where
  "probe_request path = \<lparr>d_method = ''GET'', d_path = (if path = [] then ''/'' else path), d_remote = []\<rparr>"

definition probe_exchange :: "duration \<Rightarrow> dummy_response option \<Rightarrow> nat option" where
  "probe_exchange timeout resp =
     (case resp of None \<Rightarrow> None | Some r \<Rightarrow> if d_slept r < timeout then Some (d_status r) else None)"

fun answers ::
  "(int \<Rightarrow> int) \<Rightarrow> duration \<Rightarrow> dummy_request \<Rightarrow> rat list \<Rightarrow> dummy_backend \<Rightarrow> nat option list \<times> dummy_backend" where
  "answers draw timeout r [] d = ([], d)"
| "answers draw timeout r (toss # ts) d =
     (let (d1, resp) = handler draw toss r d; (os, d2) = answers draw timeout r ts d1
      in (probe_exchange timeout resp # os, d2))"

lemma chaotic_answers:
  assumes "counted r" "failRate (chaos d) = Fin 1" "\<forall>t \<in> set ts. t < 1"
  shows "(\<forall>resp \<in> set (fst (answers draw timeout r ts d)). \<not> probe_outcome resp) \<and>
    length (fst (answers draw timeout r ts d)) = length ts"
  using assms(2,3)
proof (induction ts arbitrary: d)
  case (Cons t ts)
  have "\<not> probe_outcome (probe_exchange timeout (snd (handler draw t r d)))"
    using Cons.prems handler_counted [OF assms(1), of draw t d]
    by (simp add: probe_exchange_def probe_outcome_def plain_response_def Let_def split: option.splits)
  moreover have "failRate (chaos (fst (handler draw t r d))) = Fin 1" using Cons.prems(1) by (simp add: handler_keeps)
  ultimately show ?case using Cons.IH [of "fst (handler draw t r d)"] Cons.prems(2) by (simp add: split_beta)
qed simp

lemma answers_arrivals:
  "counted r \<Longrightarrow> arrivals d = wrap64 k \<Longrightarrow>
     arrivals (snd (answers draw timeout r ts d)) = wrap64 (k + int (length ts))"
  "\<not> counted r \<Longrightarrow> arrivals (snd (answers draw timeout r ts d)) = arrivals d"
  by (induction ts arbitrary: d k) (simp_all add: split_beta handler_keeps wrap64_add add.assoc)

lemma health_answers:
  assumes "d_path r = ''/health''" "d_method r = ''GET''" "0 < timeout"
  shows "\<forall>resp \<in> set (fst (answers draw timeout r ts d)). probe_outcome resp"
proof (induction ts arbitrary: d)
  case (Cons t ts)
  have "\<not> counted r" using assms by (simp add: counted_def)
  from handler_uncounted [OF this, of draw t d] obtain resp where
    "snd (handler draw t r d) = Some resp" "d_slept resp = 0" "d_status resp = 200"
    using assms by auto
  then have "probe_outcome (probe_exchange timeout (snd (handler draw t r d)))"
    using assms(3) by (simp add: probe_exchange_def probe_outcome_def)
  then show ?case using Cons by (simp add: split_beta)
qed simp



end
