(* ===== verification/Demo_Process.thy ===== *)
theory Demo_Process
  imports Demo_Env
begin

text \<open>
  The end of the demo's processes: the tails of \<open>main\<close> in \<open>deployments/docker/dummy-backend/main.go\<close>,
  \<open>demo/control-service/main.go\<close> and \<open>demo/traffic-generator/main.go\<close>. Each listens in \<open>main\<close> and
  shuts down in a goroutine of its own once a signal cancels the context. A server of \<open>net/http\<close> is
  whether \<open>Shutdown\<close> has been called on it and the number of requests it is answering:
  \<open>Shutdown\<close> makes \<open>ListenAndServe\<close> return \<open>ErrServerClosed\<close> at once and itself returns when no
  request is left or the context of the shutdown has expired. A process that has exited does nothing.
\<close>

record http_server =
  closing :: bool
  active :: nat

datatype shut_phase = ShutWaiting | ShutAdmin | ShutMain | ShutDone

datatype life_line = AdminShutdownFailed | ShutdownFailed | AdminServerFailed | ServerFailed

record life =
  stopped :: bool
  window_over :: bool
  shut :: shut_phase
  admin_srv :: "http_server option"
  main_srv :: http_server
  life_log :: "life_line list"
  exit_code :: "int option"

text \<open>What \<open>Shutdown\<close> returns when it looks at the server: nothing yet, success, or the expiry.\<close>

definition shutdown_returns :: "bool \<Rightarrow> http_server \<Rightarrow> bool option" where
  "shutdown_returns over srv = (if active srv = 0 then Some True else if over then Some False else None)"

definition begin_main :: "life \<Rightarrow> life" where
  "begin_main p = p\<lparr>shut := ShutMain, main_srv := (main_srv p)\<lparr>closing := True\<rparr>\<rparr>"

definition end_main :: "life \<Rightarrow> life" where
  "end_main p =
     (case shutdown_returns (window_over p) (main_srv p) of
        None \<Rightarrow> p
      | Some ok \<Rightarrow> p\<lparr>shut := ShutDone, life_log := life_log p @ (if ok then [] else [ShutdownFailed])\<rparr>)"

text \<open>One action of the shutdown goroutine of the dummy backend: the admin server first.\<close>

definition dummy_shutdown :: "life \<Rightarrow> life" where
  "dummy_shutdown p =
     (case shut p of
        ShutWaiting \<Rightarrow>
          if \<not> stopped p then p
          else (case admin_srv p of
                  None \<Rightarrow> begin_main p
                | Some a \<Rightarrow> p\<lparr>shut := ShutAdmin, admin_srv := Some (a\<lparr>closing := True\<rparr>)\<rparr>)
      | ShutAdmin \<Rightarrow>
          (case admin_srv p of
             None \<Rightarrow> p
           | Some a \<Rightarrow>
               (case shutdown_returns (window_over p) a of
                  None \<Rightarrow> p
                | Some ok \<Rightarrow> begin_main (p\<lparr>life_log := life_log p @ (if ok then [] else [AdminShutdownFailed])\<rparr>)))
      | ShutMain \<Rightarrow> end_main p
      | ShutDone \<Rightarrow> p)"

text \<open>The control service and the traffic client have one server each.\<close>

definition control_shutdown :: "life \<Rightarrow> life" where
  "control_shutdown p =
     (case shut p of
        ShutWaiting \<Rightarrow> if \<not> stopped p then p else begin_main p
      | ShutMain \<Rightarrow> end_main p
      | _ \<Rightarrow> p)"

definition gen_shutdown :: "life \<Rightarrow> life" where
  "gen_shutdown p =
     (case shut p of
        ShutWaiting \<Rightarrow> if \<not> stopped p then p else begin_main p
      | ShutMain \<Rightarrow> end_main p
      | _ \<Rightarrow> p)"

text \<open>\<open>ListenAndServe\<close> of the admin server, and of \<open>main\<close>, returns; \<open>sclosed\<close> says whether it is \<open>ErrServerClosed\<close>.\<close>

definition admin_serve_returns :: "bool \<Rightarrow> life \<Rightarrow> life" where
  "admin_serve_returns sclosed p =
     (if \<not> sclosed then p\<lparr>life_log := life_log p @ [AdminServerFailed], exit_code := Some 1\<rparr> else p)"

definition main_serve_returns :: "bool \<Rightarrow> life \<Rightarrow> life" where
  "main_serve_returns sclosed p =
     (if \<not> sclosed then p\<lparr>life_log := life_log p @ [ServerFailed], exit_code := Some 1\<rparr>
      else p\<lparr>exit_code := Some 0\<rparr>)"

definition control_serve_returns :: "bool \<Rightarrow> life \<Rightarrow> life" where
  "control_serve_returns sclosed p = main_serve_returns sclosed p"

definition gen_serve_returns :: "bool \<Rightarrow> life \<Rightarrow> life" where
  "gen_serve_returns sclosed p = main_serve_returns sclosed p"

definition new_life :: "bool \<Rightarrow> life" where
  "new_life with_admin =
     \<lparr>stopped = False, window_over = False, shut = ShutWaiting,
      admin_srv = (if with_admin then Some \<lparr>closing = False, active = 0\<rparr> else None),
      main_srv = \<lparr>closing = False, active = 0\<rparr>, life_log = [], exit_code = None\<rparr>"

section \<open>Runs\<close>

text \<open>One step of a process with this shutdown goroutine and this end of \<open>main\<close>.\<close>

inductive life_step :: "(life \<Rightarrow> life) \<Rightarrow> (bool \<Rightarrow> life \<Rightarrow> life) \<Rightarrow> life \<Rightarrow> life \<Rightarrow> bool"
  for goroutine :: "life \<Rightarrow> life" and serve_returns :: "bool \<Rightarrow> life \<Rightarrow> life" where
  signal: "exit_code p = None \<Longrightarrow> life_step goroutine serve_returns p (p\<lparr>stopped := True\<rparr>)"
| window: "exit_code p = None \<Longrightarrow> shut p \<noteq> ShutWaiting \<Longrightarrow>
    life_step goroutine serve_returns p (p\<lparr>window_over := True\<rparr>)"
| shutdown: "exit_code p = None \<Longrightarrow> life_step goroutine serve_returns p (goroutine p)"
| request: "exit_code p = None \<Longrightarrow> \<not> closing (main_srv p) \<Longrightarrow>
    life_step goroutine serve_returns p (p\<lparr>main_srv := (main_srv p)\<lparr>active := Suc (active (main_srv p))\<rparr>\<rparr>)"
| answer: "exit_code p = None \<Longrightarrow> active (main_srv p) = Suc n \<Longrightarrow>
    life_step goroutine serve_returns p (p\<lparr>main_srv := (main_srv p)\<lparr>active := n\<rparr>\<rparr>)"
| admin_request: "exit_code p = None \<Longrightarrow> admin_srv p = Some a \<Longrightarrow> \<not> closing a \<Longrightarrow>
    life_step goroutine serve_returns p (p\<lparr>admin_srv := Some (a\<lparr>active := Suc (active a)\<rparr>)\<rparr>)"
| admin_answer: "exit_code p = None \<Longrightarrow> admin_srv p = Some a \<Longrightarrow> active a = Suc n \<Longrightarrow>
    life_step goroutine serve_returns p (p\<lparr>admin_srv := Some (a\<lparr>active := n\<rparr>)\<rparr>)"
| admin_serve: "exit_code p = None \<Longrightarrow> admin_srv p = Some a \<Longrightarrow> (sclosed \<longrightarrow> closing a) \<Longrightarrow>
    life_step goroutine serve_returns p (admin_serve_returns sclosed p)"
| main_serve: "exit_code p = None \<Longrightarrow> (sclosed \<longrightarrow> closing (main_srv p)) \<Longrightarrow>
    life_step goroutine serve_returns p (serve_returns sclosed p)"

inductive_cases life_stepE: "life_step goroutine serve_returns p q"

text \<open>A cleanly ended process was signalled; a failed one has logged the failure of a listener last.\<close>

definition life_inv :: "life \<Rightarrow> bool" where
  "life_inv p \<longleftrightarrow>
     (shut p \<noteq> ShutWaiting \<longrightarrow> stopped p) \<and>
     (closing (main_srv p) \<longleftrightarrow> shut p \<in> {ShutMain, ShutDone}) \<and>
     (case exit_code p of
        None \<Rightarrow> True
      | Some c \<Rightarrow> (c = 0 \<and> closing (main_srv p) \<and> stopped p) \<or>
                  (c = 1 \<and> life_log p \<noteq> [] \<and> last (life_log p) \<in> {ServerFailed, AdminServerFailed}))"

lemma new_life_inv: "life_inv (new_life with_admin)"
  by (simp add: life_inv_def new_life_def)

text \<open>What the three programs rely on: how their goroutine and the end of \<open>main\<close> treat the process.\<close>

locale shutdown_protocol =
  fixes goroutine :: "life \<Rightarrow> life" and serve_returns :: "bool \<Rightarrow> life \<Rightarrow> life"
  assumes goroutine_inv: "life_inv p \<Longrightarrow> exit_code p = None \<Longrightarrow> life_inv (goroutine p)"
    and goroutine_running: "exit_code (goroutine p) = exit_code p"
    and serve_inv: "life_inv p \<Longrightarrow> (sclosed \<longrightarrow> closing (main_srv p)) \<Longrightarrow> life_inv (serve_returns sclosed p)"
    and serve_exits: "exit_code (serve_returns True p) = Some 0"
    and serve_keeps: "main_srv (serve_returns True p) = main_srv p \<and> window_over (serve_returns True p) = window_over p"
begin

lemma step_inv: "life_step goroutine serve_returns p q \<Longrightarrow> life_inv p \<Longrightarrow> life_inv q"
proof (erule life_stepE, goal_cases)
  case 3
  then show ?case by (simp add: goroutine_inv)
next
  case (9 sclosed)
  then show ?case by (simp add: serve_inv)
qed (auto simp: life_inv_def admin_serve_returns_def)

lemma run_inv: "(life_step goroutine serve_returns)\<^sup>*\<^sup>* p q \<Longrightarrow> life_inv p \<Longrightarrow> life_inv q"
  by (induction rule: rtranclp_induct) (auto intro: step_inv)

text \<open>Nothing makes \<open>main\<close> wait for the shutdown it started: it can end at any moment of it.\<close>

lemma may_end_now:
  assumes "exit_code p = None" and "closing (main_srv p)"
  shows "\<exists>q. life_step goroutine serve_returns p q \<and> exit_code q = Some 0 \<and> main_srv q = main_srv p \<and>
    window_over q = window_over p"
  using main_serve [of p True goroutine serve_returns] assms serve_exits serve_keeps by blast

end

lemmas life_defs = begin_main_def end_main_def shutdown_returns_def main_serve_returns_def

interpretation dummy_life: shutdown_protocol dummy_shutdown main_serve_returns
  by unfold_locales
    (auto simp: life_inv_def dummy_shutdown_def life_defs split: shut_phase.splits option.splits)

interpretation control_life: shutdown_protocol control_shutdown control_serve_returns
  by unfold_locales
    (auto simp: life_inv_def control_shutdown_def control_serve_returns_def life_defs
      split: shut_phase.splits option.splits)

interpretation gen_life: shutdown_protocol gen_shutdown gen_serve_returns
  by unfold_locales
    (auto simp: life_inv_def gen_shutdown_def gen_serve_returns_def life_defs
      split: shut_phase.splits option.splits)


section \<open>How the processes end\<close>

text \<open>
  A process that ended with 0 was signalled and had begun to shut its server down; one that ended
  otherwise ended with 1, and its last line says that a listener failed.
\<close>

theorem demo_exit_codes:
  assumes "(life_step goroutine serve_returns)\<^sup>*\<^sup>* (new_life with_admin) p"
    and "(goroutine, serve_returns) \<in> {(dummy_shutdown, main_serve_returns),
      (control_shutdown, control_serve_returns), (gen_shutdown, gen_serve_returns)}"
    and "exit_code p = Some c"
  shows "(c = 0 \<and> stopped p \<and> closing (main_srv p)) \<or>
    (c = 1 \<and> life_log p \<noteq> [] \<and> last (life_log p) \<in> {ServerFailed, AdminServerFailed})"
proof -
  have "life_inv p"
    using assms(1,2) dummy_life.run_inv control_life.run_inv gen_life.run_inv new_life_inv by blast
  then show ?thesis using assms(3) by (auto simp: life_inv_def)
qed

text \<open>\<open>n\<close> requests arrive, the signal comes, and the goroutine takes its first \<open>k\<close> actions.\<close>

definition accepted :: "nat \<Rightarrow> life \<Rightarrow> life" where
  "accepted n p = p\<lparr>main_srv := (main_srv p)\<lparr>active := n\<rparr>\<rparr>"

lemma accepted_run:
  "exit_code p = None \<Longrightarrow> \<not> closing (main_srv p) \<Longrightarrow> active (main_srv p) = 0 \<Longrightarrow>
   (life_step goroutine serve_returns)\<^sup>*\<^sup>* p (accepted n p)"
proof (induction n)
  case 0
  then have "accepted 0 p = p" by (simp add: accepted_def)
  then show ?case by simp
next
  case (Suc n)
  have "life_step goroutine serve_returns (accepted n p) (accepted (Suc n) p)"
    using request [of "accepted n p" goroutine serve_returns] Suc.prems by (simp add: accepted_def)
  then show ?case using Suc by (auto intro: rtranclp.rtrancl_into_rtrancl)
qed

lemma goroutine_run:
  assumes "exit_code p = None" and "\<And>q. exit_code (goroutine q) = exit_code q"
  shows "(life_step goroutine serve_returns)\<^sup>*\<^sup>* p ((goroutine ^^ k) p) \<and> exit_code ((goroutine ^^ k) p) = None"
  by (induction k) (auto simp: assms intro: rtranclp.rtrancl_into_rtrancl shutdown)

lemma shutdown_begins:
  "closing (main_srv ((dummy_shutdown ^^ 2) ((accepted n (new_life with_admin))\<lparr>stopped := True\<rparr>))) \<and>
   active (main_srv ((dummy_shutdown ^^ 2) ((accepted n (new_life with_admin))\<lparr>stopped := True\<rparr>))) = n \<and>
   \<not> window_over ((dummy_shutdown ^^ 2) ((accepted n (new_life with_admin))\<lparr>stopped := True\<rparr>))"
  by (simp add: numeral_2_eq_2 dummy_shutdown_def accepted_def new_life_def life_defs)

text \<open>
  The shutdown window is never waited for: \<open>main\<close> returns as soon as \<open>Shutdown\<close> has been called,
  so the dummy backend can exit with 0 while any number of requests is being answered and the
  five seconds they were to have are not over.
\<close>

theorem shutdown_not_awaited:
  "\<exists>p. (life_step dummy_shutdown main_serve_returns)\<^sup>*\<^sup>* (new_life with_admin) p \<and>
     exit_code p = Some 0 \<and> active (main_srv p) = n \<and> \<not> window_over p"
proof -
  let ?s = "(accepted n (new_life with_admin))\<lparr>stopped := True\<rparr>"
  let ?c = "(dummy_shutdown ^^ 2) ?s"
  let ?r = "life_step dummy_shutdown main_serve_returns"
  have "?r\<^sup>*\<^sup>* (new_life with_admin) (accepted n (new_life with_admin))"
    by (rule accepted_run) (simp_all add: new_life_def)
  moreover have x: "exit_code (accepted n (new_life with_admin)) = None" by (simp add: accepted_def new_life_def)
  ultimately have "?r\<^sup>*\<^sup>* (new_life with_admin) ?s"
    using signal [OF x] by (blast intro: rtranclp.rtrancl_into_rtrancl)
  moreover have c: "?r\<^sup>*\<^sup>* ?s ?c \<and> exit_code ?c = None"
    by (rule goroutine_run) (simp_all add: x dummy_life.goroutine_running)
  ultimately have "?r\<^sup>*\<^sup>* (new_life with_admin) ?c" by (blast intro: rtranclp_trans)
  moreover obtain p where "?r ?c p" "exit_code p = Some 0" "main_srv p = main_srv ?c" "window_over p = window_over ?c"
    using dummy_life.may_end_now [OF conjunct2 [OF c] conjunct1 [OF shutdown_begins]] by blast
  ultimately show ?thesis
    using shutdown_begins [of n with_admin] by (metis rtranclp.rtrancl_into_rtrancl)
qed

end
