(* ===== verification/Spec2Isabelle.thy ===== *)
theory Spec2Isabelle
  imports Go_Prelude Float64 Logger Metrics Config_Load Config_Validate Config_Diff CAS_Loop
    Backend Circuit_Concurrent World Registry Observer Circuit_Breaker Selectors Ring Consistent_Hash
    Outlier Checker Endpoint Proxy Proxy_Concurrent Build Request Drain App Reload
    Startup Admin Readded Main_Program Demo_Env Dummy_Backend Traffic_Generator Control_Service Demo Demo_Process
begin

text \<open>
  A verification development for l7LoadBalancer, an HTTP load balancer written in Go.

  \<^bold>\<open>The program.\<close> \<open>cmd/l7LoadBalancer/main.go\<close> loads and validates a YAML file
  (\<open>internal/config\<close>) and builds the application (\<open>internal/app\<close>): a registry of backends
  (\<open>internal/backend\<close>) with the circuit breaker as its gate (\<open>internal/circuit\<close>), a selector
  (\<open>internal/balancer\<close>), the reverse proxy (\<open>internal/proxy\<close>) with three round-trip observers
  (latency estimate, outlier window, circuit), an active health checker and the orchestrator
  endpoints (\<open>internal/health\<close>), a metrics collector (\<open>internal/metrics\<close>) and structured logs
  (\<open>internal/logger\<close>). A request is selected, gated, dispatched and observed; probes and
  observers change health and circuit; a reload (SIGHUP or the admin endpoint) diffs the new file
  against the loaded one, swaps the registry snapshot and starts a drain per removed backend. The
  demo around it has three more programs: the dummy backend it balances over
  (\<open>deployments/docker/dummy-backend\<close>), the traffic clients (\<open>demo/traffic-generator\<close>) and the control
  page that drives them all over HTTP (\<open>demo/control-service\<close>).

  \<^bold>\<open>State.\<close> Backends are shared by pointer, so they are records in a heap addressed by \<open>bid\<close>;
  \<open>world\<close> (\<open>World\<close>) is that heap, the published snapshot, the calls made to the metrics
  library and the log. \<open>Outlier\<close> extends it with the outlier windows. The checker, the proxy and
  the application are records of their own. An operation under a mutex, or between two atomic
  accesses, is one function on the state; what runs in goroutines is composed by step relations.

  \<^bold>\<open>Theories, in the order of their imports.\<close>
  \<^item> \<open>Go_Prelude\<close>, \<open>Float64\<close>: Go's integers at their width, time, the string functions the program
    uses, \<open>float64\<close> rounding; the shared automation.
  \<^item> \<open>Logger\<close>, \<open>Metrics\<close>: \<open>logger/vocab.go\<close>, \<open>metrics/metrics.go\<close>.
  \<^item> \<open>Config_Load\<close>, \<open>Config_Validate\<close>, \<open>Config_Diff\<close>: \<open>config/config.go\<close> and \<open>config/diff.go\<close>.
    Validation is characterised by \<open>config_ok\<close> and \<open>resolve\<close>, the diff by filters.
  \<^item> \<open>CAS_Loop\<close>: compare-and-swap loops of any number of threads as a step relation, with one
    invariant lemma per use. \<open>Backend\<close>: \<open>backend/backend.go\<close>, each circuit method as one atomic
    run of its loop body, with the abstract three-state breaker it simulates. \<open>Circuit_Concurrent\<close>:
    the same bodies interleaved, and the end of their loops.
  \<^item> \<open>Registry\<close>: \<open>backend/registry.go\<close>, with the interface \<open>circuit_gate\<close> of its gate.
    \<open>Observer\<close>: the interface of round-trip observers. \<open>Circuit_Breaker\<close>: \<open>circuit/circuit.go\<close>,
    which provides both.
  \<^item> \<open>Selectors\<close>, \<open>Ring\<close>, \<open>Consistent_Hash\<close>: \<open>internal/balancer\<close>, with the contract every
    strategy satisfies.
  \<^item> \<open>Outlier\<close>, \<open>Checker\<close>, \<open>Endpoint\<close>: \<open>health/outlier.go\<close>, \<open>checker.go\<close>, \<open>endpoint.go\<close>.
  \<^item> \<open>Proxy\<close>: \<open>proxy/proxy.go\<close>, the hooks and \<open>ServeHTTP\<close>; \<open>Proxy_Concurrent\<close>: requests as
    interleaved runs, with the slot invariant proved once for any wiring; \<open>Build\<close>: the wiring of
    production, which discharges it; \<open>Request\<close>: what one request does to everything.
  \<^item> \<open>Drain\<close>: \<open>app/drain.go\<close>. \<open>App\<close>: \<open>app/app.go\<close>. \<open>Reload\<close>: the application invariant and the
    accepted reload. \<open>Startup\<close>: \<open>Build\<close> and \<open>Run\<close>. \<open>Admin\<close>: \<open>app/admin.go\<close>. \<open>Readded\<close>: a
    defect of the gauge seeding. \<open>Main_Program\<close>: \<open>cmd/l7LoadBalancer/main.go\<close>.
  \<^item> \<open>Demo_Env\<close>: \<open>float64\<close> with its infinities and NaN, string functions and environment parsing the
    demo programs share. \<open>Dummy_Backend\<close>, \<open>Traffic_Generator\<close>, \<open>Control_Service\<close>: their \<open>main.go\<close>,
    each a state with its handlers; the control service has no state, its peers are the argument
    \<open>net\<close>, and each handler gives the calls it makes with its answer. \<open>Demo\<close>: its invalid-reload
    action against the load balancer's endpoint, and active probes against a dummy backend.
    \<open>Demo_Process\<close>: how the three demo processes end, as a step relation over the signal, the
    shutdown goroutine and the servers, with the interface \<open>shutdown_protocol\<close> of the three.

  \<^bold>\<open>What the theorems show.\<close> Sequentially, each component meets its abstract specification: the
  breaker the three-state machine, the outlier ring the last ten outcomes, the checker the runs of
  equal probe outcomes, the registry the diff of two files, the strategies their contracts
  (fairness, first minimum, never the slower of two, first admissible candidate within the load
  bound, which is the load-blind choice unless that one is over the bound), and a backend's fields
  keep their types under any sequence of calls. Concurrently, one trial per half-open episode,
  every transition reported once, no lost latency sample, retry loops that end within a number of
  steps quadratic in the calls under way, and slots conserved by every interleaving of requests,
  drains and reloads.
  Across components: a request is recorded once, classified into one error tier and never leaves a
  trial taken; a reload is all or nothing and reloads compose; start-up serves the validated file;
  the SIGHUP loop loses no signal. In the demo, the delivery counters of a traffic client add up
  under every interleaving, the control page can change nothing but its configured peers, reports a
  switch exactly when every client made it, reads the algorithm back that is exposed, and its
  invalid reload leaves the load balancer as it was. Some theorems state behaviour the code's own documents exclude:
  an open circuit chosen by consistent hashing, a readiness latch lost by a reload, a second trial
  admitted by a stale request, two ways the active-requests gauge becomes negative, a traffic client
  that floods at the lowest rates, active probes that meet the dummy backend's injected failures, a
  jitter after which it fails every request, and demo processes that end without waiting for the
  requests their shutdown was to wait for.

  \<^bold>\<open>Bounds.\<close> No definition needs fuel: loops run over finite lists or end by a measure, and a loop
  that waits (compare-and-swap, drains, the SIGHUP loop) is a machine over the events it sees.
  \<open>int64\<close> and \<open>int32\<close> values wrap by \<open>wrap64\<close> and \<open>wrap32\<close>; hashes and the snapshot version are
  64-bit words.

  \<^bold>\<open>Parameters.\<close> The YAML decoder, \<open>url.Parse\<close>, the file system, the environment, key pairs, clocks,
  random draws, decoding of JSON bodies, what a peer replies, what a backend and a client do, and the
  metrics library. The library appears as
  the hypothesis \<open>gauge_vec_doc\<close>, its documented behaviour, which \<open>gauge_read\<close> satisfies.

  \<^bold>\<open>Not modelled.\<close> Sockets, HTTP parsing, the HTTP servers' own limits, the delivery of signals;
  texts of errors and durations in log lines; help texts and histogram buckets; the control page's
  HTML and the text form of the container metrics; \<open>logger.New\<close>; scripts, dashboards and tests.
\<close>

end
